(* ===== verification/Cnc_Prelude.thy ===== *)
theory Cnc_Prelude
  imports Main "HOL-Library.Word" "HOL-Library.Monad_Syntax"
begin

text \<open>
  Shared material of the development: the machine integer types of the C code, the
  reading of a C \<open>int\<close> (a mathematical integer wrapped to 32 bits), a model of
  \<open>memcpy\<close> into an array (\<open>blit\<close>), error values, and the lemma collections the
  component theories extend.
\<close>

unbundle bit_operations_syntax

named_theorems io_simps \<open>what a sequence of bus accesses does to the log\<close>
named_theorems drv_simps \<open>unfolding of the driver's straight-line steps\<close>
named_theorems frame_simps \<open>fields an operation leaves alone\<close>

type_synonym u8 = "8 word"
type_synonym u16 = "16 word"
type_synonym u32 = "32 word"
type_synonym u64 = "64 word"

text \<open>
  The error numbers the code names symbolically. A function that returns a negative
  error number in C returns \<open>Inl e\<close> here; \<open>Errno n\<close> is any other number, handed
  through from a kernel function the driver calls.
\<close>

datatype errno = EINTR | EAGAIN | EFAULT | EINVAL | ERESTARTSYS | EIO | ENOMEM | Errno nat

section \<open>C integers\<close>

text \<open>
  Conversion to a 32-bit \<open>int\<close>: two's complement wrap-around, as every compiler the
  code is built with does it.
\<close>

definition to_int32 :: "int \<Rightarrow> int" where
  "to_int32 i = signed_take_bit 31 i"

lemma to_int32_id:
  assumes "- (2 ^ 31) \<le> i" and "i < 2 ^ 31"
  shows "to_int32 i = i"
  using assms by (simp add: to_int32_def signed_take_bit_int_eq_self)

lemma to_int32_range: "- (2 ^ 31) \<le> to_int32 i \<and> to_int32 i < 2 ^ 31"
  unfolding to_int32_def
  using signed_take_bit_int_greater_eq_minus_exp [of 31 i] signed_take_bit_int_less_exp [of 31 i]
  by simp

section \<open>Copying into an array\<close>

text \<open>
  \<open>blit dst off src\<close> is the array \<open>dst\<close> after \<open>memcpy (dst + off, src, n)\<close> with
  \<open>n\<close> the length of \<open>src\<close>; it is only used where the target range lies in the array.
\<close>

definition blit :: "'a list \<Rightarrow> nat \<Rightarrow> 'a list \<Rightarrow> 'a list" where
  "blit dst off src = take off dst @ src @ drop (off + length src) dst"

lemma length_blit [simp]:
  "off + length src \<le> length dst \<Longrightarrow> length (blit dst off src) = length dst"
  by (simp add: blit_def)

lemma blit_Nil [simp]: "blit dst off [] = dst"
  by (simp add: blit_def)

lemma take_blit_prefix:
  "off \<le> length dst \<Longrightarrow> take off (blit dst off src) = take off dst"
  by (simp add: blit_def)

lemma take_blit:
  "off \<le> length dst \<Longrightarrow> take (off + length src) (blit dst off src) = take off dst @ src"
  by (simp add: blit_def)

lemma nth_blit:
  assumes "off + length src \<le> length dst" and "i < length dst"
  shows "blit dst off src ! i =
    (if off \<le> i \<and> i < off + length src then src ! (i - off) else dst ! i)"
  using assms by (auto simp: blit_def nth_append min_def)

section \<open>Bytes of a word\<close>

lemma unat_u8_less [simp]: "unat (b :: u8) < 256"
  using unsigned_less [of b, where ?'a = nat] by simp

lemma ucast_u8_u32_inject: "(ucast (a :: u8) :: u32) = ucast b \<longleftrightarrow> a = b"
proof
  assume "(ucast a :: u32) = ucast b"
  then have "(ucast (ucast a :: u32) :: u8) = ucast (ucast b :: u32)" by simp
  then show "a = b" by (simp add: ucast_up_ucast_id is_up)
qed simp

lemma unat_u16_less [simp]: "unat (b :: u16) < 65536"
  using unsigned_less [of b, where ?'a = nat] by simp

lemma unat_ucast_u8_u32 [simp]: "unat (ucast (b :: u8) :: u32) = unat b"
  by (simp add: unsigned_ucast_eq take_bit_nat_eq_self_iff order.strict_trans2 [OF unat_u8_less])

lemma unat_ucast_u8_u16 [simp]: "unat (ucast (b :: u8) :: u16) = unat b"
  by (simp add: unsigned_ucast_eq take_bit_nat_eq_self_iff order.strict_trans2 [OF unat_u8_less])

lemma ucast_ucast_u8_u32 [simp]: "ucast (ucast (b :: u8) :: u32) = b"
  by (simp add: ucast_up_ucast_id is_up)

lemma ucast_ucast_u8_u16 [simp]: "ucast (ucast (b :: u8) :: u16) = b"
  by (simp add: ucast_up_ucast_id is_up)

lemma u16_low_nibble: "(c :: u16) AND ucast (0x0F :: u8) = ucast (ucast c AND 0x0F :: u8)"
proof -
  have "(c :: u16) AND ucast (mask 4 :: u8) = ucast (ucast c AND mask 4 :: u8)"
    by (intro bit_word_eqI) (auto simp: bit_simps)
  then show ?thesis by (simp add: mask_eq_exp_minus_1)
qed

section \<open>Bits of a word\<close>

lemma nonzero_bit: "(a :: u32) \<noteq> 0 \<longleftrightarrow> (\<exists>i. bit a i)"
proof -
  have "a = 0" if "\<forall>i. \<not> bit a i"
    by (rule bit_word_eqI) (simp add: that)
  then show ?thesis by auto
qed

lemma bit_test: "(a :: u32) AND 2 ^ i \<noteq> 0 \<longleftrightarrow> bit a i"
proof -
  have "bit (a AND 2 ^ i) n \<longleftrightarrow> n = i \<and> bit a i" for n
    by (auto simp: bit_simps dest: bit_imp_le_length)
  then show ?thesis unfolding nonzero_bit by blast
qed

text \<open>The signed reading of a word.\<close>

lemma sint_u32: "sint (v :: u32) = (if unat v < 2 ^ 31 then int (unat v) else int (unat v) - 2 ^ 32)"
proof -
  have s: "- (2 ^ 31) \<le> sint v" "sint v < 2 ^ 31" using sint_ge [of v] sint_lt [of v] by simp_all
  have u: "int (unat v) = sint v mod 2 ^ 32" using uint_sint [of v] by (simp add: take_bit_eq_mod)
  have "int (unat v) = (if sint v < 0 then sint v + 2 ^ 32 else sint v)"
  proof (cases "sint v < 0")
    case True
    then have "(sint v + 2 ^ 32) mod 2 ^ 32 = sint v + 2 ^ 32" using s by (intro mod_pos_pos_trivial) simp_all
    then have "sint v mod 2 ^ 32 = sint v + 2 ^ 32" by simp
    then show ?thesis using True u by simp
  next
    case False
    then have "sint v mod 2 ^ 32 = sint v" using s by (intro mod_pos_pos_trivial) simp_all
    then show ?thesis using False u by simp
  qed
  moreover have "unat v < 2 ^ 31 \<longleftrightarrow> int (unat v) < int (2 ^ 31)" by (simp only: of_nat_less_iff)
  ultimately show ?thesis using s by (auto split: if_splits)
qed

section \<open>Searching a list\<close>

lemma find_in_set: "find P xs = Some x \<Longrightarrow> x \<in> set xs \<and> P x"
  by (induction xs) (auto split: if_splits)

lemma find_unique:
  assumes "c \<in> set xs" and "\<And>x. P x \<longleftrightarrow> x = c"
  shows "find P xs = Some c"
  using assms by (induction xs) auto

end
