(* ===== verification/Drv_Bus.thy ===== *)
theory Drv_Bus
  imports Cnc_Prelude
begin

text \<open>
  The register window of the card, as the kernel driver sees it. The driver reaches
  the hardware only through \<open>ioread32\<close> and \<open>iowrite32\<close> on an address
  \<open>dev->mem_addr + offset\<close>. What the hardware answers is not the driver's code: it is
  the parameter \<open>answer\<close> of the bus, a function from the number of the access and the
  offset to the value read. Statements that hold for every \<open>answer\<close> hold for every
  card. The log records the accesses in the order they are made.
\<close>

datatype bus_event =
    Rd (ev_addr: u32) (ev_val: u32)
  | Wr (ev_addr: u32) (ev_val: u32)

record bus =
  answer :: "nat \<Rightarrow> u32 \<Rightarrow> u32"
  bus_log :: "bus_event list"

definition ioread32 :: "u32 \<Rightarrow> bus \<Rightarrow> u32 \<times> bus" where
  "ioread32 a b =
     (let v = answer b (length (bus_log b)) a
      in (v, b\<lparr>bus_log := bus_log b @ [Rd a v]\<rparr>))"

definition iowrite32 :: "u32 \<Rightarrow> u32 \<Rightarrow> bus \<Rightarrow> bus" where
  "iowrite32 v a b = b\<lparr>bus_log := bus_log b @ [Wr a v]\<rparr>"

lemma ioread32_log [io_simps]:
  "bus_log (snd (ioread32 a b)) = bus_log b @ [Rd a (fst (ioread32 a b))]"
  by (simp add: ioread32_def Let_def)

lemma ioread32_answer [io_simps]: "answer (snd (ioread32 a b)) = answer b"
  by (simp add: ioread32_def Let_def)

lemma ioread32_value: "fst (ioread32 a b) = answer b (length (bus_log b)) a"
  by (simp add: ioread32_def Let_def)

lemma iowrite32_log [io_simps]: "bus_log (iowrite32 v a b) = bus_log b @ [Wr a v]"
  by (simp add: iowrite32_def)

lemma iowrite32_answer [io_simps]: "answer (iowrite32 v a b) = answer b"
  by (simp add: iowrite32_def)

text \<open>The values written to one register, in order, and the one it holds at the end.\<close>

fun writes_to :: "u32 \<Rightarrow> bus_event list \<Rightarrow> u32 list" where
  "writes_to a [] = []"
| "writes_to a (Rd r v # es) = writes_to a es"
| "writes_to a (Wr r v # es) = (if r = a then v # writes_to a es else writes_to a es)"

definition last_written :: "u32 \<Rightarrow> bus_event list \<Rightarrow> u32 option" where
  "last_written a es = (case rev (writes_to a es) of [] \<Rightarrow> None | v # _ \<Rightarrow> Some v)"

lemma writes_to_append [simp]: "writes_to a (xs @ ys) = writes_to a xs @ writes_to a ys"
  by (induction a xs rule: writes_to.induct) auto

lemma writes_to_reads [simp]: "writes_to a (map (\<lambda>r. Rd r (f r)) rs) = []"
  by (induction rs) auto

lemma writes_to_same [simp]: "writes_to a (map (Wr a) vs) = vs"
  by (induction vs) auto

lemma writes_to_other: "r \<noteq> a \<Longrightarrow> writes_to a (map (Wr r) vs) = []"
  by (induction vs) auto

lemma last_written_Nil [simp]: "last_written a [] = None"
  by (simp add: last_written_def)

lemma last_written_append [simp]:
  "last_written a (xs @ ys) =
    (case last_written a ys of Some v \<Rightarrow> Some v | None \<Rightarrow> last_written a xs)"
  by (auto simp: last_written_def split: list.splits)

lemma last_written_Wr [simp]:
  "last_written a (Wr r v # es) =
    (case last_written a es of Some w \<Rightarrow> Some w | None \<Rightarrow> if r = a then Some v else None)"
  by (auto simp: last_written_def split: list.splits)

lemma last_written_Rd [simp]: "last_written a (Rd r v # es) = last_written a es"
  by (simp add: last_written_def)

text \<open>A bus whose registers all read as zero.\<close>

definition idle_bus :: bus where "idle_bus = \<lparr>answer = (\<lambda>_ _. 0), bus_log = []\<rparr>"

text \<open>A loop of writes to one register, and a sequence of reads.\<close>

primrec write_all :: "u32 \<Rightarrow> u32 list \<Rightarrow> bus \<Rightarrow> bus" where
  "write_all a [] b = b"
| "write_all a (v # vs) b = write_all a vs (iowrite32 v a b)"

lemma write_all_log [io_simps]: "bus_log (write_all a vs b) = bus_log b @ map (Wr a) vs"
  by (induction vs arbitrary: b) (auto simp: io_simps)

lemma write_all_answer [io_simps]: "answer (write_all a vs b) = answer b"
  by (induction vs arbitrary: b) (auto simp: io_simps)

primrec read_all :: "u32 list \<Rightarrow> bus \<Rightarrow> u32 list \<times> bus" where
  "read_all [] b = ([], b)"
| "read_all (a # as) b =
     (let (v, b1) = ioread32 a b; (vs, b2) = read_all as b1 in (v # vs, b2))"

lemma length_read_all [simp]: "length (fst (read_all as b)) = length as"
  by (induction as arbitrary: b) (auto simp: Let_def split_beta)

lemma read_all_answer [io_simps]: "answer (snd (read_all as b)) = answer b"
  by (induction as arbitrary: b) (auto simp: Let_def io_simps split_beta)

lemma read_all_log [io_simps]:
  "bus_log (snd (read_all as b)) = bus_log b @ map2 Rd as (fst (read_all as b))"
  by (induction as arbitrary: b) (auto simp: Let_def io_simps split_beta)

lemma writes_to_map2_Rd [simp]: "writes_to a (map2 Rd as vs) = []"
proof (induction as arbitrary: vs)
  case (Cons x xs)
  then show ?case by (cases vs) auto
qed simp

lemma read_all_nth:
  "i < length as \<Longrightarrow>
   fst (read_all as b) ! i = answer b (length (bus_log b) + i) (as ! i)"
proof (induction as arbitrary: b i)
  case (Cons a as)
  show ?case
  proof (cases i)
    case 0
    then show ?thesis by (simp add: Let_def split_beta ioread32_value)
  next
    case (Suc j)
    with Cons.prems Cons.IH [of j "snd (ioread32 a b)"] show ?thesis
      by (simp add: Let_def split_beta io_simps)
  qed
qed simp

end
