(* ===== verification/Drv_Dev.thy ===== *)
theory Drv_Dev
  imports Drv_Bus
begin

text \<open>
  The driver's private state (\<open>struct cnc_dev_t\<close> of \<open>drv/src/cnc_card.c\<close>), its
  constants, the kernel locks it takes, and the register map of the card: the offsets
  the driver adds to \<open>mem_addr\<close>, and the addresses at which \<open>rtl/txproc.v\<close> decodes
  the same registers.
\<close>

section \<open>Constants\<close>

definition BUF_SIZE :: nat where "BUF_SIZE = 1000"
definition POS_SIZE :: nat where "POS_SIZE = 34"
definition INTCSR_V_MEM_ADDR :: u32 where "INTCSR_V_MEM_ADDR = 0x01"
definition PCTOCARD_V_MEM_ADDR :: u32 where "PCTOCARD_V_MEM_ADDR = 0x05"

section \<open>Device state\<close>

datatype task_state = TASK_RUNNING | TASK_INTERRUPTIBLE

text \<open>
  The fields that the file operations and the interrupt handler use. A process is a
  number; \<open>mutex\<close> holds its owner, \<open>w_wait\<close> the processes on the wait queue (the last
  to come first), and \<open>tstate\<close> is the scheduling state of each process. The PCI
  resources belong to the theory of \<open>cnc_probe\<close>.
\<close>

record cnc_dev =
  data_buf :: "u32 list"
  current_buf_num :: int
  pos_data_buf :: "u32 list"
  current_pos_buf_num :: int
  mutex :: "nat option"
  w_wait :: "nat list"
  tstate :: "nat \<Rightarrow> task_state"

definition dev_inv :: "cnc_dev \<Rightarrow> bool" where
  "dev_inv d \<longleftrightarrow>
     length (data_buf d) = BUF_SIZE \<and> 0 \<le> current_buf_num d \<and>
     current_buf_num d \<le> int BUF_SIZE \<and> length (pos_data_buf d) = POS_SIZE"

text \<open>The device just after \<open>devm_kzalloc\<close>: all zero, nobody waiting.\<close>

definition dev_init :: cnc_dev where
  "dev_init = \<lparr>data_buf = replicate BUF_SIZE 0, current_buf_num = 0,
     pos_data_buf = replicate POS_SIZE 0, current_pos_buf_num = 0,
     mutex = None, w_wait = [], tstate = (\<lambda>_. TASK_RUNNING)\<rparr>"

lemma dev_inv_init: "dev_inv dev_init"
  by (simp add: dev_inv_def dev_init_def)

section \<open>Kernel primitives on the state\<close>

definition mutex_acquire :: "nat \<Rightarrow> cnc_dev \<Rightarrow> cnc_dev" where
  "mutex_acquire p d = d\<lparr>mutex := Some p\<rparr>"

definition mutex_unlock :: "cnc_dev \<Rightarrow> cnc_dev" where
  "mutex_unlock d = d\<lparr>mutex := None\<rparr>"

definition add_wait_queue :: "nat \<Rightarrow> cnc_dev \<Rightarrow> cnc_dev" where
  "add_wait_queue p d = d\<lparr>w_wait := p # w_wait d\<rparr>"

definition remove_wait_queue :: "nat \<Rightarrow> cnc_dev \<Rightarrow> cnc_dev" where
  "remove_wait_queue p d = d\<lparr>w_wait := filter (\<lambda>q. q \<noteq> p) (w_wait d)\<rparr>"

definition set_task_state :: "nat \<Rightarrow> task_state \<Rightarrow> cnc_dev \<Rightarrow> cnc_dev" where
  "set_task_state p s d = d\<lparr>tstate := (tstate d)(p := s)\<rparr>"

text \<open>\<open>wake_up_interruptible\<close>: every process on the queue becomes runnable.\<close>

definition wake_up_interruptible :: "cnc_dev \<Rightarrow> cnc_dev" where
  "wake_up_interruptible d =
     d\<lparr>tstate := (\<lambda>p. if p \<in> set (w_wait d) then TASK_RUNNING else tstate d p)\<rparr>"

lemmas kernel_defs = mutex_acquire_def mutex_unlock_def add_wait_queue_def
  remove_wait_queue_def set_task_state_def wake_up_interruptible_def

declare kernel_defs [drv_simps]

text \<open>None of these touches the buffers.\<close>

lemma kernel_data [frame_simps]:
  "data_buf (mutex_acquire p d) = data_buf d"
  "data_buf (mutex_unlock d) = data_buf d"
  "data_buf (add_wait_queue p d) = data_buf d"
  "data_buf (remove_wait_queue p d) = data_buf d"
  "data_buf (set_task_state p s d) = data_buf d"
  "data_buf (wake_up_interruptible d) = data_buf d"
  by (simp_all add: kernel_defs)

lemma kernel_num [frame_simps]:
  "current_buf_num (mutex_acquire p d) = current_buf_num d"
  "current_buf_num (mutex_unlock d) = current_buf_num d"
  "current_buf_num (add_wait_queue p d) = current_buf_num d"
  "current_buf_num (remove_wait_queue p d) = current_buf_num d"
  "current_buf_num (set_task_state p s d) = current_buf_num d"
  "current_buf_num (wake_up_interruptible d) = current_buf_num d"
  by (simp_all add: kernel_defs)

lemma kernel_inv [frame_simps]:
  "dev_inv (mutex_acquire p d) = dev_inv d"
  "dev_inv (mutex_unlock d) = dev_inv d"
  "dev_inv (add_wait_queue p d) = dev_inv d"
  "dev_inv (remove_wait_queue p d) = dev_inv d"
  "dev_inv (set_task_state p s d) = dev_inv d"
  "dev_inv (wake_up_interruptible d) = dev_inv d"
  by (simp_all add: kernel_defs dev_inv_def)

section \<open>The register map\<close>

text \<open>
  \<open>rtl/rxproc.v\<close> presents the byte address of an access to the register file with the
  two low bits cleared (\<open>assign ext_add = {addr[21:2], 2'b00}\<close>), and
  \<open>rtl/txproc.v\<close> compares that with one constant per register.
\<close>

definition rtl_ext_add :: "u32 \<Rightarrow> u32" where
  "rtl_ext_add a = a AND 0x3FFFFC"

datatype rtl_reg =
    Intreg | Headreg | Countreg | Cmdreg | Pctocard
  | Pos nat | Aux_back | Aux_ctl | Card_pos nat | Pos_ref nat | Card_pos_ref nat
  | Pos_real nat | Card_pos_real nat | Pos_break nat | Spd nat
  | Dcsreg | Mcmreg | Co nat | Jog_pos nat | Jog_neg nat | Szero_soft
  | M_cool | M_cw | M_atcw

definition rtl_decode :: "(u32 \<times> rtl_reg) list" where
  "rtl_decode =
     [(0x004, Intreg), (0x008, Headreg), (0x00C, Countreg), (0x010, Cmdreg),
      (0x014, Pctocard),
      (0x020, Pos 0), (0x024, Pos 1), (0x028, Pos 2), (0x02C, Pos 3),
      (0x0A8, Aux_back), (0x0AC, Aux_ctl),
      (0x0C0, Card_pos 0), (0x0C4, Card_pos 1), (0x0C8, Card_pos 2), (0x0CC, Card_pos 3),
      (0x030, Pos_ref 0), (0x034, Pos_ref 1), (0x038, Pos_ref 2), (0x03C, Pos_ref 3),
      (0x0E0, Card_pos_ref 0), (0x0E4, Card_pos_ref 1),
      (0x0E8, Card_pos_ref 2), (0x0EC, Card_pos_ref 3),
      (0x040, Pos_real 0), (0x044, Pos_real 1), (0x048, Pos_real 2), (0x04C, Pos_real 3),
      (0x100, Card_pos_real 0), (0x104, Card_pos_real 1),
      (0x108, Card_pos_real 2), (0x10C, Card_pos_real 3),
      (0x050, Pos_break 0), (0x054, Pos_break 1), (0x058, Pos_break 2), (0x05C, Pos_break 3),
      (0x0D0, Spd 0), (0x0D4, Spd 1), (0x0D8, Spd 2), (0x0DC, Spd 3),
      (0x018, Dcsreg), (0x01C, Mcmreg),
      (0x060, Co 1), (0x064, Co 2), (0x068, Co 3), (0x06C, Co 4),
      (0x070, Co 5), (0x074, Co 6), (0x078, Co 7), (0x07C, Co 8),
      (0x080, Jog_pos 0), (0x084, Jog_pos 1), (0x088, Jog_pos 2), (0x08C, Jog_pos 3),
      (0x090, Jog_neg 0), (0x094, Jog_neg 1), (0x098, Jog_neg 2), (0x09C, Jog_neg 3),
      (0x0A0, Szero_soft),
      (0x110, M_cool), (0x114, M_cw), (0x118, M_atcw)]"

text \<open>The register an access at byte address \<open>a\<close> of the window selects.\<close>

definition rtl_select :: "u32 \<Rightarrow> rtl_reg option" where
  "rtl_select a = map_of rtl_decode (rtl_ext_add a)"

text \<open>
  \<open>mem_addr\<close> is a \<open>void __iomem *\<close>, so \<open>mem_addr + off\<close> is \<open>off\<close> bytes into the window.
\<close>

definition drv_address :: "u32 \<Rightarrow> u32" where
  "drv_address off = off"

end
