(* ===== verification/Drv_Ioctl.thy ===== *)
theory Drv_Ioctl
  imports Drv_Dev
begin

text \<open>
  The ioctl commands of \<open>drv/inc/cncdrive_cmd.h\<close> and \<open>cnc_ioctl\<close> of
  \<open>drv/src/cnc_card.c\<close>: which registers each command writes, what is refused, and that
  no command reaches the interrupt or the data register.
\<close>

section \<open>Commands\<close>

datatype (plugins only:) cnc_cmd =
    AXIS1_ON | AXIS2_ON | AXIS3_ON | AXIS4_ON | AXIS5_ON | AXIS6_ON | AXIS7_ON | AXIS8_ON
  | AXIS1_OFF | AXIS2_OFF | AXIS3_OFF | AXIS4_OFF | AXIS5_OFF | AXIS6_OFF | AXIS7_OFF | AXIS8_OFF
  | XP_ON | XN_ON | YP_ON | YN_ON | ZP_ON | ZN_ON | AP_ON | AN_ON | BP_ON | BN_ON
  | XP_OFF | XN_OFF | YP_OFF | YN_OFF | ZP_OFF | ZN_OFF | AP_OFF | AN_OFF | BP_OFF | BN_OFF
  | RETURN0_OFF | RETURN0_ON | COOLANT_ON | COOLANT_OFF
  | SPINDLE_POS | SPINDLE_REV | SPINDLE_STOP
  | SET_ON | SET_OFF | MAG_ON | MAG_OFF | MAG_GO | MAG_BACK | LOOSE_ON | LOOSE_OFF | AUX_CLR
  | TOOL_1 | TOOL_2 | TOOL_3 | TOOL_4 | TOOL_5 | TOOL_6 | TOOL_7 | TOOL_8

definition TEST_MAGIC :: u8 where "TEST_MAGIC = 120"  \<comment> \<open>the character x\<close>
definition TEST_MAX_NR :: u32 where "TEST_MAX_NR = 60"

text \<open>The header numbers the commands from 1 in the order of the list.\<close>

definition header_cmds :: "cnc_cmd list" where
  "header_cmds =
    [AXIS1_ON, AXIS2_ON, AXIS3_ON, AXIS4_ON, AXIS5_ON, AXIS6_ON, AXIS7_ON, AXIS8_ON,
     AXIS1_OFF, AXIS2_OFF, AXIS3_OFF, AXIS4_OFF, AXIS5_OFF, AXIS6_OFF, AXIS7_OFF, AXIS8_OFF,
     XP_ON, XN_ON, YP_ON, YN_ON, ZP_ON, ZN_ON, AP_ON, AN_ON, BP_ON, BN_ON,
     XP_OFF, XN_OFF, YP_OFF, YN_OFF, ZP_OFF, ZN_OFF, AP_OFF, AN_OFF, BP_OFF, BN_OFF,
     RETURN0_OFF, RETURN0_ON, COOLANT_ON, COOLANT_OFF,
     SPINDLE_POS, SPINDLE_REV, SPINDLE_STOP,
     SET_ON, SET_OFF, MAG_ON, MAG_OFF, MAG_GO, MAG_BACK, LOOSE_ON, LOOSE_OFF, AUX_CLR,
     TOOL_1, TOOL_2, TOOL_3, TOOL_4, TOOL_5, TOOL_6, TOOL_7, TOOL_8]"

primrec position :: "'a \<Rightarrow> 'a list \<Rightarrow> nat" where
  "position x [] = 0"
| "position x (y # ys) = (if x = y then 0 else Suc (position x ys))"

definition cmd_nr :: "cnc_cmd \<Rightarrow> u8" where
  "cmd_nr c = of_nat (Suc (position c header_cmds))"

section \<open>The kernel's ioctl number macros\<close>

text \<open>
  \<open>_IO\<close>, \<open>_IOC_TYPE\<close> and \<open>_IOC_NR\<close> come from the kernel headers. They are a parameter;
  the interface says what the headers document: the type and the number can be read back
  from a command built by \<open>_IO\<close>.
\<close>

record ioctl_abi =
  IOC_IO :: "u8 \<Rightarrow> u8 \<Rightarrow> u32"
  IOC_TYPE :: "u32 \<Rightarrow> u32"
  IOC_NR :: "u32 \<Rightarrow> u32"

locale ioctl_numbers =
  fixes abi :: ioctl_abi
  assumes type_of_IO: "IOC_TYPE abi (IOC_IO abi t n) = ucast t"
    and nr_of_IO: "IOC_NR abi (IOC_IO abi t n) = ucast n"
begin

lemma IO_inject: "IOC_IO abi t n = IOC_IO abi t' n' \<longleftrightarrow> t = t' \<and> n = n'"
proof
  assume eq: "IOC_IO abi t n = IOC_IO abi t' n'"
  then have "(ucast t :: u32) = ucast t'" by (metis type_of_IO)
  moreover from eq have "(ucast n :: u32) = ucast n'" by (metis nr_of_IO)
  ultimately show "t = t' \<and> n = n'" by (simp add: ucast_u8_u32_inject)
qed simp

end

text \<open>The generic layout of \<open>asm-generic/ioctl.h\<close>: number in bits 0--7, type in 8--15.\<close>

definition asm_generic_abi :: ioctl_abi where
  "asm_generic_abi = \<lparr>IOC_IO = (\<lambda>t n. push_bit 8 (ucast t) OR ucast n),
     IOC_TYPE = (\<lambda>c. drop_bit 8 c AND 0xFF), IOC_NR = (\<lambda>c. c AND 0xFF)\<rparr>"

lemma mask_8_u32: "(0xFF :: u32) = mask 8"
  by (simp add: mask_eq_exp_minus_1)

interpretation asm_generic: ioctl_numbers asm_generic_abi
proof unfold_locales
  fix t n :: u8
  show "IOC_TYPE asm_generic_abi (IOC_IO asm_generic_abi t n) = ucast t"
    by (rule bit_word_eqI)
      (auto simp: asm_generic_abi_def mask_8_u32 bit_simps dest: bit_imp_le_length)
  show "IOC_NR asm_generic_abi (IOC_IO asm_generic_abi t n) = ucast n"
    by (rule bit_word_eqI)
      (auto simp: asm_generic_abi_def mask_8_u32 bit_simps dest: bit_imp_le_length)
qed

section \<open>The switch\<close>

text \<open>
  The writes (value, register) of each case, in the order of the code; \<open>None\<close> where the
  command has no case. \<open>ioctl_motion_case\<close> is the first part of the switch (axis enables
  and jogging), \<open>ioctl_aux_case\<close> the rest.
\<close>

definition ioctl_motion_case :: "cnc_cmd \<Rightarrow> (u32 \<times> u32) list option" where
  "ioctl_motion_case c = (case c of
      AXIS1_ON \<Rightarrow> Some [(1, 0x18)] | AXIS2_ON \<Rightarrow> Some [(1, 0x19)]
    | AXIS3_ON \<Rightarrow> Some [(1, 0x1A)] | AXIS4_ON \<Rightarrow> Some [(1, 0x1B)]
    | AXIS5_ON \<Rightarrow> Some [(1, 0x1C)] | AXIS6_ON \<Rightarrow> Some [(1, 0x1D)]
    | AXIS7_ON \<Rightarrow> Some [(1, 0x1E)] | AXIS8_ON \<Rightarrow> Some [(1, 0x1F)]
    | AXIS1_OFF \<Rightarrow> Some [(0, 0x18)] | AXIS2_OFF \<Rightarrow> Some [(0, 0x19)]
    | AXIS3_OFF \<Rightarrow> Some [(0, 0x1A)] | AXIS4_OFF \<Rightarrow> Some [(0, 0x1B)]
    | AXIS5_OFF \<Rightarrow> Some [(0, 0x1C)] | AXIS6_OFF \<Rightarrow> Some [(0, 0x1D)]
    | AXIS7_OFF \<Rightarrow> Some [(0, 0x1E)] | AXIS8_OFF \<Rightarrow> Some [(0, 0x1F)]
    | XP_ON \<Rightarrow> Some [(1, 0x20)] | XN_ON \<Rightarrow> Some [(1, 0x24)]
    | YP_ON \<Rightarrow> Some [(1, 0x21)] | YN_ON \<Rightarrow> Some [(1, 0x25)]
    | ZP_ON \<Rightarrow> Some [(1, 0x22)] | ZN_ON \<Rightarrow> Some [(1, 0x26)]
    | AP_ON \<Rightarrow> Some [(1, 0x23)] | AN_ON \<Rightarrow> Some [(1, 0x27)]
    | XP_OFF \<Rightarrow> Some [(0, 0x20)] | XN_OFF \<Rightarrow> Some [(0, 0x24)]
    | YP_OFF \<Rightarrow> Some [(0, 0x21)] | YN_OFF \<Rightarrow> Some [(0, 0x25)]
    | ZP_OFF \<Rightarrow> Some [(0, 0x22)] | ZN_OFF \<Rightarrow> Some [(0, 0x26)]
    | AP_OFF \<Rightarrow> Some [(0, 0x23)] | AN_OFF \<Rightarrow> Some [(0, 0x27)]
    | RETURN0_ON \<Rightarrow> Some [(1, 0x28)] | RETURN0_OFF \<Rightarrow> Some [(0, 0x28)]
    | _ \<Rightarrow> None)"

definition ioctl_aux_case :: "cnc_cmd \<Rightarrow> (u32 \<times> u32) list option" where
  "ioctl_aux_case c = (case c of
      COOLANT_ON \<Rightarrow> Some [(1, 0x44)] | COOLANT_OFF \<Rightarrow> Some [(0, 0x44)]
    | SPINDLE_POS \<Rightarrow> Some [(1, 0x45)] | SPINDLE_REV \<Rightarrow> Some [(1, 0x46)]
    | SPINDLE_STOP \<Rightarrow> Some [(0, 0x45), (0, 0x46)]
    | AUX_CLR \<Rightarrow> Some [(0x00, 0x2B)]
    | SET_ON \<Rightarrow> Some [(0x02, 0x2B)] | SET_OFF \<Rightarrow> Some [(0x03, 0x2B)]
    | MAG_ON \<Rightarrow> Some [(0x04, 0x2B)] | MAG_OFF \<Rightarrow> Some [(0x05, 0x2B)]
    | MAG_GO \<Rightarrow> Some [(0x06, 0x2B)] | MAG_BACK \<Rightarrow> Some [(0x07, 0x2B)]
    | LOOSE_ON \<Rightarrow> Some [(0x08, 0x2B)] | LOOSE_OFF \<Rightarrow> Some [(0x09, 0x2B)]
    | TOOL_1 \<Rightarrow> Some [(0x1A, 0x2B)] | TOOL_2 \<Rightarrow> Some [(0x2A, 0x2B)]
    | TOOL_3 \<Rightarrow> Some [(0x3A, 0x2B)] | TOOL_4 \<Rightarrow> Some [(0x4A, 0x2B)]
    | TOOL_5 \<Rightarrow> Some [(0x5A, 0x2B)] | TOOL_6 \<Rightarrow> Some [(0x6A, 0x2B)]
    | TOOL_7 \<Rightarrow> Some [(0x7A, 0x2B)] | TOOL_8 \<Rightarrow> Some [(0x8A, 0x2B)]
    | _ \<Rightarrow> None)"

definition switch_writes :: "cnc_cmd \<Rightarrow> (u32 \<times> u32) list option" where
  "switch_writes c =
     (case ioctl_motion_case c of Some ws \<Rightarrow> Some ws | None \<Rightarrow> ioctl_aux_case c)"

text \<open>The case labels: the commands of the header that the switch handles.\<close>

definition switch_labels :: "cnc_cmd list" where
  "switch_labels = filter (\<lambda>c. switch_writes c \<noteq> None) header_cmds"

primrec do_writes :: "(u32 \<times> u32) list \<Rightarrow> bus \<Rightarrow> bus" where
  "do_writes [] b = b"
| "do_writes (w # ws) b = do_writes ws (iowrite32 (fst w) (snd w) b)"

text \<open>
  \<open>cnc_ioctl\<close>, called by process \<open>p\<close> once the mutex is free. A \<open>switch\<close> on \<open>cmd\<close> takes the
  case whose label \<open>_IO (TEST_MAGIC, nr)\<close> equals it.
\<close>

definition cnc_ioctl ::
  "ioctl_abi \<Rightarrow> nat \<Rightarrow> u32 \<Rightarrow> cnc_dev \<Rightarrow> bus \<Rightarrow> (errno + int) \<times> cnc_dev \<times> bus" where
  "cnc_ioctl abi p cmd d b =
     (if IOC_TYPE abi cmd \<noteq> ucast TEST_MAGIC then (Inl EINVAL, d, b)
      else if IOC_NR abi cmd > TEST_MAX_NR then (Inl EINVAL, d, b)
      else
        (let d1 = mutex_acquire p d;
             (ret, b1) =
               (case find (\<lambda>c. IOC_IO abi TEST_MAGIC (cmd_nr c) = cmd) switch_labels of
                  Some c \<Rightarrow> (Inr 0, do_writes (the (switch_writes c)) b)
                | None \<Rightarrow> (Inl EINVAL, b))
         in (ret, mutex_unlock d1, b1)))"

section \<open>Numbers and labels\<close>

lemma header_all: "c \<in> set header_cmds"
  by (cases c) (simp_all add: header_cmds_def)

lemma length_header: "length header_cmds = 60"
  by (simp add: header_cmds_def)

lemma position_nth: "x \<in> set xs \<Longrightarrow> position x xs < length xs \<and> xs ! position x xs = x"
  by (induction xs) auto

lemma cmd_nr_unat: "unat (cmd_nr c) = Suc (position c header_cmds)"
proof -
  have "position c header_cmds < 60"
    using position_nth [OF header_all, of c] by (simp add: length_header)
  then show ?thesis by (simp add: cmd_nr_def unat_of_nat del: of_nat_Suc)
qed

lemma cmd_nr_inject: "cmd_nr c = cmd_nr c' \<longleftrightarrow> c = c'"
proof
  assume "cmd_nr c = cmd_nr c'"
  then have "position c header_cmds = position c' header_cmds"
    using cmd_nr_unat [of c] cmd_nr_unat [of c'] by simp
  then show "c = c'" by (metis position_nth header_all)
qed simp

lemma cmd_nr_range: "cmd_nr c \<le> 60"
  using cmd_nr_unat [of c] position_nth [OF header_all, of c]
  by (simp add: word_le_nat_alt length_header)

text \<open>The commands are ordered by their numbers.\<close>

instantiation cnc_cmd :: linorder
begin

definition less_eq_cnc_cmd :: "cnc_cmd \<Rightarrow> cnc_cmd \<Rightarrow> bool" where
  "less_eq_cnc_cmd c c' \<longleftrightarrow> cmd_nr c \<le> cmd_nr c'"

definition less_cnc_cmd :: "cnc_cmd \<Rightarrow> cnc_cmd \<Rightarrow> bool" where
  "less_cnc_cmd c c' \<longleftrightarrow> cmd_nr c < cmd_nr c'"

instance
  by standard
    (auto simp: less_eq_cnc_cmd_def less_cnc_cmd_def order.strict_iff_not cmd_nr_inject [symmetric])

end

lemma set_switch_labels: "c \<in> set switch_labels \<longleftrightarrow> switch_writes c \<noteq> None"
  by (simp add: switch_labels_def header_all)

lemma cmd_cases_labels: "switch_writes c \<noteq> None \<longleftrightarrow> c \<notin> {BP_ON, BN_ON, BP_OFF, BN_OFF}"
  by (cases c) (simp_all add: switch_writes_def ioctl_motion_case_def ioctl_aux_case_def)

lemma find_label:
  assumes "ioctl_numbers abi" and "switch_writes c \<noteq> None"
  shows "find (\<lambda>c'. IOC_IO abi TEST_MAGIC (cmd_nr c') = IOC_IO abi TEST_MAGIC (cmd_nr c)) switch_labels = Some c"
  using assms(2)
  by (intro find_unique)
    (auto simp: set_switch_labels ioctl_numbers.IO_inject [OF assms(1)] cmd_nr_inject)

lemma do_writes_log [io_simps]:
  "bus_log (do_writes ws b) = bus_log b @ map (\<lambda>(v, a). Wr a v) ws"
  by (induction ws arbitrary: b) (auto simp: io_simps split_beta)

section \<open>What cnc_ioctl does\<close>

lemma ioctl_accepted:
  assumes "ioctl_numbers abi" and "mutex d = None" and "switch_writes c = Some ws"
  shows "cnc_ioctl abi p (IOC_IO abi TEST_MAGIC (cmd_nr c)) d b = (Inr 0, d, do_writes ws b)"
proof -
  have "find (\<lambda>c'. IOC_IO abi TEST_MAGIC (cmd_nr c') = IOC_IO abi TEST_MAGIC (cmd_nr c)) switch_labels = Some c"
    using find_label [OF assms(1), of c] assms(3) by simp
  moreover have "ucast (cmd_nr c) \<le> TEST_MAX_NR"
    using cmd_nr_range [of c] by (simp add: TEST_MAX_NR_def word_le_nat_alt)
  ultimately show ?thesis
    using assms(2,3) by (simp add: cnc_ioctl_def ioctl_numbers.type_of_IO [OF assms(1)]
      ioctl_numbers.nr_of_IO [OF assms(1)] drv_simps)
qed

lemma ioctl_refused:
  assumes "\<And>c. switch_writes c \<noteq> None \<Longrightarrow> cmd \<noteq> IOC_IO abi TEST_MAGIC (cmd_nr c)" and "mutex d = None"
  shows "cnc_ioctl abi p cmd d b = (Inl EINVAL, d, b)"
proof -
  have "find (\<lambda>c. IOC_IO abi TEST_MAGIC (cmd_nr c) = cmd) switch_labels = None"
    using assms(1) by (auto simp: find_None_iff set_switch_labels)
  then show ?thesis using assms(2) by (simp add: cnc_ioctl_def drv_simps)
qed

lemma cnc_ioctl_cases:
  assumes "cnc_ioctl abi p cmd d b = (r, d', b')"
  obtains (refused) "r = Inl EINVAL" and "b' = b"
    | (accepted) c ws where "switch_writes c = Some ws" and "r = Inr 0" and "b' = do_writes ws b"
proof (cases "find (\<lambda>c. IOC_IO abi TEST_MAGIC (cmd_nr c) = cmd) switch_labels")
  case None
  with assms show ?thesis
    by (intro refused) (auto simp: cnc_ioctl_def split: if_splits)
next
  case (Some c)
  then obtain ws where "switch_writes c = Some ws"
    using find_in_set [OF Some] by (auto simp: set_switch_labels)
  with Some assms show ?thesis
    using refused accepted [of c ws] by (auto simp: cnc_ioctl_def split: if_splits)
qed

lemma cnc_ioctl_frame:
  assumes "cnc_ioctl abi p cmd d b = (r, d', b')"
  shows "data_buf d' = data_buf d \<and> current_buf_num d' = current_buf_num d \<and> dev_inv d' = dev_inv d"
  using assms by (auto simp: cnc_ioctl_def Let_def frame_simps split: if_splits option.splits)

text \<open>The registers the switch can write.\<close>

definition ioctl_regs :: "u32 set" where
  "ioctl_regs = {0x18, 0x19, 0x1A, 0x1B, 0x1C, 0x1D, 0x1E, 0x1F, 0x20, 0x21, 0x22, 0x23,
     0x24, 0x25, 0x26, 0x27, 0x28, 0x2B, 0x44, 0x45, 0x46}"

lemma switch_regs: "switch_writes c = Some ws \<Longrightarrow> snd ` set ws \<subseteq> ioctl_regs"
  by (cases c) (auto simp: switch_writes_def ioctl_motion_case_def ioctl_aux_case_def ioctl_regs_def)

lemma switch_effects_distinct: "distinct (map switch_writes switch_labels)"
  by (simp add: switch_labels_def header_cmds_def switch_writes_def ioctl_motion_case_def ioctl_aux_case_def)

lemmas switch_eval = switch_writes_def ioctl_motion_case_def ioctl_aux_case_def

lemma spindle_writes:
  "switch_writes SPINDLE_POS = Some [(1, 0x45)]"
  "switch_writes SPINDLE_REV = Some [(1, 0x46)]"
  "switch_writes SPINDLE_STOP = Some [(0, 0x45), (0, 0x46)]"
  by (simp_all add: switch_eval)



text \<open>
  Safety. Whatever the command, \<open>cnc_ioctl\<close> reads no register, never writes the
  interrupt control register nor the interpolation data register, writes nothing when it
  fails, and leaves the send buffer and its count alone.
\<close>
theorem cnc_ioctl_safe:
  assumes "cnc_ioctl abi p cmd d b = (r, d', b')"
  shows "\<exists>ws. bus_log b' = bus_log b @ map (\<lambda>(v, a). Wr a v) ws \<and>
    snd ` set ws \<inter> {INTCSR_V_MEM_ADDR, PCTOCARD_V_MEM_ADDR} = {} \<and>
    (r \<noteq> Inr 0 \<longrightarrow> ws = []) \<and> data_buf d' = data_buf d \<and> current_buf_num d' = current_buf_num d"
  using assms
proof (cases rule: cnc_ioctl_cases)
  case refused
  then show ?thesis using cnc_ioctl_frame [OF assms] by simp
next
  case (accepted c ws)
  have "{INTCSR_V_MEM_ADDR, PCTOCARD_V_MEM_ADDR} \<inter> ioctl_regs = {}"
    by (simp add: ioctl_regs_def INTCSR_V_MEM_ADDR_def PCTOCARD_V_MEM_ADDR_def)
  with accepted switch_regs cnc_ioctl_frame [OF assms] show ?thesis
    by (intro exI [of _ ws]) (auto simp: io_simps)
qed

theorem cnc_ioctl_safe_witness:
  "\<exists>ws. bus_log (do_writes [(0, 0x45), (0, 0x46)] idle_bus)
      = bus_log idle_bus @ map (\<lambda>(v, a). Wr a v) ws \<and>
    snd ` set ws \<inter> {INTCSR_V_MEM_ADDR, PCTOCARD_V_MEM_ADDR} = {}"
  using cnc_ioctl_safe [OF ioctl_accepted [OF asm_generic.ioctl_numbers_axioms _ spindle_writes(3),
    of dev_init 1 idle_bus]]
  by (auto simp: dev_init_def)

text \<open>
  No two commands of the switch have the same effect on the hardware, so no case is a
  copy of another one with its register or value left unchanged.
\<close>
theorem cnc_ioctl_effects_differ:
  assumes "switch_writes c = Some ws" and "switch_writes c' = Some ws"
  shows "c = c'"
proof -
  have "inj_on switch_writes (set switch_labels)"
    using switch_effects_distinct by (simp add: distinct_map)
  then show ?thesis using assms by (auto simp: inj_on_def set_switch_labels)
qed

theorem cnc_ioctl_effects_differ_witness: "switch_writes SPINDLE_REV \<noteq> switch_writes SPINDLE_POS"
  using cnc_ioctl_effects_differ [of SPINDLE_REV "[(1, 0x46)]" SPINDLE_POS] spindle_writes by auto

text \<open>
  Of the sixty commands the header declares, exactly the four jog commands of the B axis
  are refused: they are declared but have no case.
\<close>
theorem cnc_ioctl_unhandled:
  assumes "ioctl_numbers abi" and "mutex d = None"
  shows "cnc_ioctl abi p (IOC_IO abi TEST_MAGIC (cmd_nr c)) d b = (Inl EINVAL, d, b)
    \<longleftrightarrow> c \<in> {BP_ON, BN_ON, BP_OFF, BN_OFF}"
proof (cases "switch_writes c")
  case None
  then have "cnc_ioctl abi p (IOC_IO abi TEST_MAGIC (cmd_nr c)) d b = (Inl EINVAL, d, b)"
    using assms by (intro ioctl_refused) (auto simp: ioctl_numbers.IO_inject cmd_nr_inject)
  with None cmd_cases_labels [of c] show ?thesis by simp
next
  case (Some ws)
  then show ?thesis
    using ioctl_accepted [OF assms Some] cmd_cases_labels [of c] by simp
qed

theorem cnc_ioctl_unhandled_witness:
  "cnc_ioctl asm_generic_abi 1 (IOC_IO asm_generic_abi TEST_MAGIC (cmd_nr BP_ON)) dev_init idle_bus
    = (Inl EINVAL, dev_init, idle_bus)"
  using cnc_ioctl_unhandled [OF asm_generic.ioctl_numbers_axioms, of dev_init 1 BP_ON idle_bus]
  by (simp add: dev_init_def)

text \<open>
  The spindle: forward and reverse are two registers that the driver does not interlock.
  After \<open>SPINDLE_POS\<close> then \<open>SPINDLE_REV\<close> both hold 1; \<open>SPINDLE_STOP\<close> clears both.
\<close>
theorem cnc_ioctl_spindle:
  assumes "ioctl_numbers abi" and "mutex d = None"
    and "cnc_ioctl abi p (IOC_IO abi TEST_MAGIC (cmd_nr SPINDLE_POS)) d b = (r1, d1, b1)"
    and "cnc_ioctl abi p (IOC_IO abi TEST_MAGIC (cmd_nr SPINDLE_REV)) d1 b1 = (r2, d2, b2)"
    and "cnc_ioctl abi p (IOC_IO abi TEST_MAGIC (cmd_nr SPINDLE_STOP)) d2 b2 = (r3, d3, b3)"
  shows "r2 = Inr 0 \<and> last_written 0x45 (bus_log b2) = Some 1 \<and> last_written 0x46 (bus_log b2) = Some 1 \<and>
    r3 = Inr 0 \<and> last_written 0x45 (bus_log b3) = Some 0 \<and> last_written 0x46 (bus_log b3) = Some 0"
proof -
  note accepted = ioctl_accepted [OF assms(1,2)]
  from assms(3) accepted [OF spindle_writes(1)]
  have 1: "d1 = d" "b1 = do_writes [(1, 0x45)] b" by auto
  with assms(4) accepted [OF spindle_writes(2)]
  have 2: "d2 = d" "r2 = Inr 0" "b2 = do_writes [(1, 0x46)] b1" by auto
  with assms(5) accepted [OF spindle_writes(3)]
  have 3: "r3 = Inr 0" "b3 = do_writes [(0, 0x45), (0, 0x46)] b2" by auto
  from 1 2 3 show ?thesis by (simp add: io_simps)
qed

theorem cnc_ioctl_spindle_witness:
  "last_written 0x45 (bus_log (do_writes [(1, 0x46)] (do_writes [(1, 0x45)] idle_bus))) = Some 1"
proof -
  have free: "mutex dev_init = None" by (simp add: dev_init_def)
  note run = ioctl_accepted [OF asm_generic.ioctl_numbers_axioms free, where p = 1]
  show ?thesis
    using cnc_ioctl_spindle [OF asm_generic.ioctl_numbers_axioms free
      run [OF spindle_writes(1), of idle_bus] run [OF spindle_writes(2)] run [OF spindle_writes(3)]]
    by simp
qed

end
