(* ===== verification/Drv_Stream.thy ===== *)
theory Drv_Stream
  imports Drv_Ioctl
begin

text \<open>
  The data path of \<open>drv/src/cnc_card.c\<close>: \<open>pos_readfrom_card\<close>, \<open>cnc_read\<close>,
  \<open>cnc_write\<close>, \<open>data_send\<close>, \<open>cnc_interrupt\<close>, and the system they make together:
  any sequence of reads, writes, sleeps, wake-ups, interrupts and ioctls.
\<close>

section \<open>Reading the positions\<close>

definition pos_readfrom_card :: "cnc_dev \<Rightarrow> bus \<Rightarrow> cnc_dev \<times> bus" where
  "pos_readfrom_card dev b =
    (let (aux_data, b) = ioread32 0x2a b;
         (aux_ctl, b) = ioread32 0x2b b;
         (pos_x, b) = ioread32 0x08 b;
         (pos_y, b) = ioread32 0x09 b;
         (pos_z, b) = ioread32 0x0a b;
         (pos_a, b) = ioread32 0x0b b;
         (pos_x0, b) = ioread32 0x0c b;
         (pos_y0, b) = ioread32 0x0d b;
         (pos_z0, b) = ioread32 0x0e b;
         (pos_a0, b) = ioread32 0x0f b;
         (pos_x1, b) = ioread32 0x10 b;
         (pos_y1, b) = ioread32 0x11 b;
         (pos_z1, b) = ioread32 0x12 b;
         (pos_a1, b) = ioread32 0x13 b;
         (pos_x2, b) = ioread32 0x14 b;
         (pos_y2, b) = ioread32 0x15 b;
         (pos_z2, b) = ioread32 0x16 b;
         (pos_a2, b) = ioread32 0x17 b;
         (dcsr, b) = ioread32 0x06 b;
         (card_pos_x, b) = ioread32 0x30 b;
         (card_pos_y, b) = ioread32 0x31 b;
         (card_pos_z, b) = ioread32 0x32 b;
         (card_pos_a, b) = ioread32 0x33 b;
         (card_pos_x0, b) = ioread32 0x38 b;
         (card_pos_y0, b) = ioread32 0x39 b;
         (card_pos_z0, b) = ioread32 0x3a b;
         (card_pos_a0, b) = ioread32 0x3b b;
         (card_pos_x1, b) = ioread32 0x40 b;
         (card_pos_y1, b) = ioread32 0x41 b;
         (card_pos_z1, b) = ioread32 0x42 b;
         (card_pos_a1, b) = ioread32 0x43 b;
         (spd_x, b) = ioread32 0x34 b;
         (spd_y, b) = ioread32 0x35 b;
         (spd_z, b) = ioread32 0x36 b;
         (spd_a, b) = ioread32 0x37 b
     in (dev\<lparr>pos_data_buf :=
           [pos_x, pos_y, pos_z, pos_a,
            pos_x0, pos_y0, pos_z0, pos_a0,
            pos_x1, pos_y1, pos_z1, pos_a1,
            aux_data, aux_ctl, pos_z2, pos_a2,
            dcsr,
            spd_x, spd_y, spd_z, spd_a,
            card_pos_x, card_pos_y, card_pos_z, card_pos_a,
            card_pos_x0, card_pos_y0, card_pos_z0, card_pos_a0,
            card_pos_x1, card_pos_y1, card_pos_z1, card_pos_a1,
            aux_data],
          current_pos_buf_num := 34\<rparr>, b))"

text \<open>The order of the reads, and for each slot of the buffer the read it takes its value from.\<close>

definition pos_reg_order :: "u32 list" where
  "pos_reg_order =
    [0x2a, 0x2b, 0x08, 0x09, 0x0a, 0x0b, 0x0c, 0x0d, 0x0e, 0x0f, 0x10, 0x11, 0x12, 0x13,
     0x14, 0x15, 0x16, 0x17, 0x06, 0x30, 0x31, 0x32, 0x33, 0x38, 0x39, 0x3a, 0x3b,
     0x40, 0x41, 0x42, 0x43, 0x34, 0x35, 0x36, 0x37]"

definition pos_slot_read :: "nat list" where
  "pos_slot_read =
    [2, 3, 4, 5, 6, 7, 8, 9, 10, 11, 12, 13, 0, 1, 16, 17, 18, 31, 32, 33, 34,
     19, 20, 21, 22, 23, 24, 25, 26, 27, 28, 29, 30, 0]"

lemma pos_readfrom_card_eq:
  "pos_readfrom_card dev b =
    (dev\<lparr>pos_data_buf := map (\<lambda>i. fst (read_all pos_reg_order b) ! i) pos_slot_read,
         current_pos_buf_num := 34\<rparr>, snd (read_all pos_reg_order b))"
  by (simp add: pos_readfrom_card_def pos_reg_order_def pos_slot_read_def Let_def split_beta)

definition cnc_read ::
  "(u32 list \<Rightarrow> u64 \<Rightarrow> u64) \<Rightarrow> nat \<Rightarrow> u64 \<Rightarrow> cnc_dev \<Rightarrow> bus \<Rightarrow>
    (errno + int) \<times> u32 list \<times> cnc_dev \<times> bus" where
  "cnc_read copy_to_user p sz dev b =
    (let dev = mutex_acquire p dev;
         count = to_int32 (int (unat (sz div 4)));
         (dev, b) = pos_readfrom_card dev b;
         count = (if count > current_pos_buf_num dev then current_pos_buf_num dev else count);
         bytes = of_int count * 4 :: u64
     in if copy_to_user (pos_data_buf dev) bytes \<noteq> 0
        then (Inl EFAULT, [], mutex_unlock dev, b)
        else (Inr (to_int32 (int (unat bytes))), take (nat count) (pos_data_buf dev),
              mutex_unlock dev, b))"

section \<open>Writing interpolation data\<close>

text \<open>
  One call of \<open>cnc_write\<close>: the calling process, the words of the user's buffer, the
  \<open>size\<close> argument, the \<open>O_NONBLOCK\<close> flag, and what the kernel answers on its way: an error
  of the first or of the second \<open>mutex_lock_interruptible\<close>, a signal pending after
  \<open>schedule ()\<close>, and what \<open>copy_from_user\<close> leaves in the destination, with the number of
  bytes it did not copy.
\<close>

record write_req =
  pid :: nat
  user_words :: "u32 list"
  wsize :: u64
  nonblock :: bool
  lock_error :: "errno option"
  sig_pending :: bool
  relock_error :: "errno option"
  copy_from_user :: "u64 \<Rightarrow> u32 list \<times> u64"

text \<open>What the kernel documents of \<open>copy_from_user\<close>: it fills the destination, and when it
  reports that every byte was copied, with the user's bytes.\<close>

definition copy_from_user_spec :: "write_req \<Rightarrow> bool" where
  "copy_from_user_spec rq \<longleftrightarrow>
    (\<forall>n. unat n div 4 \<le> length (user_words rq) \<longrightarrow>
       length (fst (copy_from_user rq n)) = unat n div 4 \<and>
       (snd (copy_from_user rq n) = 0 \<longrightarrow>
          fst (copy_from_user rq n) = take (unat n div 4) (user_words rq)))"

text \<open>A request whose buffer holds \<open>size\<close> bytes; the VFS caps a write below 2 GiB.\<close>

definition request_ok :: "write_req \<Rightarrow> bool" where
  "request_ok rq \<longleftrightarrow> copy_from_user_spec rq \<and> unat (wsize rq) < 2 ^ 31 \<and>
     unat (wsize rq) div 4 \<le> length (user_words rq)"

datatype write_step = Returned "errno + int" | Sleeping

definition write_out2 :: "write_req \<Rightarrow> cnc_dev \<Rightarrow> cnc_dev" where
  "write_out2 rq dev = set_task_state (pid rq) TASK_RUNNING (remove_wait_queue (pid rq) dev)"

definition write_out :: "write_req \<Rightarrow> cnc_dev \<Rightarrow> cnc_dev" where
  "write_out rq dev = write_out2 rq (mutex_unlock dev)"

text \<open>From the computation of \<open>count\<close> to the copy.\<close>

definition write_fill :: "write_req \<Rightarrow> cnc_dev \<Rightarrow> (errno + int) \<times> cnc_dev" where
  "write_fill rq dev =
    (let count = to_int32 (int (unat (wsize rq div 4)));
         count = (if count > int BUF_SIZE - current_buf_num dev
                  then int BUF_SIZE - current_buf_num dev else count);
         bytes = of_int count * 4 :: u64;
         (copied, left) = copy_from_user rq bytes;
         dev = dev\<lparr>data_buf := blit (data_buf dev) (nat (current_buf_num dev)) copied\<rparr>
     in if left \<noteq> 0 then (Inl EFAULT, dev)
        else (Inr (to_int32 (int (unat bytes))),
              dev\<lparr>current_buf_num := current_buf_num dev + count\<rparr>))"

text \<open>\<open>cnc_write\<close> up to its return or to \<open>schedule ()\<close>, and from there on.\<close>

definition cnc_write_enter :: "write_req \<Rightarrow> cnc_dev \<Rightarrow> write_step \<times> cnc_dev" where
  "cnc_write_enter rq dev =
    (case lock_error rq of
       Some e \<Rightarrow> (Returned (Inl e), dev)
     | None \<Rightarrow>
        (let dev = add_wait_queue (pid rq) (mutex_acquire (pid rq) dev)
         in if current_buf_num dev = int BUF_SIZE then
              (if nonblock rq then (Returned (Inl EAGAIN), write_out rq dev)
               else (Sleeping, mutex_unlock (set_task_state (pid rq) TASK_INTERRUPTIBLE dev)))
            else
              (let (ret, dev) = write_fill rq dev in (Returned ret, write_out rq dev))))"

definition cnc_write_resume :: "write_req \<Rightarrow> cnc_dev \<Rightarrow> (errno + int) \<times> cnc_dev" where
  "cnc_write_resume rq dev =
    (if sig_pending rq then (Inl ERESTARTSYS, write_out2 rq dev)
     else
      (case relock_error rq of
         Some e \<Rightarrow> (Inl e, write_out2 rq dev)
       | None \<Rightarrow>
          (let (ret, dev) = write_fill rq (mutex_acquire (pid rq) dev)
           in (ret, write_out rq dev))))"

section \<open>The interrupt\<close>

text \<open>The loop writes \<open>data_buf[0]\<close> to \<open>data_buf[BUF_SIZE - 1]\<close>, the whole array.\<close>

definition data_send :: "cnc_dev \<Rightarrow> bus \<Rightarrow> cnc_dev \<times> bus" where
  "data_send dev b =
    (if current_buf_num dev = int BUF_SIZE then
       (let b = write_all PCTOCARD_V_MEM_ADDR (map (\<lambda>i. data_buf dev ! i) [0..<BUF_SIZE]) b;
            dev = dev\<lparr>current_buf_num := 0\<rparr>
        in (wake_up_interruptible dev, b))
     else (dev, b))"

datatype irqreturn = IRQ_NONE | IRQ_HANDLED

definition cnc_interrupt :: "cnc_dev \<Rightarrow> bus \<Rightarrow> irqreturn \<times> cnc_dev \<times> bus" where
  "cnc_interrupt dev b =
    (let (status, b) = ioread32 INTCSR_V_MEM_ADDR b
     in if status \<noteq> 3 then (IRQ_NONE, dev, b)
        else
          (let b = iowrite32 0 INTCSR_V_MEM_ADDR b;
               (dev, b) = data_send dev b;
               b = iowrite32 2 INTCSR_V_MEM_ADDR b
           in (IRQ_HANDLED, dev, b)))"

section \<open>Reads\<close>

lemma pos_readfrom_card_frame [frame_simps]:
  "data_buf (fst (pos_readfrom_card d b)) = data_buf d"
  "current_buf_num (fst (pos_readfrom_card d b)) = current_buf_num d"
  "mutex (fst (pos_readfrom_card d b)) = mutex d"
  "w_wait (fst (pos_readfrom_card d b)) = w_wait d"
  "tstate (fst (pos_readfrom_card d b)) = tstate d"
  "current_pos_buf_num (fst (pos_readfrom_card d b)) = 34"
  "length (pos_data_buf (fst (pos_readfrom_card d b))) = POS_SIZE"
  by (simp_all add: pos_readfrom_card_eq pos_slot_read_def POS_SIZE_def)

lemma pos_readfrom_card_log [io_simps]:
  "bus_log (snd (pos_readfrom_card d b))
    = bus_log b @ map2 Rd pos_reg_order (fst (read_all pos_reg_order b))"
  by (simp add: pos_readfrom_card_eq io_simps)

lemma pos_data_slot:
  assumes "i < 34"
  shows "pos_data_buf (fst (pos_readfrom_card d b)) ! i =
    answer b (length (bus_log b) + pos_slot_read ! i) (pos_reg_order ! (pos_slot_read ! i))"
proof -
  have len: "length pos_slot_read = 34" "length pos_reg_order = 35"
    by (simp_all add: pos_slot_read_def pos_reg_order_def)
  have "\<forall>k\<in>set pos_slot_read. k < 35"
    by (simp add: pos_slot_read_def)
  then have "pos_slot_read ! i < length pos_reg_order"
    using assms len by (metis nth_mem)
  then show ?thesis
    using assms len by (simp add: pos_readfrom_card_eq read_all_nth)
qed

lemma size_words:
  assumes "unat (sz :: u64) < 2 ^ 33"
  shows "to_int32 (int (unat (sz div 4))) = int (unat sz div 4)"
  using assms by (simp add: unat_div to_int32_id)

lemma size_words_uint:
  "unat (sz :: u64) < 2 ^ 33 \<Longrightarrow> to_int32 (uint (sz div 4)) = int (unat sz div 4)"
  using size_words [of sz] by simp

lemma bytes_of_count:
  assumes "0 \<le> c" and "c < 2 ^ 29"
  shows "unat (of_int c * 4 :: u64) = 4 * nat c" and "to_int32 (int (unat (of_int c * 4 :: u64))) = 4 * c"
proof -
  have "of_int c * 4 = (of_nat (4 * nat c) :: u64)" using assms(1) by (simp add: mult.commute)
  then show "unat (of_int c * 4 :: u64) = 4 * nat c"
    using assms by (simp add: unat_of_nat del: of_nat_mult)
  then show "to_int32 (int (unat (of_int c * 4 :: u64))) = 4 * c"
    using assms by (simp add: to_int32_id)
qed

lemma cnc_read_run:
  fixes b :: bus
  assumes "unat sz < 2 ^ 33" and "mutex d = None"
  defines "n \<equiv> min (unat sz div 4) 34" and "d1 \<equiv> fst (pos_readfrom_card d b)"
  shows "cnc_read cp p sz d b =
    (if cp (pos_data_buf d1) (of_nat (4 * n)) \<noteq> 0
     then (Inl EFAULT, [], d1, snd (pos_readfrom_card d b))
     else (Inr (4 * int n), take n (pos_data_buf d1), d1, snd (pos_readfrom_card d b)))"
proof -
  have count: "(if int (unat sz div 4) > 34 then 34 else int (unat sz div 4)) = int n"
    by (simp add: n_def min_def)
  have same: "mutex_unlock (fst (pos_readfrom_card (mutex_acquire p d) b)) = d1"
    "pos_data_buf (fst (pos_readfrom_card (mutex_acquire p d) b)) = pos_data_buf d1"
    "snd (pos_readfrom_card (mutex_acquire p d) b) = snd (pos_readfrom_card d b)"
    using assms(2) by (simp_all add: pos_readfrom_card_eq d1_def drv_simps)
  have n: "int n < 2 ^ 29" by (simp add: n_def)
  show ?thesis
    unfolding cnc_read_def Let_def split_beta size_words [OF assms(1)] frame_simps count same
    using bytes_of_count(2) [of "int n"] n by (simp add: mult.commute)
qed

section \<open>Writes\<close>

text \<open>The words a call has taken from the user: those its return value counts.\<close>

definition accepted :: "write_req \<Rightarrow> errno + int \<Rightarrow> u32 list" where
  "accepted rq r = (case r of Inl _ \<Rightarrow> [] | Inr m \<Rightarrow> take (nat (m div 4)) (user_words rq))"

lemma accepted_simps [simp]:
  "accepted rq (Inl e) = []"
  "accepted rq (Inr (4 * int n)) = take n (user_words rq)"
  by (simp_all add: accepted_def)

text \<open>The words waiting to be sent.\<close>

definition pending :: "cnc_dev \<Rightarrow> u32 list" where
  "pending d = take (nat (current_buf_num d)) (data_buf d)"

definition room :: "cnc_dev \<Rightarrow> nat" where
  "room d = BUF_SIZE - nat (current_buf_num d)"

lemma write_fill_run:
  assumes "dev_inv d" and "request_ok rq"
  defines "n \<equiv> min (unat (wsize rq) div 4) (room d)"
  shows "write_fill rq d =
    (let (copied, left) = copy_from_user rq (of_nat (4 * n));
         d' = d\<lparr>data_buf := blit (data_buf d) (nat (current_buf_num d)) copied\<rparr>
     in if left \<noteq> 0 then (Inl EFAULT, d')
        else (Inr (4 * int n), d'\<lparr>current_buf_num := current_buf_num d + int n\<rparr>))"
proof -
  have count: "(if int (unat (wsize rq) div 4) > int BUF_SIZE - current_buf_num d
      then int BUF_SIZE - current_buf_num d else int (unat (wsize rq) div 4)) = int n"
    using assms(1) by (auto simp: n_def min_def room_def dev_inv_def)
  have sz: "unat (wsize rq) < 2 ^ 33" using assms(2) by (simp add: request_ok_def)
  have n: "int n < 2 ^ 29" by (simp add: n_def room_def BUF_SIZE_def)
  show ?thesis
    unfolding write_fill_def Let_def size_words [OF sz] count
    using bytes_of_count(2) [of "int n"] n by (simp add: mult.commute split_beta)
qed

lemma write_fill_facts:
  assumes "dev_inv d" and "request_ok rq" and "write_fill rq d = (r, d')"
  shows "dev_inv d'" and "pending d' = pending d @ accepted rq r"
    and "mutex d' = mutex d" and "w_wait d' = w_wait d" and "tstate d' = tstate d"
    and "current_buf_num d \<le> current_buf_num d'"
    and "r = Inl EFAULT \<or> r = Inr (4 * int (min (unat (wsize rq) div 4) (room d)))"
proof -
  define n where "n = min (unat (wsize rq) div 4) (room d)"
  obtain copied left where cp: "copy_from_user rq (of_nat (4 * n)) = (copied, left)" by fastforce
  have n: "unat (of_nat (4 * n) :: u64) = 4 * n"
    by (simp add: n_def room_def BUF_SIZE_def unat_of_nat min_def del: of_nat_mult)
  have le: "n \<le> length (user_words rq)" using assms(2) by (simp add: n_def request_ok_def min.coboundedI1)
  have len: "length copied = n" and words: "left = 0 \<Longrightarrow> copied = take n (user_words rq)"
    using assms(2) n le cp unfolding request_ok_def copy_from_user_spec_def by (metis fst_conv snd_conv
      nonzero_mult_div_cancel_left zero_neq_numeral)+
  have inv: "length (data_buf d) = BUF_SIZE" "0 \<le> current_buf_num d" "nat (current_buf_num d) + n \<le> BUF_SIZE"
    "length (pos_data_buf d) = POS_SIZE"
    using assms(1) by (auto simp: dev_inv_def n_def room_def)
  have run: "(r, d') = (if left \<noteq> 0
      then (Inl EFAULT, d\<lparr>data_buf := blit (data_buf d) (nat (current_buf_num d)) copied\<rparr>)
      else (Inr (4 * int n), d\<lparr>data_buf := blit (data_buf d) (nat (current_buf_num d)) copied,
        current_buf_num := current_buf_num d + int n\<rparr>))"
    using write_fill_run [OF assms(1,2)] assms(3) cp by (simp add: n_def Let_def)
  have t: "take (nat (current_buf_num d) + n) (blit (data_buf d) (nat (current_buf_num d)) copied)
      = take (nat (current_buf_num d)) (data_buf d) @ copied"
    using take_blit [of "nat (current_buf_num d)" "data_buf d" copied] inv len by simp
  have pre: "take (nat (current_buf_num d)) (blit (data_buf d) (nat (current_buf_num d)) copied)
      = take (nat (current_buf_num d)) (data_buf d)"
    using inv by (intro take_blit_prefix) simp
  show "dev_inv d'" using run inv len by (auto simp: dev_inv_def split: if_splits)
  show "pending d' = pending d @ accepted rq r"
    using run t pre inv words by (auto simp: pending_def nat_add_distrib split: if_splits)
  show "mutex d' = mutex d" "w_wait d' = w_wait d" "tstate d' = tstate d"
    "current_buf_num d \<le> current_buf_num d'"
    "r = Inl EFAULT \<or> r = Inr (4 * int (min (unat (wsize rq) div 4) (room d)))"
    using run by (auto simp: n_def split: if_splits)
qed

text \<open>What the exit code does to the lock, the wait queue and the task.\<close>

lemma write_out_fields [frame_simps]:
  "mutex (write_out rq d) = None" "mutex (write_out2 rq d) = mutex d"
  "set (w_wait (write_out rq d)) = set (w_wait d) - {pid rq}"
  "set (w_wait (write_out2 rq d)) = set (w_wait d) - {pid rq}"
  "tstate (write_out rq d) = (tstate d)(pid rq := TASK_RUNNING)"
  "tstate (write_out2 rq d) = (tstate d)(pid rq := TASK_RUNNING)"
  "pending (write_out rq d) = pending d" "pending (write_out2 rq d) = pending d"
  "dev_inv (write_out rq d) = dev_inv d" "dev_inv (write_out2 rq d) = dev_inv d"
  "current_buf_num (write_out rq d) = current_buf_num d"
  "current_buf_num (write_out2 rq d) = current_buf_num d"
  by (auto simp: write_out_def write_out2_def kernel_defs pending_def dev_inv_def)

lemma kernel_pending [frame_simps]:
  "pending (mutex_acquire p d) = pending d"
  "pending (mutex_unlock d) = pending d"
  "pending (add_wait_queue p d) = pending d"
  "pending (set_task_state p s d) = pending d"
  "pending (wake_up_interruptible d) = pending d"
  by (simp_all add: pending_def kernel_defs)

lemma room_kernel [frame_simps]:
  "room (mutex_acquire p d) = room d" "room (add_wait_queue p d) = room d"
  by (simp_all add: room_def kernel_defs)

text \<open>
  The contract of a completed call: the invariant, the accepted words appended to the
  pending ones, the mutex free, the caller off the wait queue and running.
\<close>

definition write_done :: "write_req \<Rightarrow> errno + int \<Rightarrow> cnc_dev \<Rightarrow> cnc_dev \<Rightarrow> bool" where
  "write_done rq r d d' \<longleftrightarrow>
     dev_inv d' \<and> pending d' = pending d @ accepted rq r \<and> mutex d' = None \<and>
     set (w_wait d') = set (w_wait d) - {pid rq} \<and>
     tstate d' = (tstate d)(pid rq := TASK_RUNNING) \<and> current_buf_num d \<le> current_buf_num d'"

lemma fill_out_done:
  assumes "dev_inv d" and "request_ok rq"
    and "d1 = add_wait_queue (pid rq) (mutex_acquire (pid rq) d) \<or> d1 = mutex_acquire (pid rq) d"
    and "write_fill rq d1 = (r, d2)"
  shows "write_done rq r d (write_out rq d2)"
proof -
  have d1: "dev_inv d1" "pending d1 = pending d" "tstate d1 = tstate d"
    "set (w_wait d1) - {pid rq} = set (w_wait d) - {pid rq}" "current_buf_num d1 = current_buf_num d"
    using assms(1,3) by (auto simp: frame_simps) (auto simp: kernel_defs)
  then show ?thesis
    using write_fill_facts [OF d1(1) assms(2,4)] by (simp add: write_done_def frame_simps)
qed

lemma enter_returned:
  assumes "dev_inv d" and "request_ok rq" and "mutex d = None"
    and "cnc_write_enter rq d = (Returned r, d')"
  shows "(\<exists>e. lock_error rq = Some e \<and> r = Inl e \<and> d' = d) \<or> write_done rq r d d'"
proof (cases "lock_error rq")
  case None
  show ?thesis
  proof (cases "current_buf_num d = int BUF_SIZE")
    case True
    with None assms show ?thesis
      by (auto simp: cnc_write_enter_def write_done_def frame_simps Let_def split: if_splits)
        (auto simp: kernel_defs)
  next
    case False
    with None assms show ?thesis
      by (auto simp: cnc_write_enter_def frame_simps Let_def split: prod.splits
        intro!: fill_out_done [OF assms(1,2) disjI1 [OF refl]])
  qed
qed (use assms(4) in \<open>auto simp: cnc_write_enter_def\<close>)

lemma enter_sleeping:
  assumes "cnc_write_enter rq d = (Sleeping, d')"
  shows "current_buf_num d = int BUF_SIZE" and "nonblock rq = False" and "lock_error rq = None"
    and "d' = mutex_unlock (set_task_state (pid rq) TASK_INTERRUPTIBLE
      (add_wait_queue (pid rq) (mutex_acquire (pid rq) d)))"
  using assms
  by (auto simp: cnc_write_enter_def frame_simps Let_def split: option.splits if_splits prod.splits)

lemma resume_done:
  assumes "dev_inv d" and "request_ok rq" and "mutex d = None"
    and "cnc_write_resume rq d = (r, d')"
  shows "write_done rq r d d'"
proof (cases "sig_pending rq \<or> relock_error rq \<noteq> None")
  case True
  with assms show ?thesis
    by (auto simp: cnc_write_resume_def write_done_def frame_simps split: if_splits option.splits)
next
  case False
  with assms(4) show ?thesis
    by (auto simp: cnc_write_resume_def Let_def split: prod.splits
        intro!: fill_out_done [OF assms(1,2) disjI2 [OF refl]])
qed

section \<open>The interrupt handler\<close>

lemma data_send_idle: "current_buf_num d \<noteq> int BUF_SIZE \<Longrightarrow> data_send d b = (d, b)"
  by (simp add: data_send_def)

lemma data_send_full:
  assumes "dev_inv d" and "current_buf_num d = int BUF_SIZE"
  shows "data_send d b =
    (wake_up_interruptible (d\<lparr>current_buf_num := 0\<rparr>), write_all PCTOCARD_V_MEM_ADDR (data_buf d) b)"
proof -
  have "map (\<lambda>i. data_buf d ! i) [0..<BUF_SIZE] = data_buf d"
    using assms(1) map_nth [of "data_buf d"] by (simp add: dev_inv_def)
  then show ?thesis using assms(2) by (simp add: data_send_def Let_def)
qed

lemma pending_full:
  assumes "dev_inv d" and "current_buf_num d = int BUF_SIZE"
  shows "pending d = data_buf d"
  using assms by (simp add: pending_def dev_inv_def)

lemma interrupt_none:
  assumes "answer b (length (bus_log b)) INTCSR_V_MEM_ADDR \<noteq> 3"
  shows "cnc_interrupt d b = (IRQ_NONE, d, snd (ioread32 INTCSR_V_MEM_ADDR b))"
  using assms by (simp add: cnc_interrupt_def split_beta ioread32_value)

lemma interrupt_handled:
  assumes "dev_inv d" and "answer b (length (bus_log b)) INTCSR_V_MEM_ADDR = 3"
    and "cnc_interrupt d b = (r, d', b')"
  defines "sent \<equiv> (if current_buf_num d = int BUF_SIZE then data_buf d else [])"
  shows "r = IRQ_HANDLED"
    and "d' = (if current_buf_num d = int BUF_SIZE
      then wake_up_interruptible (d\<lparr>current_buf_num := 0\<rparr>) else d)"
    and "bus_log b' = bus_log b @ [Rd INTCSR_V_MEM_ADDR 3, Wr INTCSR_V_MEM_ADDR 0] @
      map (Wr PCTOCARD_V_MEM_ADDR) sent @ [Wr INTCSR_V_MEM_ADDR 2]"
  using assms(3) ioread32_value [of INTCSR_V_MEM_ADDR b] assms(2)
  by (auto simp: cnc_interrupt_def split_beta sent_def io_simps Let_def
      data_send_full [OF assms(1)] data_send_idle split: if_splits)

section \<open>The driver as a system\<close>

text \<open>
  Calls and interrupts in any order. A step is one uninterrupted stretch of driver code: a
  whole call, the part of a write before it sleeps, or the part after it wakes up. The mutex
  makes the stretches of calls exclude each other; the interrupt handler does not take the
  mutex, and what happens when it runs inside a write is the subject of another theory.
  \<open>asleep\<close> are the writes inside \<open>schedule ()\<close>. \<open>taken\<close> records, for the
  statements, the words the driver accepted from its callers.
\<close>

record sys =
  sdev :: cnc_dev
  sbus :: bus
  asleep :: "write_req list"
  taken :: "u32 list"

inductive drv_step :: "sys \<Rightarrow> sys \<Rightarrow> bool" where
  step_write:
    "request_ok rq \<Longrightarrow> pid rq \<notin> pid ` set (asleep s) \<Longrightarrow> mutex (sdev s) = None \<Longrightarrow>
     cnc_write_enter rq (sdev s) = (Returned r, d') \<Longrightarrow>
     drv_step s (s\<lparr>sdev := d', taken := taken s @ accepted rq r\<rparr>)"
| step_sleep:
    "request_ok rq \<Longrightarrow> pid rq \<notin> pid ` set (asleep s) \<Longrightarrow> mutex (sdev s) = None \<Longrightarrow>
     cnc_write_enter rq (sdev s) = (Sleeping, d') \<Longrightarrow>
     drv_step s (s\<lparr>sdev := d', asleep := rq # asleep s\<rparr>)"
| step_wake:
    "rq \<in> set (asleep s) \<Longrightarrow> tstate (sdev s) (pid rq) = TASK_RUNNING \<or> sig_pending rq \<Longrightarrow>
     mutex (sdev s) = None \<Longrightarrow> cnc_write_resume rq (sdev s) = (r, d') \<Longrightarrow>
     drv_step s (s\<lparr>sdev := d', asleep := filter (\<lambda>q. pid q \<noteq> pid rq) (asleep s),
       taken := taken s @ accepted rq r\<rparr>)"
| step_irq:
    "cnc_interrupt (sdev s) (sbus s) = (r, d', b') \<Longrightarrow> drv_step s (s\<lparr>sdev := d', sbus := b'\<rparr>)"
| step_read:
    "p \<notin> pid ` set (asleep s) \<Longrightarrow> mutex (sdev s) = None \<Longrightarrow> unat sz < 2 ^ 31 \<Longrightarrow>
     cnc_read copy_to_user p sz (sdev s) (sbus s) = (r, ws, d', b') \<Longrightarrow>
     drv_step s (s\<lparr>sdev := d', sbus := b'\<rparr>)"
| step_ioctl:
    "p \<notin> pid ` set (asleep s) \<Longrightarrow> mutex (sdev s) = None \<Longrightarrow>
     cnc_ioctl abi p cmd (sdev s) (sbus s) = (r, d', b') \<Longrightarrow>
     drv_step s (s\<lparr>sdev := d', sbus := b'\<rparr>)"

inductive_cases drv_stepE: "drv_step s s'"

text \<open>The system when \<open>cnc_probe\<close> has succeeded, on a bus with any history.\<close>

definition sys_init :: "bus \<Rightarrow> sys" where
  "sys_init b = \<lparr>sdev = dev_init, sbus = b, asleep = [], taken = []\<rparr>"

text \<open>Locks and queues between two steps.\<close>

definition queue_inv :: "sys \<Rightarrow> bool" where
  "queue_inv s \<longleftrightarrow>
     dev_inv (sdev s) \<and> mutex (sdev s) = None \<and> distinct (map pid (asleep s)) \<and>
     (\<forall>rq\<in>set (asleep s). request_ok rq) \<and>
     set (w_wait (sdev s)) = pid ` set (asleep s) \<and>
     (\<forall>p. tstate (sdev s) p = TASK_INTERRUPTIBLE \<longrightarrow>
        p \<in> pid ` set (asleep s) \<and> current_buf_num (sdev s) = int BUF_SIZE)"

text \<open>The stream: what was sent, then what is pending, is what was accepted.\<close>

definition sent :: "bus \<Rightarrow> bus \<Rightarrow> u32 list" where
  "sent b0 b = drop (length (writes_to PCTOCARD_V_MEM_ADDR (bus_log b0)))
     (writes_to PCTOCARD_V_MEM_ADDR (bus_log b))"

definition stream_inv :: "bus \<Rightarrow> sys \<Rightarrow> bool" where
  "stream_inv b0 s \<longleftrightarrow>
     (\<exists>ws. writes_to PCTOCARD_V_MEM_ADDR (bus_log (sbus s))
             = writes_to PCTOCARD_V_MEM_ADDR (bus_log b0) @ ws \<and>
           BUF_SIZE dvd length ws \<and> ws @ pending (sdev s) = taken s)"

lemma queue_inv_init: "queue_inv (sys_init b)"
  by (simp add: queue_inv_def sys_init_def dev_inv_init) (simp add: dev_init_def)

lemma stream_inv_init: "stream_inv b (sys_init b)"
  by (simp add: stream_inv_def sys_init_def pending_def dev_init_def)

lemma cnc_read_effect:
  assumes "cnc_read cp p sz d b = (r, ws, d', b')" and "unat sz < 2 ^ 31" and "mutex d = None"
  shows "d' = fst (pos_readfrom_card d b)" and "b' = snd (pos_readfrom_card d b)"
  using assms(1) cnc_read_run [of sz d cp p b] assms(2,3)
  by (auto split: if_splits dest: arg_cong [where f = fst] arg_cong [where f = snd])

lemma cnc_ioctl_effect:
  assumes "cnc_ioctl abi p cmd d b = (r, d', b')" and "mutex d = None"
  shows "d' = d" and "writes_to PCTOCARD_V_MEM_ADDR (bus_log b') = writes_to PCTOCARD_V_MEM_ADDR (bus_log b)"
proof -
  show "d' = d"
    using assms by (auto simp: cnc_ioctl_def Let_def kernel_defs split: if_splits option.splits)
  have other: "writes_to a (map (\<lambda>(v, r). Wr r v) ws) = []" if "a \<notin> snd ` set ws" for a ws
    using that by (induction ws) auto
  show "writes_to PCTOCARD_V_MEM_ADDR (bus_log b') = writes_to PCTOCARD_V_MEM_ADDR (bus_log b)"
    using assms(1)
  proof (cases rule: cnc_ioctl_cases)
    case (accepted c ws)
    have "PCTOCARD_V_MEM_ADDR \<notin> ioctl_regs" by (simp add: ioctl_regs_def PCTOCARD_V_MEM_ADDR_def)
    with accepted switch_regs [OF accepted(1)] show ?thesis
      by (auto simp: io_simps intro!: other)
  qed simp
qed

lemma dev_inv_posread: "dev_inv d \<Longrightarrow> dev_inv (fst (pos_readfrom_card d b))"
  by (simp add: dev_inv_def frame_simps)

lemma irq_effect:
  assumes "dev_inv d" and "cnc_interrupt d b = (r, d', b')"
  shows "(d' = d \<and> writes_to PCTOCARD_V_MEM_ADDR (bus_log b') = writes_to PCTOCARD_V_MEM_ADDR (bus_log b)) \<or>
    (current_buf_num d = int BUF_SIZE \<and> d' = wake_up_interruptible (d\<lparr>current_buf_num := 0\<rparr>) \<and>
     writes_to PCTOCARD_V_MEM_ADDR (bus_log b') = writes_to PCTOCARD_V_MEM_ADDR (bus_log b) @ data_buf d)"
proof (cases "answer b (length (bus_log b)) INTCSR_V_MEM_ADDR = 3")
  case True
  have "INTCSR_V_MEM_ADDR \<noteq> PCTOCARD_V_MEM_ADDR"
    by (simp add: INTCSR_V_MEM_ADDR_def PCTOCARD_V_MEM_ADDR_def)
  with interrupt_handled [OF assms(1) True assms(2)] show ?thesis by auto
next
  case False
  with assms(2) show ?thesis by (auto simp: interrupt_none io_simps)
qed

lemma irq_dev_inv: "dev_inv d \<Longrightarrow> dev_inv (wake_up_interruptible (d\<lparr>current_buf_num := 0\<rparr>))"
  by (simp add: dev_inv_def kernel_defs)

lemma num_bound: "dev_inv d \<Longrightarrow> current_buf_num d \<le> int BUF_SIZE"
  by (simp add: dev_inv_def)

lemma queue_inv_step:
  assumes "drv_step s s'" and "queue_inv s"
  shows "queue_inv s'"
  using assms(1)
proof cases
  case (step_write rq r d')
  have inv: "dev_inv (sdev s)" using assms(2) by (simp add: queue_inv_def)
  from enter_returned [OF inv step_write(2,4,5)] show ?thesis
  proof
    assume "write_done rq r (sdev s) d'"
    then show ?thesis
      using assms(2) step_write num_bound [of d']
      by (auto simp: queue_inv_def write_done_def)
  qed (use step_write assms(2) in \<open>auto simp: queue_inv_def\<close>)
next
  case (step_sleep rq d')
  then show ?thesis
    using assms(2) enter_sleeping [OF step_sleep(5)]
    by (auto simp: queue_inv_def frame_simps) (auto simp: kernel_defs)
next
  case (step_wake rq r d')
  have inv: "dev_inv (sdev s)" "request_ok rq" using assms(2) step_wake(2) by (auto simp: queue_inv_def)
  from resume_done [OF inv step_wake(4,5)] show ?thesis
    using assms(2) step_wake(1) num_bound [of d']
    by (auto simp: queue_inv_def write_done_def distinct_map_filter split: if_splits)
next
  case (step_irq r d' b')
  have inv: "dev_inv (sdev s)" using assms(2) by (simp add: queue_inv_def)
  from irq_effect [OF inv step_irq(2)] show ?thesis
  proof
    assume "current_buf_num (sdev s) = int BUF_SIZE \<and>
      d' = wake_up_interruptible ((sdev s)\<lparr>current_buf_num := 0\<rparr>) \<and>
      writes_to PCTOCARD_V_MEM_ADDR (bus_log b') = writes_to PCTOCARD_V_MEM_ADDR (bus_log (sbus s)) @ data_buf (sdev s)"
    then show ?thesis
      using assms(2) step_irq(1) irq_dev_inv [OF inv]
      by (auto simp: queue_inv_def) (auto simp: kernel_defs split: if_splits)
  qed (use step_irq assms(2) in \<open>auto simp: queue_inv_def\<close>)
next
  case (step_read p sz copy_to_user r ws d' b')
  then show ?thesis
    using assms(2) cnc_read_effect [OF step_read(5,4,3)] by (auto simp: queue_inv_def dev_inv_posread frame_simps)
next
  case (step_ioctl p abi cmd r d' b')
  then show ?thesis
    using assms(2) cnc_ioctl_effect [OF step_ioctl(4,3)] by (auto simp: queue_inv_def)
qed

lemma pending_posread [frame_simps]: "pending (fst (pos_readfrom_card d b)) = pending d"
  by (simp add: pending_def frame_simps)

lemma posread_no_data:
  "writes_to a (bus_log (snd (pos_readfrom_card d b))) = writes_to a (bus_log b)"
  by (simp add: io_simps)

lemma stream_inv_step:
  assumes "drv_step s s'" and "queue_inv s" and "stream_inv b0 s"
  shows "stream_inv b0 s'"
  using assms(1)
proof cases
  case (step_write rq r d')
  have inv: "dev_inv (sdev s)" using assms(2) by (simp add: queue_inv_def)
  from enter_returned [OF inv step_write(2,4,5)] have "pending d' = pending (sdev s) @ accepted rq r"
    by (auto simp: write_done_def)
  with assms(3) step_write(1) show ?thesis by (auto simp: stream_inv_def)
next
  case (step_sleep rq d')
  then show ?thesis using assms(3) enter_sleeping(4) [OF step_sleep(5)]
    by (auto simp: stream_inv_def frame_simps)
next
  case (step_wake rq r d')
  have inv: "dev_inv (sdev s)" "request_ok rq" using assms(2) step_wake(2) by (auto simp: queue_inv_def)
  from resume_done [OF inv step_wake(4,5)] have "pending d' = pending (sdev s) @ accepted rq r"
    by (auto simp: write_done_def)
  with assms(3) step_wake(1) show ?thesis by (auto simp: stream_inv_def)
next
  case (step_irq r d' b')
  have inv: "dev_inv (sdev s)" using assms(2) by (simp add: queue_inv_def)
  have len: "length (data_buf (sdev s)) = BUF_SIZE" using inv by (simp add: dev_inv_def)
  have p0: "pending (wake_up_interruptible (d\<lparr>current_buf_num := 0\<rparr>)) = []" for d
    by (simp add: pending_def kernel_defs)
  have dvd: "BUF_SIZE dvd length ts" if "ws @ data_buf (sdev s) = ts" and "BUF_SIZE dvd length ws" for ws ts
    using that len by auto
  from irq_effect [OF inv step_irq(2)] show ?thesis
    using assms(3) step_irq(1) pending_full [OF inv] p0 by (auto simp: stream_inv_def intro: dvd)
next
  case (step_read p sz copy_to_user r ws d' b')
  then show ?thesis
    using assms(3) cnc_read_effect [OF step_read(5,4,3)]
    by (auto simp: stream_inv_def pending_posread posread_no_data)
next
  case (step_ioctl p abi cmd r d' b')
  then show ?thesis
    using assms(3) cnc_ioctl_effect [OF step_ioctl(4,3)] by (auto simp: stream_inv_def)
qed

lemma reachable_inv:
  assumes "drv_step\<^sup>*\<^sup>* (sys_init b0) s"
  shows "queue_inv s \<and> stream_inv b0 s"
  using assms
proof (induction rule: rtranclp_induct)
  case base
  then show ?case by (simp add: queue_inv_init stream_inv_init)
next
  case (step s s')
  then show ?case using queue_inv_step stream_inv_step by blast
qed

section \<open>Sample requests\<close>

definition copy_all :: "u32 list \<Rightarrow> u64 \<Rightarrow> u32 list \<times> u64" where
  "copy_all ws n = (take (unat n div 4) ws, 0)"

definition sample_write :: "nat \<Rightarrow> u32 list \<Rightarrow> write_req" where
  "sample_write p ws = \<lparr>pid = p, user_words = ws, wsize = of_nat (4 * length ws), nonblock = False,
     lock_error = None, sig_pending = False, relock_error = None, copy_from_user = copy_all ws\<rparr>"

lemma sample_write_fields [simp]:
  "pid (sample_write p ws) = p" "user_words (sample_write p ws) = ws"
  "nonblock (sample_write p ws) = False" "lock_error (sample_write p ws) = None"
  "sig_pending (sample_write p ws) = False" "relock_error (sample_write p ws) = None"
  "copy_from_user (sample_write p ws) = copy_all ws"
  by (simp_all add: sample_write_def)

lemma sample_write_ok: "length ws < 2 ^ 29 \<Longrightarrow> request_ok (sample_write p ws)"
  by (auto simp: request_ok_def copy_from_user_spec_def copy_all_def sample_write_def unat_of_nat
      simp del: of_nat_mult)

lemma sample_write_size: "length ws < 2 ^ 29 \<Longrightarrow> unat (wsize (sample_write p ws)) div 4 = length ws"
  by (simp add: sample_write_def unat_of_nat del: of_nat_mult)

lemma enter_not_full:
  assumes "lock_error rq = None" and "current_buf_num d \<noteq> int BUF_SIZE"
  shows "cnc_write_enter rq d =
    (let (r, d2) = write_fill rq (add_wait_queue (pid rq) (mutex_acquire (pid rq) d))
     in (Returned r, write_out rq d2))"
  using assms by (simp add: cnc_write_enter_def frame_simps Let_def)

lemma sample_fill:
  assumes "dev_inv d" and "length ws \<le> room d"
  shows "fst (write_fill (sample_write p ws) d) = Inr (4 * int (length ws))"
proof -
  have "length ws < 2 ^ 29" using assms(2) by (simp add: room_def BUF_SIZE_def)
  then show ?thesis
    using write_fill_run [OF assms(1) sample_write_ok, of ws p] assms(2)
    by (simp add: sample_write_size copy_all_def Let_def)
qed

text \<open>One accepted write from the initial state.\<close>

lemma sample_run:
  assumes "length ws < 1000"
  shows "\<exists>s. drv_step\<^sup>*\<^sup>* (sys_init b0) s \<and> taken s = ws \<and> bus_log (sbus s) = bus_log b0"
proof -
  let ?rq = "sample_write 1 ws"
  let ?d1 = "add_wait_queue 1 (mutex_acquire 1 dev_init)"
  have ok: "request_ok ?rq" using assms by (intro sample_write_ok) simp
  have d1: "dev_inv ?d1" "length ws \<le> room ?d1"
    using assms by (simp_all add: frame_simps dev_inv_init)
      (simp add: room_def dev_init_def BUF_SIZE_def)
  obtain d2 where fill: "write_fill ?rq ?d1 = (Inr (4 * int (length ws)), d2)"
    using sample_fill [OF d1] by (metis prod.collapse)
  have "cnc_write_enter ?rq dev_init = (Returned (Inr (4 * int (length ws))), write_out ?rq d2)"
    using fill by (subst enter_not_full) (simp_all add: dev_init_def BUF_SIZE_def)
  then have "drv_step (sys_init b0) ((sys_init b0)\<lparr>sdev := write_out ?rq d2,
      taken := taken (sys_init b0) @ accepted ?rq (Inr (4 * int (length ws)))\<rparr>)"
    using ok by (intro step_write [of ?rq]) (simp_all add: sys_init_def, simp add: dev_init_def)
  then show ?thesis
    by (intro exI, intro conjI, rule r_into_rtranclp) (simp_all add: sys_init_def)
qed

section \<open>The properties\<close>







lemma write_fill_result:
  assumes "dev_inv d" and "request_ok rq"
  defines "n \<equiv> min (unat (wsize rq) div 4) (room d)"
  shows "fst (write_fill rq d) =
    (if snd (copy_from_user rq (of_nat (4 * n))) \<noteq> 0 then Inl EFAULT else Inr (4 * int n))"
  using write_fill_run [OF assms(1,2)] by (simp add: n_def Let_def split_beta)



text \<open>
  A blocked write that wakes up does not look at the buffer again (an \<open>if\<close>, not a
  \<open>while\<close>, around \<open>schedule ()\<close>). When another writer, woken by the same interrupt, has
  filled the buffer first, it returns 0 bytes from a blocking call although the caller
  asked for some.
\<close>
theorem woken_write_may_return_zero:
  assumes "dev_inv d" and "request_ok rq" and "current_buf_num d = int BUF_SIZE"
    and "\<not> sig_pending rq" and "relock_error rq = None" and "snd (copy_from_user rq 0) = 0"
  shows "fst (cnc_write_resume rq d) = Inr 0"
proof -
  have "room (mutex_acquire (pid rq) d) = 0" "dev_inv (mutex_acquire (pid rq) d)"
    using assms(1,3) by (simp_all add: frame_simps) (simp add: room_def)
  then have "fst (write_fill rq (mutex_acquire (pid rq) d)) = Inr 0"
    using write_fill_result [of "mutex_acquire (pid rq) d" rq] assms(2,6) by simp
  then show ?thesis
    using assms(4,5) by (simp add: cnc_write_resume_def Let_def split_beta)
qed

definition dev_full :: cnc_dev where
  "dev_full = dev_init\<lparr>current_buf_num := int BUF_SIZE\<rparr>"

theorem woken_write_may_return_zero_witness:
  "fst (cnc_write_resume (sample_write 2 [7, 8]) dev_full) = Inr 0"
proof (rule woken_write_may_return_zero)
  show "dev_inv dev_full" using dev_inv_init by (simp add: dev_full_def dev_inv_def BUF_SIZE_def)
qed (simp_all add: sample_write_ok copy_all_def, simp add: dev_full_def)

text \<open>The register each slot of the user's buffer holds.\<close>

definition pos_layout :: "u32 list" where
  "pos_layout =
    [0x08, 0x09, 0x0a, 0x0b, 0x0c, 0x0d, 0x0e, 0x0f, 0x10, 0x11, 0x12, 0x13, 0x2a, 0x2b,
     0x16, 0x17, 0x06, 0x34, 0x35, 0x36, 0x37, 0x30, 0x31, 0x32, 0x33, 0x38, 0x39, 0x3a, 0x3b,
     0x40, 0x41, 0x42, 0x43, 0x2a]"

lemma pos_layout_eq: "pos_layout = map (\<lambda>i. pos_reg_order ! i) pos_slot_read"
  by (simp add: pos_layout_def pos_reg_order_def pos_slot_read_def)

lemma pos_data_steady:
  assumes "\<And>n. answer b n = f"
  shows "pos_data_buf (fst (pos_readfrom_card d b)) = map f pos_layout"
proof (rule nth_equalityI)
  show "length (pos_data_buf (fst (pos_readfrom_card d b))) = length (map f pos_layout)"
    by (simp add: frame_simps POS_SIZE_def pos_layout_def)
next
  have len: "length pos_slot_read = 34" by (simp add: pos_slot_read_def)
  fix i assume "i < length (pos_data_buf (fst (pos_readfrom_card d b)))"
  then have i: "i < 34" by (simp add: frame_simps POS_SIZE_def)
  then have "map f pos_layout ! i = f (pos_reg_order ! (pos_slot_read ! i))"
    using len by (simp add: pos_layout_eq)
  then show "pos_data_buf (fst (pos_readfrom_card d b)) ! i = map f pos_layout ! i"
    using pos_data_slot [OF i] assms by simp
qed

lemma read_all_steady:
  assumes "\<And>n. answer b n = f"
  shows "map2 Rd as (fst (read_all as b)) = map (\<lambda>a. Rd a (f a)) as"
  by (rule nth_equalityI) (simp_all add: read_all_nth assms)

text \<open>
  C5. One read. It makes 35 register reads, in the fixed order of \<open>pos_readfrom_card\<close>, and
  no write; with a card whose registers do not change meanwhile the user gets, in the
  layout below, the registers of as many whole words as asked for, 34 at most, and the byte
  count of them; a failing \<open>copy_to_user\<close> gives \<open>-EFAULT\<close>. The mutex is free again and the
  send buffer untouched.
\<close>
theorem cnc_read_contract:
  assumes "unat sz < 2 ^ 31" and "mutex d = None" and "\<And>n. answer b n = f"
    and "cnc_read copy_to_user p sz d b = (r, ws, d', b')"
  defines "n \<equiv> min (unat sz div 4) 34"
  shows "bus_log b' = bus_log b @ map (\<lambda>a. Rd a (f a)) pos_reg_order \<and>
    (if copy_to_user (map f pos_layout) (of_nat (4 * n)) = 0
     then r = Inr (4 * int n) \<and> ws = take n (map f pos_layout)
     else r = Inl EFAULT \<and> ws = []) \<and>
    mutex d' = None \<and> pending d' = pending d \<and> (dev_inv d \<longrightarrow> dev_inv d')"
proof -
  have run: "cnc_read copy_to_user p sz d b =
    (if copy_to_user (map f pos_layout) (of_nat (4 * n)) \<noteq> 0
     then (Inl EFAULT, [], pos_readfrom_card d b)
     else (Inr (4 * int n), take n (map f pos_layout), pos_readfrom_card d b))"
    using cnc_read_run [of sz d copy_to_user p b] assms(1,2) by (simp add: n_def pos_data_steady [OF assms(3)])
  have d': "(d', b') = pos_readfrom_card d b"
    using run assms(4) by (simp split: if_splits)
  have "d' = fst (pos_readfrom_card d b)" "b' = snd (pos_readfrom_card d b)"
    by (simp_all flip: d')
  then show ?thesis
    using run assms(2,4) dev_inv_posread [of d b]
    by (simp add: io_simps frame_simps read_all_steady [OF assms(3)] split: if_splits)
qed

theorem cnc_read_contract_witness:
  "\<exists>d' b'. cnc_read (\<lambda>_ _. 0) 1 9 dev_init idle_bus = (Inr 8, [0, 0], d', b')"
proof -
  obtain r ws d' b' where run: "cnc_read (\<lambda>_ _. 0) 1 9 dev_init idle_bus = (r, ws, d', b')"
    by (metis prod_cases4)
  have n: "unat (9 :: u64) = 9" by simp
  have free: "mutex dev_init = None" "\<And>n. answer idle_bus n = (\<lambda>_. 0)"
    by (simp_all add: dev_init_def idle_bus_def)
  have "take 2 (map (\<lambda>_. 0) pos_layout) = [0, 0 :: u32]"
    by (simp add: pos_layout_def numeral_2_eq_2)
  then have "r = Inr 8 \<and> ws = [0, 0]"
    using cnc_read_contract [OF _ free run] unfolding n by simp
  then show ?thesis using run by blast
qed

end
