(* ===== verification/Drv_Regs.thy ===== *)
theory Drv_Regs
  imports Drv_Stream
begin

text \<open>
  The driver's offsets against the register map of the FPGA (\<open>rtl/txproc.v\<close>,
  \<open>rtl/rxproc.v\<close>): every offset is the index of a 32-bit register, the hardware decodes byte
  addresses, and \<open>mem_addr\<close> is a \<open>void\<close> pointer.
\<close>

text \<open>
  The registers the driver means: the offset it uses and the register \<open>txproc.v\<close> describes
  for the same purpose.
\<close>

definition drv_registers :: "(u32 \<times> rtl_reg) list" where
  "drv_registers =
     [(0x01, Intreg), (0x05, Pctocard), (0x06, Dcsreg),
      (0x08, Pos 0), (0x09, Pos 1), (0x0a, Pos 2), (0x0b, Pos 3),
      (0x0c, Pos_ref 0), (0x0d, Pos_ref 1), (0x0e, Pos_ref 2), (0x0f, Pos_ref 3),
      (0x10, Pos_real 0), (0x11, Pos_real 1), (0x12, Pos_real 2), (0x13, Pos_real 3),
      (0x14, Pos_break 0), (0x15, Pos_break 1), (0x16, Pos_break 2), (0x17, Pos_break 3),
      (0x18, Co 1), (0x19, Co 2), (0x1a, Co 3), (0x1b, Co 4),
      (0x1c, Co 5), (0x1d, Co 6), (0x1e, Co 7), (0x1f, Co 8),
      (0x20, Jog_pos 0), (0x21, Jog_pos 1), (0x22, Jog_pos 2), (0x23, Jog_pos 3),
      (0x24, Jog_neg 0), (0x25, Jog_neg 1), (0x26, Jog_neg 2), (0x27, Jog_neg 3),
      (0x28, Szero_soft), (0x2a, Aux_back), (0x2b, Aux_ctl),
      (0x30, Card_pos 0), (0x31, Card_pos 1), (0x32, Card_pos 2), (0x33, Card_pos 3),
      (0x34, Spd 0), (0x35, Spd 1), (0x36, Spd 2), (0x37, Spd 3),
      (0x38, Card_pos_ref 0), (0x39, Card_pos_ref 1),
      (0x3a, Card_pos_ref 2), (0x3b, Card_pos_ref 3),
      (0x40, Card_pos_real 0), (0x41, Card_pos_real 1),
      (0x42, Card_pos_real 2), (0x43, Card_pos_real 3),
      (0x44, M_cool), (0x45, M_cw), (0x46, M_atcw)]"

lemma registers_as_words:
  "list_all (\<lambda>(off, r). rtl_select (4 * off) = Some r) drv_registers"
  by (simp add: drv_registers_def rtl_select_def rtl_decode_def rtl_ext_add_def)

lemma registers_as_bytes:
  "list_all (\<lambda>(off, r). rtl_select (drv_address off) \<noteq> Some r) drv_registers"
  by (simp add: drv_registers_def rtl_select_def rtl_decode_def rtl_ext_add_def drv_address_def)

text \<open>
  The offsets. The table above covers exactly the offsets the driver uses. Taken as
  register indices (four bytes each) they all select the register they mean; but the
  driver adds them to a \<open>void\<close> pointer, so they are byte offsets, and then not one of them
  selects its register: the interrupt status read hits no register at all, and the
  interpolation data goes to the interrupt register.
\<close>
theorem register_offsets:
  "set (map fst drv_registers) = ioctl_regs \<union> set pos_reg_order \<union> {INTCSR_V_MEM_ADDR, PCTOCARD_V_MEM_ADDR} \<and>
   list_all (\<lambda>(off, r). rtl_select (4 * off) = Some r) drv_registers \<and>
   list_all (\<lambda>(off, r). rtl_select (drv_address off) \<noteq> Some r) drv_registers \<and>
   rtl_select (drv_address INTCSR_V_MEM_ADDR) = None \<and>
   rtl_select (drv_address PCTOCARD_V_MEM_ADDR) = Some Intreg"
proof (intro conjI registers_as_words registers_as_bytes)
  show "set (map fst drv_registers) = ioctl_regs \<union> set pos_reg_order \<union> {INTCSR_V_MEM_ADDR, PCTOCARD_V_MEM_ADDR}"
    by (simp add: drv_registers_def ioctl_regs_def pos_reg_order_def INTCSR_V_MEM_ADDR_def
        PCTOCARD_V_MEM_ADDR_def insert_commute)
  show "rtl_select (drv_address INTCSR_V_MEM_ADDR) = None"
    by (simp add: rtl_select_def rtl_decode_def rtl_ext_add_def drv_address_def INTCSR_V_MEM_ADDR_def)
  show "rtl_select (drv_address PCTOCARD_V_MEM_ADDR) = Some Intreg"
    by (simp add: rtl_select_def rtl_decode_def rtl_ext_add_def drv_address_def PCTOCARD_V_MEM_ADDR_def)
qed

end
