(* ===== verification/Drv_Race.thy ===== *)
theory Drv_Race
  imports Drv_Stream
begin

text \<open>
  \<open>cnc_write\<close> statement by statement, with \<open>cnc_interrupt\<close> arriving between any two
  statements. The mutex keeps other calls out, but the handler takes the spin lock
  \<open>lock\<close>, which \<open>cnc_write\<close> never takes, so nothing keeps the handler out. What survives
  (the bounds of the buffer) and what does not (the wake-up, the stream) is proved here.
\<close>

section \<open>One writer and the interrupt\<close>

text \<open>
  The place of the writer: the numbers are lines of \<open>cnc_card.c\<close>. \<open>At_286_add\<close> is the middle of
  \<open>current_buf_num += count\<close>, between its load and its store.
\<close>

datatype writer_pc =
    At_251 | At_258 | At_259 | At_261 | At_276 | At_282 nat | At_286 nat | At_286_add nat int
  | At_out "errno + int" | Finished "errno + int"

record race =
  rdev :: cnc_dev
  rbus :: bus
  rpc :: writer_pc

text \<open>The next statement of the writer; \<open>None\<close> while \<open>schedule ()\<close> does not return.\<close>

fun writer_step :: "write_req \<Rightarrow> cnc_dev \<Rightarrow> writer_pc \<Rightarrow> (cnc_dev \<times> writer_pc) option" where
  "writer_step rq d At_251 =
     Some (if current_buf_num d = int BUF_SIZE
           then (if nonblock rq then (d, At_out (Inl EAGAIN)) else (d, At_258))
           else (d, At_276))"
| "writer_step rq d At_258 = Some (set_task_state (pid rq) TASK_INTERRUPTIBLE d, At_259)"
| "writer_step rq d At_259 = Some (mutex_unlock d, At_261)"
| "writer_step rq d At_261 =
     (if tstate d (pid rq) = TASK_RUNNING \<and> mutex d = None
      then Some (mutex_acquire (pid rq) d, At_276) else None)"
| "writer_step rq d At_276 =
     Some (d, At_282 (nat (min (to_int32 (int (unat (wsize rq div 4))))
                             (int BUF_SIZE - current_buf_num d))))"
| "writer_step rq d (At_282 count) =
     (let (copied, left) = copy_from_user rq (of_nat (4 * count));
          d' = d\<lparr>data_buf := blit (data_buf d) (nat (current_buf_num d)) copied\<rparr>
      in Some (d', if left \<noteq> 0 then At_out (Inl EFAULT) else At_286 count))"
| "writer_step rq d (At_286 count) = Some (d, At_286_add count (current_buf_num d))"
| "writer_step rq d (At_286_add count old) =
     Some (d\<lparr>current_buf_num := old + int count\<rparr>, At_out (Inr (4 * int count)))"
| "writer_step rq d (At_out r) = Some (write_out rq d, Finished r)"
| "writer_step rq d (Finished r) = None"

inductive race_step :: "write_req \<Rightarrow> race \<Rightarrow> race \<Rightarrow> bool" for rq where
  race_writer: "writer_step rq (rdev s) (rpc s) = Some (d', pc') \<Longrightarrow>
    race_step rq s (s\<lparr>rdev := d', rpc := pc'\<rparr>)"
| race_irq: "cnc_interrupt (rdev s) (rbus s) = (r, d', b') \<Longrightarrow>
    race_step rq s (s\<lparr>rdev := d', rbus := b'\<rparr>)"

inductive_cases race_stepE: "race_step rq s s'"

lemma race_writer_run:
  "writer_step rq (rdev s) (rpc s) = Some (d', pc') \<Longrightarrow> (race_step rq)\<^sup>*\<^sup>* s (s\<lparr>rdev := d', rpc := pc'\<rparr>)"
  by (rule r_into_rtranclp) (rule race_writer)

lemma race_irq_run:
  "cnc_interrupt (rdev s) (rbus s) = (r, d', b') \<Longrightarrow> (race_step rq)\<^sup>*\<^sup>* s (s\<lparr>rdev := d', rbus := b'\<rparr>)"
  by (rule r_into_rtranclp) (rule race_irq)

section \<open>What survives: the bounds\<close>

text \<open>
  The place keeps the count computed at line 276 within the room there was: an interrupt
  can only make more room.
\<close>

fun pc_ok :: "write_req \<Rightarrow> cnc_dev \<Rightarrow> writer_pc \<Rightarrow> bool" where
  "pc_ok rq d (At_282 count) \<longleftrightarrow> current_buf_num d + int count \<le> int BUF_SIZE \<and>
     count \<le> unat (wsize rq) div 4"
| "pc_ok rq d (At_286 count) \<longleftrightarrow> current_buf_num d + int count \<le> int BUF_SIZE \<and>
     count \<le> unat (wsize rq) div 4"
| "pc_ok rq d (At_286_add count old) \<longleftrightarrow> 0 \<le> old \<and> old + int count \<le> int BUF_SIZE \<and>
     count \<le> unat (wsize rq) div 4"
| "pc_ok rq d (At_out (Inr n)) \<longleftrightarrow> n \<le> int (unat (wsize rq))"
| "pc_ok rq d (Finished (Inr n)) \<longleftrightarrow> n \<le> int (unat (wsize rq))"
| "pc_ok rq d _ \<longleftrightarrow> True"

lemma writer_bounds:
  assumes "request_ok rq" and "dev_inv d" and "pc_ok rq d pc"
    and "writer_step rq d pc = Some (d', pc')"
  shows "dev_inv d' \<and> pc_ok rq d' pc'"
proof (cases pc)
  case At_276
  have sz: "unat (wsize rq) < 2 ^ 33" using assms(1) by (simp add: request_ok_def)
  with At_276 assms(2,4) show ?thesis
    by (auto simp: size_words_uint dev_inv_def min_def)
next
  case (At_282 count)
  have fit: "unat (of_nat (4 * count) :: u64) = 4 * count" "count \<le> length (user_words rq)"
    using assms(1,2,3) At_282
    by (auto simp: dev_inv_def BUF_SIZE_def unat_of_nat request_ok_def simp del: of_nat_mult)
  then have "length (fst (copy_from_user rq (of_nat (4 * count)))) = count"
    using assms(1) unfolding request_ok_def copy_from_user_spec_def
    by (metis nonzero_mult_div_cancel_left zero_neq_numeral)
  then show ?thesis
    using At_282 assms(2,3,4) by (auto simp: dev_inv_def Let_def split_beta split: if_splits)
next
  case (At_286_add count old)
  have "4 * int count \<le> int (unat (wsize rq))"
    using assms(3) At_286_add by (auto simp del: of_nat_unat)
  then show ?thesis using At_286_add assms(2,3,4) by (auto simp: dev_inv_def)
next
  case (At_out r)
  then show ?thesis using assms(2,3,4) by (cases r) (auto simp: frame_simps)
next
  case (At_286 count)
  then show ?thesis using assms(2,3,4) by (auto simp: dev_inv_def)
qed (use assms in \<open>auto simp: frame_simps split: if_splits\<close>)

lemma irq_bounds:
  assumes "dev_inv d" and "pc_ok rq d pc" and "cnc_interrupt d b = (r, d', b')"
  shows "dev_inv d' \<and> pc_ok rq d' pc"
  using irq_effect [OF assms(1,3)]
proof
  assume *: "current_buf_num d = int BUF_SIZE \<and> d' = wake_up_interruptible (d\<lparr>current_buf_num := 0\<rparr>) \<and>
     writes_to PCTOCARD_V_MEM_ADDR (bus_log b') = writes_to PCTOCARD_V_MEM_ADDR (bus_log b) @ data_buf d"
  then have "current_buf_num d' = 0" by (simp add: frame_simps)
  with * assms(1,2) irq_dev_inv [OF assms(1)] show ?thesis
    by (cases "(rq, d, pc)" rule: pc_ok.cases) auto
qed (use assms in simp)



section \<open>What does not: the wake-up and the stream\<close>

lemma irq_full:
  assumes "dev_inv d" and "current_buf_num d = int BUF_SIZE" and "\<And>n. answer b n INTCSR_V_MEM_ADDR = 3"
  obtains b' where "cnc_interrupt d b = (IRQ_HANDLED, wake_up_interruptible (d\<lparr>current_buf_num := 0\<rparr>), b')"
    and "answer b' = answer b"
    and "writes_to PCTOCARD_V_MEM_ADDR (bus_log b') = writes_to PCTOCARD_V_MEM_ADDR (bus_log b) @ data_buf d"
proof -
  obtain r d' b' where run: "cnc_interrupt d b = (r, d', b')" by (metis prod_cases3)
  have "INTCSR_V_MEM_ADDR \<noteq> PCTOCARD_V_MEM_ADDR"
    by (simp add: INTCSR_V_MEM_ADDR_def PCTOCARD_V_MEM_ADDR_def)
  moreover have "answer b' = answer b"
    using run assms(3) by (auto simp: cnc_interrupt_def split_beta ioread32_value io_simps
        data_send_full [OF assms(1,2)] Let_def)
  ultimately show ?thesis
    using that [of b'] run interrupt_handled [OF assms(1) assms(3) run] assms(2) by auto
qed

text \<open>Stuck: asleep in \<open>schedule ()\<close> with an empty buffer that only the writer could fill.\<close>

definition stuck :: "write_req \<Rightarrow> race \<Rightarrow> bool" where
  "stuck rq s \<longleftrightarrow> rpc s = At_261 \<and> dev_inv (rdev s) \<and> current_buf_num (rdev s) = 0 \<and>
     tstate (rdev s) (pid rq) = TASK_INTERRUPTIBLE"

lemma stuck_forever:
  assumes "(race_step rq)\<^sup>*\<^sup>* s s'" and "stuck rq s"
  shows "stuck rq s'"
  using assms
proof (induction rule: rtranclp_induct)
  case (step s1 s2)
  then have st: "stuck rq s1" by simp
  from step.hyps(2) show ?case
  proof cases
    case (race_writer d' pc')
    then show ?thesis using st by (auto simp: stuck_def split: if_splits)
  next
    case (race_irq r d' b')
    then show ?thesis using st irq_effect [of "rdev s1" "rbus s1"] by (auto simp: stuck_def BUF_SIZE_def)
  qed
qed


definition armed_bus :: bus where "armed_bus = \<lparr>answer = (\<lambda>_ _. 3), bus_log = []\<rparr>"

lemma dev_inv_full: "dev_inv dev_full"
  using dev_inv_init by (simp add: dev_full_def dev_inv_def BUF_SIZE_def)


text \<open>
  C7. Repeated block. A writer that holds a full buffer (after a wake-up it does not look
  again) can be interrupted inside \<open>current_buf_num += count\<close>: the interrupt sends the block
  and clears the count, the store puts the old count back, and the next interrupt sends the
  same thousand words a second time, although the driver accepted none in between.
\<close>
theorem block_sent_twice:
  assumes "dev_inv d" and "current_buf_num d = int BUF_SIZE" and "request_ok rq"
    and "snd (copy_from_user rq 0) = 0" and "\<And>n. answer b n INTCSR_V_MEM_ADDR = 3"
  shows "\<exists>s. (race_step rq)\<^sup>*\<^sup>* \<lparr>rdev = d, rbus = b, rpc = At_276\<rparr> s \<and>
    rpc s = At_out (Inr 0) \<and>
    writes_to PCTOCARD_V_MEM_ADDR (bus_log (rbus s))
      = writes_to PCTOCARD_V_MEM_ADDR (bus_log b) @ data_buf d @ data_buf d"
proof -
  let ?d1 = "wake_up_interruptible (d\<lparr>current_buf_num := 0\<rparr>)"
  let ?d2 = "?d1\<lparr>current_buf_num := int BUF_SIZE\<rparr>"
  let ?d3 = "wake_up_interruptible (?d2\<lparr>current_buf_num := 0\<rparr>)"
  obtain b1 where irq1: "cnc_interrupt d b = (IRQ_HANDLED, ?d1, b1)" and "answer b1 = answer b"
    and w1: "writes_to PCTOCARD_V_MEM_ADDR (bus_log b1) = writes_to PCTOCARD_V_MEM_ADDR (bus_log b) @ data_buf d"
    using irq_full [OF assms(1,2,5)] by metis
  then have a1: "\<And>n. answer b1 n INTCSR_V_MEM_ADDR = 3" using assms(5) by simp
  have d2: "dev_inv ?d2" "current_buf_num ?d2 = int BUF_SIZE" "data_buf ?d2 = data_buf d"
    using irq_dev_inv [OF assms(1)] by (simp_all add: dev_inv_def kernel_defs)
  obtain b2 where irq2: "cnc_interrupt ?d2 b1 = (IRQ_HANDLED, ?d3, b2)"
    and w2: "writes_to PCTOCARD_V_MEM_ADDR (bus_log b2) = writes_to PCTOCARD_V_MEM_ADDR (bus_log b1) @ data_buf ?d2"
    using irq_full [OF d2(1,2) a1] by metis
  have sz: "unat (wsize rq) < 2 ^ 33" using assms(3) by (simp add: request_ok_def)
  have "fst (copy_from_user rq 0) = []"
    using assms(3) unfolding request_ok_def copy_from_user_spec_def
    by (metis div_0 le0 length_0_conv unsigned_0)
  then have copy: "copy_from_user rq 0 = ([], 0)" using assms(4) by (metis prod.collapse)
  have "(race_step rq)\<^sup>*\<^sup>* \<lparr>rdev = d, rbus = b, rpc = At_276\<rparr> \<lparr>rdev = d, rbus = b, rpc = At_282 0\<rparr>"
    using race_writer_run [of rq "\<lparr>rdev = d, rbus = b, rpc = At_276\<rparr>" d "At_282 0"] assms(2)
    by (simp add: size_words_uint [OF sz])
  also have "(race_step rq)\<^sup>*\<^sup>* \<dots> \<lparr>rdev = d, rbus = b, rpc = At_286 0\<rparr>"
    using race_writer_run [of rq "\<lparr>rdev = d, rbus = b, rpc = At_282 0\<rparr>" d "At_286 0"] copy by simp
  also have "(race_step rq)\<^sup>*\<^sup>* \<dots> \<lparr>rdev = d, rbus = b, rpc = At_286_add 0 (int BUF_SIZE)\<rparr>"
    using race_writer_run [of rq "\<lparr>rdev = d, rbus = b, rpc = At_286 0\<rparr>" d "At_286_add 0 (int BUF_SIZE)"]
      assms(2) by simp
  also have "(race_step rq)\<^sup>*\<^sup>* \<dots> \<lparr>rdev = ?d1, rbus = b1, rpc = At_286_add 0 (int BUF_SIZE)\<rparr>"
    using race_irq_run [of "\<lparr>rdev = d, rbus = b, rpc = At_286_add 0 (int BUF_SIZE)\<rparr>", simplified, OF irq1] .
  also have "(race_step rq)\<^sup>*\<^sup>* \<dots> \<lparr>rdev = ?d2, rbus = b1, rpc = At_out (Inr 0)\<rparr>"
    using race_writer_run [of rq "\<lparr>rdev = ?d1, rbus = b1, rpc = At_286_add 0 (int BUF_SIZE)\<rparr>" ?d2 "At_out (Inr 0)"]
    by simp
  also have "(race_step rq)\<^sup>*\<^sup>* \<dots> \<lparr>rdev = ?d3, rbus = b2, rpc = At_out (Inr 0)\<rparr>"
    using race_irq_run [of "\<lparr>rdev = ?d2, rbus = b1, rpc = At_out (Inr 0)\<rparr>", simplified, OF irq2] .
  finally have "(race_step rq)\<^sup>*\<^sup>* \<lparr>rdev = d, rbus = b, rpc = At_276\<rparr>
      \<lparr>rdev = ?d3, rbus = b2, rpc = At_out (Inr 0)\<rparr>" .
  with w1 w2 d2(3) show ?thesis
    by (intro exI [of _ "\<lparr>rdev = ?d3, rbus = b2, rpc = At_out (Inr 0)\<rparr>"]) simp
qed

theorem block_sent_twice_witness:
  "\<exists>s. (race_step (sample_write 1 [7]))\<^sup>*\<^sup>* \<lparr>rdev = dev_full, rbus = armed_bus, rpc = At_276\<rparr> s \<and>
    writes_to PCTOCARD_V_MEM_ADDR (bus_log (rbus s)) = replicate 1000 0 @ replicate 1000 0"
  using block_sent_twice [OF dev_inv_full, of "sample_write 1 [7]" armed_bus]
  by (auto simp: dev_full_def armed_bus_def sample_write_ok copy_all_def dev_init_def BUF_SIZE_def)

end
