(* ===== verification/Drv_Probe.thy ===== *)
theory Drv_Probe
  imports Drv_Dev
begin

text \<open>
  \<open>cnc_probe\<close> and \<open>cnc_remove\<close> of \<open>drv/src/cnc_card.c\<close>: which kernel resources they take,
  in which order they give them back, and what they leave in the interrupt register.
\<close>

section \<open>Resources\<close>

datatype resource =
    Pci_device | Pci_region nat | Pci_iomap nat | Chrdev_region | Cdev_added
  | Class_created | Device_created | Irq_line

text \<open>
  What the kernel answers to each request of \<open>cnc_probe\<close>: return codes as C \<open>int\<close>s, and the
  pointers of \<open>class_create\<close> and \<open>device_create\<close> as 64-bit words.
\<close>

record probe_env =
  kzalloc_ok :: bool
  pci_enable_ret :: int
  region_ret :: "nat \<Rightarrow> int"
  iomap_ok :: "nat \<Rightarrow> bool"
  alloc_chrdev_ret :: int
  cdev_add_ret :: int
  class_ptr :: u64
  device_ptr :: u64
  request_irq_ret :: int

text \<open>The resources held, last taken first, the order they were given back in, the drvdata
  pointer and the register window.\<close>

record probe_state =
  held :: "resource list"
  released :: "resource list"
  drvdata :: bool
  pbus :: bus

definition acquire :: "resource \<Rightarrow> probe_state \<Rightarrow> probe_state" where
  "acquire r s = s\<lparr>held := r # held s\<rparr>"

definition release :: "resource \<Rightarrow> probe_state \<Rightarrow> probe_state" where
  "release r s = s\<lparr>held := remove1 r (held s), released := released s @ [r]\<rparr>"

definition poke :: "u32 \<Rightarrow> u32 \<Rightarrow> probe_state \<Rightarrow> probe_state" where
  "poke v a s = s\<lparr>pbus := iowrite32 v a (pbus s)\<rparr>"

text \<open>\<open>IS_ERR\<close> and \<open>PTR_ERR\<close> of \<open>linux/err.h\<close>: the top 4095 addresses are error numbers.\<close>

definition IS_ERR :: "u64 \<Rightarrow> bool" where
  "IS_ERR p \<longleftrightarrow> - 4095 \<le> p"

definition PTR_ERR :: "u64 \<Rightarrow> int" where
  "PTR_ERR p = sint p"

section \<open>Probe\<close>

text \<open>The unwinding labels, each falling through to the next.\<close>

definition err_pci_disable :: "probe_state \<Rightarrow> probe_state" where
  "err_pci_disable s = release Pci_device s"

definition err_pci_release_io :: "probe_state \<Rightarrow> probe_state" where
  "err_pci_release_io s = err_pci_disable (release (Pci_region 0) s)"

definition err_pci_release_mem :: "probe_state \<Rightarrow> probe_state" where
  "err_pci_release_mem s = err_pci_release_io (release (Pci_region 1) s)"

definition err_iounmap_mem :: "probe_state \<Rightarrow> probe_state" where
  "err_iounmap_mem s = err_pci_release_mem (release (Pci_iomap 1) s)"

definition err_iounmap_io :: "probe_state \<Rightarrow> probe_state" where
  "err_iounmap_io s = err_iounmap_mem (release (Pci_iomap 0) s)"

definition err_unregister_chrdev :: "probe_state \<Rightarrow> probe_state" where
  "err_unregister_chrdev s = err_iounmap_io (release Chrdev_region s)"

definition err_cdev_del :: "probe_state \<Rightarrow> probe_state" where
  "err_cdev_del s = err_unregister_chrdev (release Cdev_added s)"

definition err_class_destroy :: "probe_state \<Rightarrow> probe_state" where
  "err_class_destroy s = err_cdev_del (release Class_created s)"

definition err_device_destroy :: "probe_state \<Rightarrow> probe_state" where
  "err_device_destroy s = err_class_destroy (release Device_created s)"

lemmas err_labels = err_pci_disable_def err_pci_release_io_def err_pci_release_mem_def
  err_iounmap_mem_def err_iounmap_io_def err_unregister_chrdev_def err_cdev_del_def
  err_class_destroy_def err_device_destroy_def

text \<open>The character device part, from the allocation of the device number on.\<close>

definition probe_chrdev :: "probe_env \<Rightarrow> probe_state \<Rightarrow> int \<times> probe_state" where
  "probe_chrdev e s =
    (if alloc_chrdev_ret e < 0 then (alloc_chrdev_ret e, err_iounmap_io s) else
     let s = acquire Chrdev_region s in
     if cdev_add_ret e \<noteq> 0 then (cdev_add_ret e, err_unregister_chrdev s) else
     let s = acquire Cdev_added s in
     if IS_ERR (class_ptr e) then (PTR_ERR (class_ptr e), err_cdev_del s) else
     let s = acquire Class_created s in
     if IS_ERR (device_ptr e) then (PTR_ERR (device_ptr e), err_class_destroy s) else
     let s = acquire Device_created s in
     if request_irq_ret e \<noteq> 0 then (request_irq_ret e, err_device_destroy s) else
     let s = acquire Irq_line s
     in (0, s\<lparr>drvdata := True\<rparr>))"

definition cnc_probe :: "probe_env \<Rightarrow> probe_state \<Rightarrow> int \<times> probe_state" where
  "cnc_probe e s =
    (if \<not> kzalloc_ok e then (- 12, s) else
     if pci_enable_ret e \<noteq> 0 then (pci_enable_ret e, s) else
     let s = acquire Pci_device s in
     if region_ret e 0 \<noteq> 0 then (region_ret e 0, err_pci_disable s) else
     let s = acquire (Pci_region 0) s in
     if region_ret e 1 \<noteq> 0 then (region_ret e 1, err_pci_release_io s) else
     let s = acquire (Pci_region 1) s in
     if \<not> iomap_ok e 1 then (- 5, err_pci_release_mem s) else
     let s = acquire (Pci_iomap 1) s in
     if \<not> iomap_ok e 0 then (- 5, err_iounmap_mem s) else
     let s = acquire (Pci_iomap 0) s;
         s = poke 2 INTCSR_V_MEM_ADDR s;
         s = poke 0 PCTOCARD_V_MEM_ADDR s
     in probe_chrdev e s)"

definition cnc_remove :: "probe_state \<Rightarrow> probe_state" where
  "cnc_remove s =
    (let s = release Irq_line s;
         s = release Device_created s;
         s = release Class_created s;
         s = release Cdev_added s;
         s = release Chrdev_region s;
         s = release (Pci_iomap 0) s;
         s = release (Pci_iomap 1) s;
         s = release (Pci_region 1) s;
         s = release (Pci_region 0) s
     in release Pci_device s)"

text \<open>Before the probe: nothing held.\<close>

definition unbound :: "bus \<Rightarrow> probe_state" where
  "unbound b = \<lparr>held = [], released = [], drvdata = False, pbus = b\<rparr>"

section \<open>Lemmas\<close>

lemma held_ops [drv_simps]:
  "held (acquire r s) = r # held s" "held (release r s) = remove1 r (held s)"
  "held (poke v a s) = held s"
  "released (acquire r s) = released s" "released (release r s) = released s @ [r]"
  "released (poke v a s) = released s"
  "pbus (acquire r s) = pbus s" "pbus (release r s) = pbus s"
  "pbus (poke v a s) = iowrite32 v a (pbus s)"
  "drvdata (acquire r s) = drvdata s" "drvdata (release r s) = drvdata s"
  "drvdata (poke v a s) = drvdata s"
  by (simp_all add: acquire_def release_def poke_def)

text \<open>The order of a full set of resources, last taken first.\<close>

definition all_resources :: "resource list" where
  "all_resources =
    [Irq_line, Device_created, Class_created, Cdev_added, Chrdev_region,
     Pci_iomap 0, Pci_iomap 1, Pci_region 1, Pci_region 0, Pci_device]"

lemma PTR_ERR_nonzero: "IS_ERR p \<Longrightarrow> PTR_ERR p \<noteq> 0"
proof
  assume "IS_ERR p" and "PTR_ERR p = 0"
  then have "p = 0" by (simp add: PTR_ERR_def signed_eq_0_iff)
  with \<open>IS_ERR p\<close> show False by (simp add: IS_ERR_def)
qed

text \<open>The two outcomes of a probe.\<close>

definition probe_ok :: "bus \<Rightarrow> int \<Rightarrow> probe_state \<Rightarrow> bool" where
  "probe_ok b ret s \<longleftrightarrow> ret = 0 \<and> held s = all_resources \<and> released s = [] \<and> drvdata s \<and>
     bus_log (pbus s) = bus_log b @ [Wr INTCSR_V_MEM_ADDR 2, Wr PCTOCARD_V_MEM_ADDR 0]"

definition probe_failed :: "bus \<Rightarrow> int \<Rightarrow> probe_state \<Rightarrow> bool" where
  "probe_failed b ret s \<longleftrightarrow> ret \<noteq> 0 \<and> held s = [] \<and> \<not> drvdata s \<and>
     (\<exists>k. released s = drop k all_resources \<and>
       bus_log (pbus s) = bus_log b @
         (if k \<le> 5 then [Wr INTCSR_V_MEM_ADDR 2, Wr PCTOCARD_V_MEM_ADDR 0] else []))"

lemma failed_at:
  assumes "ret \<noteq> 0" and "held s = []" and "\<not> drvdata s" and "released s = drop k all_resources"
    and "bus_log (pbus s) = bus_log b @
      (if k \<le> 5 then [Wr INTCSR_V_MEM_ADDR 2, Wr PCTOCARD_V_MEM_ADDR 0] else [])"
  shows "probe_failed b ret s"
  using assms by (auto simp: probe_failed_def)

lemma probe_chrdev_cases:
  assumes "held s = drop 5 all_resources" and "released s = []" and "\<not> drvdata s"
    and "bus_log (pbus s) = bus_log b @ [Wr INTCSR_V_MEM_ADDR 2, Wr PCTOCARD_V_MEM_ADDR 0]"
    and "probe_chrdev e s = (ret, s')"
  shows "probe_ok b ret s' \<or> probe_failed b ret s'"
proof -
  consider "alloc_chrdev_ret e < 0" | "\<not> alloc_chrdev_ret e < 0" "cdev_add_ret e \<noteq> 0"
    | "\<not> alloc_chrdev_ret e < 0" "cdev_add_ret e = 0" "IS_ERR (class_ptr e)"
    | "\<not> alloc_chrdev_ret e < 0" "cdev_add_ret e = 0" "\<not> IS_ERR (class_ptr e)" "IS_ERR (device_ptr e)"
    | "\<not> alloc_chrdev_ret e < 0" "cdev_add_ret e = 0" "\<not> IS_ERR (class_ptr e)" "\<not> IS_ERR (device_ptr e)"
      "request_irq_ret e \<noteq> 0"
    | "\<not> alloc_chrdev_ret e < 0" "cdev_add_ret e = 0" "\<not> IS_ERR (class_ptr e)" "\<not> IS_ERR (device_ptr e)"
      "request_irq_ret e = 0"
    by blast
  then show ?thesis
  proof cases
    case 1
    with assms show ?thesis
      by (intro disjI2 failed_at [where k = 5]) (auto simp: probe_chrdev_def err_labels drv_simps all_resources_def)
  next
    case 2
    with assms show ?thesis
      by (intro disjI2 failed_at [where k = 4]) (auto simp: probe_chrdev_def err_labels drv_simps all_resources_def)
  next
    case 3
    with assms PTR_ERR_nonzero [OF 3(3)] show ?thesis
      by (intro disjI2 failed_at [where k = 3]) (auto simp: probe_chrdev_def err_labels drv_simps all_resources_def)
  next
    case 4
    with assms PTR_ERR_nonzero [OF 4(4)] show ?thesis
      by (intro disjI2 failed_at [where k = 2]) (auto simp: probe_chrdev_def err_labels drv_simps all_resources_def)
  next
    case 5
    with assms show ?thesis
      by (intro disjI2 failed_at [where k = 1]) (auto simp: probe_chrdev_def err_labels drv_simps all_resources_def)
  next
    case 6
    with assms show ?thesis
      by (auto simp: probe_chrdev_def probe_ok_def drv_simps all_resources_def)
  qed
qed

lemma cnc_probe_cases:
  assumes "cnc_probe e (unbound b) = (ret, s)"
  shows "probe_ok b ret s \<or> probe_failed b ret s"
proof -
  note steps = cnc_probe_def unbound_def err_labels drv_simps all_resources_def
  consider "\<not> kzalloc_ok e" | "kzalloc_ok e" "pci_enable_ret e \<noteq> 0"
    | "kzalloc_ok e" "pci_enable_ret e = 0" "region_ret e 0 \<noteq> 0"
    | "kzalloc_ok e" "pci_enable_ret e = 0" "region_ret e 0 = 0" "region_ret e 1 \<noteq> 0"
    | "kzalloc_ok e" "pci_enable_ret e = 0" "region_ret e 0 = 0" "region_ret e 1 = 0" "\<not> iomap_ok e 1"
    | "kzalloc_ok e" "pci_enable_ret e = 0" "region_ret e 0 = 0" "region_ret e 1 = 0" "iomap_ok e 1" "\<not> iomap_ok e 0"
    | "kzalloc_ok e" "pci_enable_ret e = 0" "region_ret e 0 = 0" "region_ret e 1 = 0" "iomap_ok e 1" "iomap_ok e 0"
    by blast
  then show ?thesis
  proof cases
    case 1
    with assms show ?thesis by (intro disjI2 failed_at [where k = 10]) (auto simp: steps)
  next
    case 2
    with assms show ?thesis by (intro disjI2 failed_at [where k = 10]) (auto simp: steps)
  next
    case 3
    with assms show ?thesis by (intro disjI2 failed_at [where k = 9]) (auto simp: steps)
  next
    case 4
    with assms show ?thesis by (intro disjI2 failed_at [where k = 8]) (auto simp: steps)
  next
    case 5
    with assms show ?thesis by (intro disjI2 failed_at [where k = 7]) (auto simp: steps)
  next
    case 6
    with assms show ?thesis by (intro disjI2 failed_at [where k = 6]) (auto simp: steps)
  next
    case 7
    with assms show ?thesis
      by (intro probe_chrdev_cases [where e = e and s =
          "poke 0 PCTOCARD_V_MEM_ADDR (poke 2 INTCSR_V_MEM_ADDR (acquire (Pci_iomap 0) (acquire (Pci_iomap 1)
            (acquire (Pci_region 1) (acquire (Pci_region 0) (acquire Pci_device (unbound b)))))))"])
        (auto simp: steps io_simps)
  qed
qed


definition good_env :: probe_env where
  "good_env = \<lparr>kzalloc_ok = True, pci_enable_ret = 0, region_ret = (\<lambda>_. 0), iomap_ok = (\<lambda>_. True),
     alloc_chrdev_ret = 0, cdev_add_ret = 0, class_ptr = 4096, device_ptr = 8192, request_irq_ret = 0\<rparr>"

lemma good_env_result: "fst (cnc_probe good_env (unbound b)) = 0"
  by (simp add: good_env_def cnc_probe_def probe_chrdev_def IS_ERR_def)

lemma irq_env_result: "fst (cnc_probe (good_env\<lparr>request_irq_ret := - 16\<rparr>) (unbound b)) = - 16"
  by (simp add: good_env_def cnc_probe_def probe_chrdev_def IS_ERR_def)


text \<open>
  C11. Removal. After a successful probe, \<open>cnc_remove\<close> gives back every resource in the
  reverse order of the probe, the interrupt line first. It does not touch the card: the
  interrupt control register keeps the enabling value 2 the probe wrote.
\<close>
theorem remove_releases_all:
  assumes "cnc_probe e (unbound b) = (0, s)"
  shows "held (cnc_remove s) = [] \<and> released (cnc_remove s) = all_resources \<and>
    last_written INTCSR_V_MEM_ADDR (bus_log (pbus (cnc_remove s))) = Some 2"
proof -
  have "probe_ok b 0 s" using cnc_probe_cases [OF assms] by (auto simp: probe_failed_def)
  then show ?thesis
    by (auto simp: cnc_remove_def probe_ok_def drv_simps all_resources_def INTCSR_V_MEM_ADDR_def
        PCTOCARD_V_MEM_ADDR_def)
qed

theorem remove_releases_all_witness:
  "held (cnc_remove (snd (cnc_probe good_env (unbound idle_bus)))) = []"
  using remove_releases_all [of good_env idle_bus "snd (cnc_probe good_env (unbound idle_bus))"]
    good_env_result [of idle_bus]
  by (metis prod.collapse)

end
