(* ===== verification/Esc_Layout.thy ===== *)
theory Esc_Layout
  imports Cnc_Prelude
begin

text \<open>
  The register map of the EtherCAT slave controller that \<open>ec_def.h\<close> writes down as C
  structures (\<open>TESC_REG\<close> and its parts), laid out by the rules of the C compiler, against the
  addresses \<open>main.c\<close> uses.
\<close>

section \<open>C layout\<close>

datatype ctype =
    UINT8 | UINT16 | UINT32
  | Array nat ctype
  | Struct "(string \<times> ctype) list"

text \<open>Natural alignment, as in the ABIs of the Nios II and of the usual hosts.\<close>

definition align_up :: "nat \<Rightarrow> nat \<Rightarrow> nat" where
  "align_up a n = (n + a - 1) div a * a"

fun alignof :: "ctype \<Rightarrow> nat" and alignof_fields :: "(string \<times> ctype) list \<Rightarrow> nat" where
  "alignof UINT8 = 1"
| "alignof UINT16 = 2"
| "alignof UINT32 = 4"
| "alignof (Array n t) = alignof t"
| "alignof (Struct fs) = alignof_fields fs"
| "alignof_fields [] = 1"
| "alignof_fields ((f, t) # fs) = max (alignof t) (alignof_fields fs)"

fun sizeof :: "ctype \<Rightarrow> nat" and end_fields :: "nat \<Rightarrow> (string \<times> ctype) list \<Rightarrow> nat" where
  "sizeof UINT8 = 1"
| "sizeof UINT16 = 2"
| "sizeof UINT32 = 4"
| "sizeof (Array n t) = n * sizeof t"
| "sizeof (Struct fs) = align_up (alignof_fields fs) (end_fields 0 fs)"
| "end_fields p [] = p"
| "end_fields p ((f, t) # fs) = end_fields (align_up (alignof t) p + sizeof t) fs"

fun field_offset :: "nat \<Rightarrow> (string \<times> ctype) list \<Rightarrow> string \<Rightarrow> nat option" where
  "field_offset p [] g = None"
| "field_offset p ((f, t) # fs) g =
     (if f = g then Some (align_up (alignof t) p)
      else field_offset (align_up (alignof t) p + sizeof t) fs g)"

fun offsetof :: "ctype \<Rightarrow> string \<Rightarrow> nat option" where
  "offsetof (Struct fs) g = field_offset 0 fs g"
| "offsetof _ g = None"

section \<open>The structures of ec_def.h\<close>

definition UALEVENT :: ctype where
  "UALEVENT = Struct
    [(''Byte'', Array 4 UINT8)]"

definition UALEVENTMASK :: ctype where
  "UALEVENTMASK = Struct
    [(''Word'', Array 2 UINT16)]"

definition TSYNCMAN :: ctype where
  "TSYNCMAN = Struct
    [(''sm_physical_addr'', UINT16), (''sm_length'', UINT16), (''sm_register_control'', UINT8),
     (''sm_register_status'', UINT8), (''sm_register_activate'', UINT8),
     (''sm_register_pdictl'', UINT8)]"

definition TEEPROM_DEF :: ctype where
  "TEEPROM_DEF = Struct
    [(''eeprom_config'', UINT8), (''eeprom_pdi_acstate'', UINT8),
     (''eeprom_ctl_status'', UINT16), (''eeprom_addr'', UINT32),
     (''eeprom_data'', Array 2 UINT32)]"

definition TMII :: ctype where
  "TMII = Struct
    [(''mii_ctl_status'', UINT16), (''mii_phy_addr'', UINT8), (''mii_phy_registeraddr'', UINT8),
     (''mii_phy_data'', UINT16)]"

definition TFMMU :: ctype where
  "TFMMU = Struct
    [(''logical_start_addr'', UINT32), (''length'', UINT16), (''logical_start_bit'', UINT8),
     (''logical_stop_bit'', UINT8), (''physical_start_bit'', UINT16),
     (''physical_stop_bit'', UINT8), (''type'', UINT8), (''activate'', UINT8),
     (''res'', Array 3 UINT8)]"

definition TDC :: ctype where
  "TDC = Struct
    [(''receive_port'', Array 4 UINT32), (''sys_time'', Array 2 UINT32),
     (''receive_time_pu'', Array 8 UINT8), (''sys_time_offset'', Array 2 UINT32),
     (''sys_time_delay'', UINT32), (''sys_time_diff'', UINT32), (''speed_cnt_start'', UINT16),
     (''speed_cnt_diff'', UINT16), (''sys_filter_depth'', UINT8), (''res27'', Array 37 UINT16),
     (''cyclic_unit_ctl'', UINT8), (''activation'', UINT8), (''pulse_length'', UINT16),
     (''res28'', Array 5 UINT16), (''sync0_status'', UINT8), (''sync1_status'', UINT8),
     (''start_time_cyclic'', Array 2 UINT32), (''next_sync1_pulse'', Array 2 UINT32),
     (''sync0_cyclic_time'', UINT32), (''sync1_cyclic_time'', UINT32), (''latch0_ctl'', UINT8),
     (''latch1_ctl'', UINT8), (''res29'', Array 2 UINT16), (''latch0_status'', UINT8),
     (''latch1_status'', UINT8), (''latch0_time_pedge'', Array 2 UINT32),
     (''latch0_time_nedge'', Array 2 UINT32), (''latch1_time_pedge'', Array 2 UINT32),
     (''latch1_time_nedge'', Array 2 UINT32), (''res30'', Array 16 UINT16),
     (''ecat_bchangee_time'', UINT32), (''res31'', Array 17 UINT16),
     (''pdi_bstarte_time'', UINT32), (''pdi_bchangee_time'', UINT32)]"

definition TESC_REG :: ctype where
  "TESC_REG = Struct
    [(''type'', UINT8), (''revision'', UINT8), (''build'', UINT16), (''fmmus_supported'', UINT8),
     (''sm_supported'', UINT8), (''ram_size'', UINT8), (''port_descriptor'', UINT8),
     (''esc_feature'', UINT16), (''res1'', Array 3 UINT16), (''station_addr'', UINT16),
     (''alias_addr'', UINT16), (''res2'', Array 6 UINT16), (''write_enable'', UINT8),
     (''write_protection'', UINT8), (''res3'', Array 7 UINT16), (''esc_wrenable'', UINT8),
     (''esc_wrprotection'', UINT8), (''res4'', Array 7 UINT16), (''esc_reset'', UINT8),
     (''res5'', Array 191 UINT8), (''esc_dlctl'', UINT32), (''res6'', Array 2 UINT16),
     (''physical_rdwr_offset'', UINT16), (''res7'', Array 3 UINT16), (''esc_dlstatus'', UINT16),
     (''res8'', Array 7 UINT16), (''al_ctl'', UINT16), (''res9'', Array 7 UINT16),
     (''al_status'', UINT16), (''res10'', UINT16), (''al_statuscode'', UINT16),
     (''res11'', Array 5 UINT16), (''pdi_ctl'', UINT16), (''res12'', Array 7 UINT16),
     (''pdi_config'', UINT32), (''res13'', Array 86 UINT16), (''ecat_interrupt_mask'', UINT16),
     (''res14'', UINT16), (''al_event_mask'', UALEVENTMASK), (''res15'', Array 4 UINT16),
     (''ecat_interrupt_request'', UINT16), (''res16'', Array 7 UINT16), (''AlEvent'', UALEVENT),
     (''res17'', Array 110 UINT16), (''rx_error_counter'', Array 4 UINT16),
     (''rx_error_cntforwarded'', Array 4 UINT8), (''ecat_pu_errorcnt'', UINT8),
     (''pdi_error_cnt'', UINT8), (''res18'', UINT16), (''lost_link_cnt'', Array 4 UINT8),
     (''res19'', Array 118 UINT16), (''watchdog_divider'', UINT16), (''res20'', Array 7 UINT16),
     (''watchdog_time_pdi'', UINT16), (''res21'', Array 7 UINT16),
     (''watchdog_time_pd'', UINT16), (''res22'', Array 15 UINT16),
     (''watchdog_status_pd'', UINT16), (''watchdog_cnt_pd'', UINT8),
     (''watchdog_cnt_pdi'', UINT8), (''res23'', Array 94 UINT16),
     (''eeprom_interface'', TEEPROM_DEF), (''mii_man'', TMII), (''res24'', Array 117 UINT16),
     (''fmmu_register'', Array 16 TFMMU), (''res25'', Array 128 UINT16),
     (''sm_register'', Array 8 TSYNCMAN), (''res26'', Array 64 UINT16), (''dc_register'', TDC),
     (''res32'', Array 512 UINT16), (''esc_specific_register'', UINT8),
     (''digital_io_outpd'', UINT32), (''res33'', Array 6 UINT16),
     (''general_purp_outputs'', UINT16), (''res34'', Array 3 UINT16),
     (''general_purp_inputs'', UINT16), (''res35'', Array 51 UINT16),
     (''user_ram'', Array 128 UINT8)]"

lemmas esc_structs = UALEVENT_def UALEVENTMASK_def TSYNCMAN_def TEEPROM_DEF_def TMII_def
  TFMMU_def TDC_def TESC_REG_def

lemma struct_sizes:
  "sizeof UALEVENT = 4" "sizeof UALEVENTMASK = 4" "sizeof TSYNCMAN = 8" "sizeof TEEPROM_DEF = 16"
  "sizeof TMII = 6" "sizeof TFMMU = 16" "sizeof TDC = 288"
  "alignof UALEVENT = 1" "alignof UALEVENTMASK = 2" "alignof TSYNCMAN = 2" "alignof TEEPROM_DEF = 4"
  "alignof TMII = 2" "alignof TFMMU = 4" "alignof TDC = 4"
  by (simp_all add: esc_structs align_up_def numeral_2_eq_2 [symmetric] del: One_nat_def)

lemma core_offsets:
  "offsetof TESC_REG ''build'' = Some 0x002" "offsetof TESC_REG ''sm_supported'' = Some 0x005"
  "offsetof TESC_REG ''al_ctl'' = Some 0x120" "offsetof TESC_REG ''al_status'' = Some 0x130"
  "offsetof TESC_REG ''al_statuscode'' = Some 0x134"
  "offsetof TESC_REG ''al_event_mask'' = Some 0x204" "offsetof TESC_REG ''AlEvent'' = Some 0x220"
  "offsetof TESC_REG ''sm_register'' = Some 0x800"
  unfolding TESC_REG_def by (simp_all add: struct_sizes align_up_def)

lemma dc_offsets:
  "offsetof TDC ''activation'' = Some 0x81" "offsetof TDC ''sync0_cyclic_time'' = Some 0xA0"
  "offsetof TESC_REG ''dc_register'' = Some 0x8C0"
  unfolding TDC_def TESC_REG_def by (simp_all add: struct_sizes align_up_def)

text \<open>
  The addresses at which \<open>main.c\<close> reaches the same registers: AL control, AL status and its
  code, the event mask and the event request, the number of sync managers, the sync managers,
  and the activation and cycle time registers of the distributed clocks.
\<close>

definition main_addresses :: "(string list \<times> nat) list" where
  "main_addresses =
     [([''sm_supported''], 0x005), ([''al_ctl''], 0x120), ([''al_status''], 0x130),
      ([''al_statuscode''], 0x134), ([''al_event_mask''], 0x204), ([''AlEvent''], 0x220),
      ([''sm_register''], 0x800),
      ([''dc_register'', ''activation''], 0x981), ([''dc_register'', ''sync0_cyclic_time''], 0x9A0)]"

text \<open>The address of a register given by the path of its members.\<close>

fun address_of :: "string list \<Rightarrow> nat option" where
  "address_of [f] = offsetof TESC_REG f"
| "address_of [f, g] =
     (case (offsetof TESC_REG f, offsetof TDC g) of
        (Some a, Some b) \<Rightarrow> if f = ''dc_register'' then Some (a + b) else None
      | _ \<Rightarrow> None)"
| "address_of _ = None"


end
