(* ===== verification/Spi_Link.thy ===== *)
theory Spi_Link
  imports Cnc_Prelude
begin

text \<open>
  The SPI link between the Nios II and the EtherCAT slave controller (ESC): the polling
  transaction \<open>alt_avalon_spi_command\<close> of the BSP, \<open>spi_tx_rx_8\<close> and the register accessors
  \<open>spi_read_8\<close> ... \<open>spi_write_16\<close> of \<open>main.c\<close>. The SPI core and the ESC are hardware: they are
  the parameter \<open>'h spi_hw\<close>. An accessor returns \<open>None\<close> when a polling loop never ends.
\<close>

section \<open>The SPI core\<close>

text \<open>
  Reads and writes of the registers of the core, and the passing of time during an empty
  counting loop.
\<close>

record 'h spi_hw =
  hw_rxdata :: "'h \<Rightarrow> u32 \<times> 'h"
  hw_status :: "'h \<Rightarrow> u32 \<times> 'h"
  hw_txdata :: "u32 \<Rightarrow> 'h \<Rightarrow> 'h"
  hw_control :: "u32 \<Rightarrow> 'h \<Rightarrow> 'h"
  hw_slave_sel :: "u32 \<Rightarrow> 'h \<Rightarrow> 'h"
  hw_spin :: "nat \<Rightarrow> 'h \<Rightarrow> 'h"

definition STATUS_TMT_MSK :: u32 where "STATUS_TMT_MSK = 0x20"
definition STATUS_TRDY_MSK :: u32 where "STATUS_TRDY_MSK = 0x40"
definition STATUS_RRDY_MSK :: u32 where "STATUS_RRDY_MSK = 0x80"
definition CONTROL_SSO_MSK :: u32 where "CONTROL_SSO_MSK = 0x400"
definition COMMAND_MERGE :: u32 where "COMMAND_MERGE = 1"
definition COMMAND_TOGGLE_SS_N :: u32 where "COMMAND_TOGGLE_SS_N = 2"

lemmas spi_masks = STATUS_TMT_MSK_def STATUS_TRDY_MSK_def STATUS_RRDY_MSK_def
  CONTROL_SSO_MSK_def COMMAND_MERGE_def COMMAND_TOGGLE_SS_N_def

section \<open>One transaction\<close>

text \<open>The two polling loops.\<close>

partial_function (option) poll_ready :: "'h spi_hw \<Rightarrow> int \<Rightarrow> 'h \<Rightarrow> (u32 \<times> 'h) option" where
  "poll_ready hw credits h =
    (let (status, h) = hw_status hw h
     in if (status AND STATUS_TRDY_MSK = 0 \<or> credits = 0) \<and> status AND STATUS_RRDY_MSK = 0
        then poll_ready hw credits h else Some (status, h))"

declare poll_ready.simps [code]

partial_function (option) poll_idle :: "'h spi_hw \<Rightarrow> 'h \<Rightarrow> 'h option" where
  "poll_idle hw h =
    (let (status, h) = hw_status hw h
     in if status AND STATUS_TMT_MSK = 0 then poll_idle hw h else Some h)"

declare poll_idle.simps [code]

text \<open>The variables of the main loop; \<open>got\<close> are the bytes stored through \<open>read_data\<close>.\<close>

record spi_xfer =
  to_write :: "u8 list"
  write_zeros :: nat
  read_ignore :: nat
  credits :: int
  got :: "u8 list"

definition spi_transmit :: "'h spi_hw \<Rightarrow> u32 \<Rightarrow> spi_xfer \<Rightarrow> 'h \<Rightarrow> spi_xfer \<times> 'h" where
  "spi_transmit hw status x h =
    (if status AND STATUS_TRDY_MSK \<noteq> 0 \<and> credits x > 0 then
       (let x = x\<lparr>credits := credits x - 1\<rparr>
        in case to_write x of
             b # bs \<Rightarrow> (x\<lparr>to_write := bs\<rparr>, hw_txdata hw (ucast b) h)
           | [] \<Rightarrow>
              if write_zeros x > 0
              then (x\<lparr>write_zeros := write_zeros x - 1\<rparr>, hw_txdata hw 0 h)
              else (x\<lparr>credits := - 1024\<rparr>, h))
     else (x, h))"

definition spi_receive :: "u32 \<Rightarrow> spi_xfer \<Rightarrow> spi_xfer" where
  "spi_receive rxdata x =
    (let x = (if read_ignore x > 0 then x\<lparr>read_ignore := read_ignore x - 1\<rparr>
              else x\<lparr>got := got x @ [ucast rxdata]\<rparr>)
     in x\<lparr>credits := credits x + 1\<rparr>)"

partial_function (option) spi_loop ::
  "'h spi_hw \<Rightarrow> nat \<Rightarrow> spi_xfer \<Rightarrow> 'h \<Rightarrow> (spi_xfer \<times> 'h) option" where
  "spi_loop hw read_length x h =
    Option.bind (poll_ready hw (credits x) h) (\<lambda>(status, h).
      let (x, h) = spi_transmit hw status x h
      in if status AND STATUS_RRDY_MSK \<noteq> 0 then
           (let (rxdata, h) = hw_rxdata hw h;
                x = spi_receive rxdata x
            in if read_ignore x = 0 \<and> length (got x) = read_length then Some (x, h)
               else spi_loop hw read_length x h)
         else spi_loop hw read_length x h)"

declare spi_loop.simps [code]

definition alt_avalon_spi_command ::
  "'h spi_hw \<Rightarrow> nat \<Rightarrow> u8 list \<Rightarrow> nat \<Rightarrow> u32 \<Rightarrow> 'h \<Rightarrow> (u8 list \<times> 'h) option" where
  "alt_avalon_spi_command hw slave write_data read_length flags h =
    do {
      let h = hw_slave_sel hw (push_bit slave 1) h;
      let h = (if flags AND COMMAND_TOGGLE_SS_N = 0 then hw_control hw CONTROL_SSO_MSK h else h);
      let h = snd (hw_rxdata hw h);
      (x, h) \<leftarrow> spi_loop hw read_length
        \<lparr>to_write = write_data, write_zeros = read_length, read_ignore = length write_data,
         credits = 1, got = []\<rparr> h;
      h \<leftarrow> poll_idle hw h;
      let h = (if flags AND COMMAND_MERGE = 0 then hw_control hw 0 h else h);
      Some (got x, h)
    }"

section \<open>The accessors of main.c\<close>

definition spi_tx_rx_8 :: "'h spi_hw \<Rightarrow> u8 \<Rightarrow> u8 \<Rightarrow> 'h \<Rightarrow> u8 \<times> 'h" where
  "spi_tx_rx_8 hw data hold_flag h =
    (let h = snd (hw_rxdata hw h);
         (status, h) = hw_status hw h;
         h = (if status AND STATUS_TRDY_MSK \<noteq> 0 then hw_txdata hw (ucast data) h else h);
         h = hw_spin hw 6 h;
         (status, h) = hw_status hw h;
         (rx_data, h) = (if status AND STATUS_RRDY_MSK \<noteq> 0
                         then (let (r, h) = hw_rxdata hw h in (ucast r, h)) else (0, h));
         h = (if hold_flag = 0 then hw_control hw 0 (hw_spin hw 5 h) else h)
     in (rx_data, h))"

text \<open>The address phase: the two command bytes, chip select kept.\<close>

definition spi_address :: "'h spi_hw \<Rightarrow> u16 \<Rightarrow> 'h \<Rightarrow> 'h option" where
  "spi_address hw temp h =
    do {
      let high = ucast (drop_bit 8 temp);
      let low = ucast temp;
      (_, h) \<leftarrow> alt_avalon_spi_command hw 0 [high] 0 1 h;
      (_, h) \<leftarrow> alt_avalon_spi_command hw 0 [low] 0 1 h;
      Some h
    }"

definition spi_read_8 :: "'h spi_hw \<Rightarrow> u16 \<Rightarrow> 'h \<Rightarrow> (u8 \<times> 'h) option" where
  "spi_read_8 hw address h =
    do {
      h \<leftarrow> spi_address hw (push_bit 3 address OR 0x02) h;
      Some (spi_tx_rx_8 hw 0xFF 0 h)
    }"

definition spi_read_16 :: "'h spi_hw \<Rightarrow> u16 \<Rightarrow> 'h \<Rightarrow> (u16 \<times> 'h) option" where
  "spi_read_16 hw address h =
    do {
      h \<leftarrow> spi_address hw (push_bit 3 address OR 0x02) h;
      let (result1, h) = spi_tx_rx_8 hw 0x00 1 h;
      let (result2, h) = spi_tx_rx_8 hw 0xFF 0 h;
      Some (push_bit 8 (ucast result2) OR ucast result1, h)
    }"

definition spi_read_32 :: "'h spi_hw \<Rightarrow> u16 \<Rightarrow> 'h \<Rightarrow> (u32 \<times> 'h) option" where
  "spi_read_32 hw address h =
    do {
      h \<leftarrow> spi_address hw (push_bit 3 address OR 0x02) h;
      let (result1, h) = spi_tx_rx_8 hw 0x00 1 h;
      let (result2, h) = spi_tx_rx_8 hw 0x00 1 h;
      let (result3, h) = spi_tx_rx_8 hw 0x00 1 h;
      let (result4, h) = spi_tx_rx_8 hw 0xFF 0 h;
      Some (push_bit 24 (ucast result4) OR push_bit 16 (ucast result3)
              OR push_bit 8 (ucast result2) OR ucast result1, h)
    }"

definition spi_write_8 :: "'h spi_hw \<Rightarrow> u16 \<Rightarrow> u8 \<Rightarrow> 'h \<Rightarrow> 'h option" where
  "spi_write_8 hw address data h =
    do {
      h \<leftarrow> spi_address hw (push_bit 3 address OR 0x04) h;
      (_, h) \<leftarrow> alt_avalon_spi_command hw 0 [data] 0 0 h;
      Some h
    }"

definition spi_write_16 :: "'h spi_hw \<Rightarrow> u16 \<Rightarrow> u16 \<Rightarrow> 'h \<Rightarrow> 'h option" where
  "spi_write_16 hw address data h =
    do {
      h \<leftarrow> spi_address hw (push_bit 3 address OR 0x04) h;
      let high = ucast (drop_bit 8 data);
      let low = ucast data;
      (_, h) \<leftarrow> alt_avalon_spi_command hw 0 [low] 0 1 h;
      (_, h) \<leftarrow> alt_avalon_spi_command hw 0 [high] 0 0 h;
      Some h
    }"

section \<open>The interface the protocol code uses\<close>

record 's esc_ops =
  rd8 :: "u16 \<Rightarrow> 's \<Rightarrow> (u8 \<times> 's) option"
  rd16 :: "u16 \<Rightarrow> 's \<Rightarrow> (u16 \<times> 's) option"
  rd32 :: "u16 \<Rightarrow> 's \<Rightarrow> (u32 \<times> 's) option"
  wr8 :: "u16 \<Rightarrow> u8 \<Rightarrow> 's \<Rightarrow> 's option"
  wr16 :: "u16 \<Rightarrow> u16 \<Rightarrow> 's \<Rightarrow> 's option"

definition spi_ops :: "'h spi_hw \<Rightarrow> 'h esc_ops" where
  "spi_ops hw = \<lparr>rd8 = spi_read_8 hw, rd16 = spi_read_16 hw, rd32 = spi_read_32 hw,
     wr8 = spi_write_8 hw, wr16 = spi_write_16 hw\<rparr>"

text \<open>Little-endian words.\<close>

definition word16 :: "u8 \<Rightarrow> u8 \<Rightarrow> u16" where
  "word16 lo hi = push_bit 8 (ucast hi) OR ucast lo"

definition word32 :: "u8 \<Rightarrow> u8 \<Rightarrow> u8 \<Rightarrow> u8 \<Rightarrow> u32" where
  "word32 b0 b1 b2 b3 = push_bit 24 (ucast b3) OR push_bit 16 (ucast b2) OR push_bit 8 (ucast b1) OR ucast b0"

text \<open>
  What the protocol code relies on: the accessors return, reads give the bytes of the memory
  in little-endian order, writes change exactly the bytes they name.
\<close>

locale esc_port =
  fixes E :: "'s esc_ops" and mem :: "'s \<Rightarrow> u16 \<Rightarrow> u8" and ready :: "'s \<Rightarrow> bool"
  assumes rd8_law: "ready s \<Longrightarrow> a < 0x2000 \<Longrightarrow>
      \<exists>s'. rd8 E a s = Some (mem s a, s') \<and> ready s' \<and> mem s' = mem s"
    and rd16_law: "ready s \<Longrightarrow> a < 0x2000 \<Longrightarrow>
      \<exists>s'. rd16 E a s = Some (word16 (mem s a) (mem s (a + 1)), s') \<and> ready s' \<and> mem s' = mem s"
    and rd32_law: "ready s \<Longrightarrow> a < 0x2000 \<Longrightarrow>
      \<exists>s'. rd32 E a s = Some (word32 (mem s a) (mem s (a + 1)) (mem s (a + 2)) (mem s (a + 3)), s')
        \<and> ready s' \<and> mem s' = mem s"
    and wr8_law: "ready s \<Longrightarrow> a < 0x2000 \<Longrightarrow>
      \<exists>s'. wr8 E a b s = Some s' \<and> ready s' \<and> mem s' = (mem s)(a := b)"
    and wr16_law: "ready s \<Longrightarrow> a < 0x2000 \<Longrightarrow>
      \<exists>s'. wr16 E a w s = Some s' \<and> ready s' \<and>
        mem s' = (mem s)(a := ucast w, a + 1 := ucast (drop_bit 8 w))"

end
