(* ===== verification/Ecat_Slave.thy ===== *)
theory Ecat_Slave
  imports Spi_Link
begin

text \<open>
  The EtherCAT slave application of \<open>qsys/software/ssc-io/main.c\<close> (the file of the same name
  one directory up is a copy): its globals (\<open>ec_def.h\<close>), the sync manager and interrupt mask
  helpers, the handlers of the state changes, the AL state machine, the process data, and the
  main loop. Every function takes the register accessors \<open>E\<close> of \<open>Spi_Link\<close>, so the statements
  about the globals hold for whatever the controller answers. \<open>None\<close> means that the call does
  not return, or writes outside an array.
\<close>

section \<open>Constants and globals\<close>

definition STATE_INIT :: u8 where "STATE_INIT = 0x01"
definition STATE_PREOP :: u8 where "STATE_PREOP = 0x02"
definition STATE_SAFEOP :: u8 where "STATE_SAFEOP = 0x04"
definition STATE_OP :: u8 where "STATE_OP = 0x08"
definition STATE_MASK :: u8 where "STATE_MASK = 0x0F"
definition STATE_CHANGE :: u8 where "STATE_CHANGE = 0x10"
definition STATE_ERRACK :: u8 where "STATE_ERRACK = 0x10"
definition STATE_ERROR :: u8 where "STATE_ERROR = 0x10"

definition MAILBOX_WRITE :: u8 where "MAILBOX_WRITE = 0"
definition MAILBOX_READ :: u8 where "MAILBOX_READ = 1"
definition PROCESS_DATA_OUT :: u8 where "PROCESS_DATA_OUT = 2"
definition PROCESS_DATA_IN :: u8 where "PROCESS_DATA_IN = 3"

definition AL_CONTROL_EVENT :: u16 where "AL_CONTROL_EVENT = 0x0001"
definition SYNC0_EVENT :: u16 where "SYNC0_EVENT = 0x0400"
definition SYNC1_EVENT :: u16 where "SYNC1_EVENT = 0x0800"
definition MAILBOX_WRITE_EVENT :: u16 where "MAILBOX_WRITE_EVENT = 0x0100"
definition PROCESS_OUTPUT_EVENT :: u16 where "PROCESS_OUTPUT_EVENT = 0x0400"
definition PROCESS_INPUT_EVENT :: u16 where "PROCESS_INPUT_EVENT = 0x0800"

definition ALSTATUSCODE_INVALIDALCONTROL :: u8 where "ALSTATUSCODE_INVALIDALCONTROL = 0x11"
definition ALSTATUSCODE_UNKNOWNALCONTROL :: u8 where "ALSTATUSCODE_UNKNOWNALCONTROL = 0x12"
definition ALSTATUSCODE_INVALIDMBXCFGINPRE :: u8 where "ALSTATUSCODE_INVALIDMBXCFGINPRE = 0x16"
definition NOERROR_NOSTATECHANGE :: u8 where "NOERROR_NOSTATECHANGE = 0xFE"
definition NOERROR_INWORK :: u8 where "NOERROR_INWORK = 0xFF"

definition ONE_BUFFER :: u8 where "ONE_BUFFER = 0x02"
definition SM_PDIDISABLE :: u8 where "SM_PDIDISABLE = 0x01"
definition DC_SYNC0_ACTIVE :: u8 where "DC_SYNC0_ACTIVE = 0x02"
definition DC_SYNC1_ACTIVE :: u8 where "DC_SYNC1_ACTIVE = 0x04"
definition DC_EVENT_MASK :: u16 where "DC_EVENT_MASK = 0x0002"
definition MAX_PD_OUTPUT_SIZE :: nat where "MAX_PD_OUTPUT_SIZE = 0x40"

lemmas al_states = STATE_INIT_def STATE_PREOP_def STATE_SAFEOP_def STATE_OP_def STATE_MASK_def
  STATE_CHANGE_def STATE_ERRACK_def STATE_ERROR_def

lemmas sm_channels = MAILBOX_WRITE_def MAILBOX_READ_def PROCESS_DATA_OUT_def PROCESS_DATA_IN_def

lemmas al_codes = ALSTATUSCODE_INVALIDALCONTROL_def ALSTATUSCODE_UNKNOWNALCONTROL_def
  ALSTATUSCODE_INVALIDMBXCFGINPRE_def NOERROR_NOSTATECHANGE_def NOERROR_INWORK_def

text \<open>
  \<open>bool\<close> for the \<open>BOOL\<close> flags, which only ever get \<open>TRUE\<close> or \<open>FALSE\<close>. \<open>dda_log\<close> and
  \<open>edge_cap_log\<close> are the values written to the two PIO registers, in order.
\<close>

record ecat =
  EscAlEvent :: u32
  nAlStatus :: u8
  nAlStatusFailed :: u8
  nAlStatusCode :: u16
  nAlControl :: u8
  nPdInputSize :: u16
  nPdOutputSize :: u16
  nEscAddrOutputData :: u16
  nEscAddrInputData :: u16
  m_maxsyncman :: u8
  m_mbxrunning :: bool
  m_pdooutrun :: bool
  m_pdoinrun :: bool
  bEscIntEnabled :: bool
  bEcatLocalError :: bool
  bEcatOutputUpdateRunning :: bool
  bDcSyncActive :: bool
  aPdOutputData :: "u8 list"
  dda_log :: "u32 list"
  edge_cap_log :: "u32 list"

text \<open>Static storage: zero, except \<open>bEcatLocalError\<close>, which \<open>ec_def.h\<close> initialises to \<open>TRUE\<close>.\<close>

definition ecat_globals :: ecat where
  "ecat_globals = \<lparr>EscAlEvent = 0, nAlStatus = 0, nAlStatusFailed = 0, nAlStatusCode = 0,
     nAlControl = 0, nPdInputSize = 0, nPdOutputSize = 0, nEscAddrOutputData = 0,
     nEscAddrInputData = 0, m_maxsyncman = 0, m_mbxrunning = False, m_pdooutrun = False,
     m_pdoinrun = False, bEscIntEnabled = False, bEcatLocalError = True,
     bEcatOutputUpdateRunning = False, bDcSyncActive = False,
     aPdOutputData = replicate MAX_PD_OUTPUT_SIZE 0, dda_log = [], edge_cap_log = []\<rparr>"

section \<open>Process data\<close>

text \<open>
  The loop of \<open>readoutputdata\<close> from index \<open>i\<close>: \<open>n\<close> bytes are left. The array has
  \<open>MAX_PD_OUTPUT_SIZE\<close> bytes; the code does not check the index.
\<close>

primrec read_output_loop ::
  "'s esc_ops \<Rightarrow> nat \<Rightarrow> nat \<Rightarrow> u16 \<Rightarrow> u8 list \<Rightarrow> 's \<Rightarrow> (u8 list \<times> 's) option" where
  "read_output_loop E 0 i address buf s = Some (buf, s)"
| "read_output_loop E (Suc n) i address buf s =
     do {
       (v, s) \<leftarrow> rd8 E address s;
       if i < MAX_PD_OUTPUT_SIZE
       then read_output_loop E n (Suc i) (address + 1) (buf[i := v]) s
       else None
     }"

definition readoutputdata :: "'s esc_ops \<Rightarrow> ecat \<Rightarrow> 's \<Rightarrow> (u32 \<times> ecat \<times> 's) option" where
  "readoutputdata E g s =
    do {
      (buf, s) \<leftarrow> read_output_loop E (unat (nPdOutputSize g)) 0 (nEscAddrOutputData g) (aPdOutputData g) s;
      let tmp = (ucast (buf ! 0) + push_bit 8 (ucast (buf ! 1)) + push_bit 16 (ucast (buf ! 2))
                 + push_bit 24 (ucast (buf ! 3)) :: u32);
      Some (tmp, g\<lparr>aPdOutputData := buf\<rparr>, s)
    }"

primrec write_input_loop :: "'s esc_ops \<Rightarrow> nat \<Rightarrow> nat \<Rightarrow> u16 \<Rightarrow> 's \<Rightarrow> 's option" where
  "write_input_loop E 0 i address s = Some s"
| "write_input_loop E (Suc n) i address s =
     do {
       s \<leftarrow> wr8 E address (if i = 0 then 0x11 else if i = 1 then 0x22 else if i = 2 then 0x33
                           else if i = 3 then 0x44 else 0) s;
       write_input_loop E n (Suc i) (address + 1) s
     }"

definition writeinputdata :: "'s esc_ops \<Rightarrow> ecat \<Rightarrow> 's \<Rightarrow> 's option" where
  "writeinputdata E g s = write_input_loop E (unat (nPdInputSize g)) 0 (nEscAddrInputData g) s"

section \<open>Sync managers and the interrupt mask\<close>

record tsyncman =
  sm_physical_addr :: u16
  sm_length :: u16
  sm_register_control :: u8
  sm_register_status :: u8
  sm_register_activate :: u8
  sm_register_pdictl :: u8

definition sm_address :: "u8 \<Rightarrow> u16" where
  "sm_address channel = 0x0800 + ucast channel * 0x08"

definition get_sm :: "'s esc_ops \<Rightarrow> u8 \<Rightarrow> 's \<Rightarrow> (tsyncman \<times> 's) option" where
  "get_sm E channel s =
    do {
      let address = sm_address channel;
      (addr, s) \<leftarrow> rd16 E address s;
      (len, s) \<leftarrow> rd16 E (address + 2) s;
      (control, s) \<leftarrow> rd8 E (address + 4) s;
      (status, s) \<leftarrow> rd8 E (address + 5) s;
      (activate, s) \<leftarrow> rd8 E (address + 6) s;
      (pdictl, s) \<leftarrow> rd8 E (address + 7) s;
      Some (\<lparr>sm_physical_addr = addr, sm_length = len, sm_register_control = control,
        sm_register_status = status, sm_register_activate = activate,
        sm_register_pdictl = pdictl\<rparr>, s)
    }"

definition set_intmask :: "'s esc_ops \<Rightarrow> u16 \<Rightarrow> 's \<Rightarrow> 's option" where
  "set_intmask E intMask s =
    do { (mask, s) \<leftarrow> rd16 E 0x0204 s; wr16 E 0x0204 (mask OR intMask) s }"

definition reset_intmask :: "'s esc_ops \<Rightarrow> u16 \<Rightarrow> 's \<Rightarrow> 's option" where
  "reset_intmask E intMask s =
    do { (mask, s) \<leftarrow> rd16 E 0x0204 s; wr16 E 0x0204 (mask AND intMask) s }"

definition enable_syncmanchannel :: "'s esc_ops \<Rightarrow> u8 \<Rightarrow> 's \<Rightarrow> 's option" where
  "enable_syncmanchannel E channel s =
    do {
      let address = sm_address channel;
      (temp, s) \<leftarrow> rd8 E (address + 7) s;
      wr8 E (address + 7) (temp AND NOT SM_PDIDISABLE) s
    }"

definition disable_syncmanchannel :: "'s esc_ops \<Rightarrow> u8 \<Rightarrow> 's \<Rightarrow> 's option" where
  "disable_syncmanchannel E channel s =
    do {
      let address = sm_address channel;
      (temp, s) \<leftarrow> rd8 E (address + 7) s;
      wr8 E (address + 7) (temp OR SM_PDIDISABLE) s
    }"

definition SetAlStatus :: "'s esc_ops \<Rightarrow> u16 \<Rightarrow> u16 \<Rightarrow> 's \<Rightarrow> 's option" where
  "SetAlStatus E alstatus alstatuscode s =
    do {
      s \<leftarrow> wr16 E 0x0130 alstatus s;
      if alstatuscode \<noteq> 0xFF then wr16 E 0x0134 alstatuscode s else Some s
    }"

definition checksmsettings :: "u8 \<Rightarrow> u8" where
  "checksmsettings maxChannel = 0"

section \<open>Handlers of the state changes\<close>

definition mbx_startmailboxhandler :: "'s esc_ops \<Rightarrow> ecat \<Rightarrow> 's \<Rightarrow> (u8 \<times> ecat \<times> 's) option" where
  "mbx_startmailboxhandler E g s =
    do {
      (_, s) \<leftarrow> get_sm E MAILBOX_WRITE s;
      (_, s) \<leftarrow> get_sm E MAILBOX_READ s;
      s \<leftarrow> enable_syncmanchannel E MAILBOX_WRITE s;
      s \<leftarrow> enable_syncmanchannel E MAILBOX_READ s;
      Some (0, g\<lparr>m_mbxrunning := True\<rparr>, s)
    }"

text \<open>
  \<open>pdo_startinputhandler\<close> in three parts: the addresses and sizes of the process data, the
  distributed clocks, and the channels with the event mask.
\<close>

definition startinput_sizes :: "'s esc_ops \<Rightarrow> ecat \<Rightarrow> 's \<Rightarrow> (ecat \<times> 's) option" where
  "startinput_sizes E g s =
    do {
      (out, s) \<leftarrow> get_sm E PROCESS_DATA_OUT s;
      let g = g\<lparr>nEscAddrOutputData := sm_physical_addr out, nPdOutputSize := sm_length out\<rparr>;
      (inp, s) \<leftarrow> get_sm E PROCESS_DATA_IN s;
      Some (g\<lparr>nEscAddrInputData := sm_physical_addr inp, nPdInputSize := sm_length inp\<rparr>, s)
    }"

definition startinput_clock :: "'s esc_ops \<Rightarrow> ecat \<Rightarrow> 's \<Rightarrow> (u16 \<times> ecat \<times> 's) option" where
  "startinput_clock E g s =
    do {
      (dcControl, s) \<leftarrow> rd8 E 0x0981 s;
      if dcControl AND (DC_SYNC0_ACTIVE OR DC_SYNC1_ACTIVE) \<noteq> 0
      then do {
        (cycleTime, s) \<leftarrow> rd32 E 0x09A0 s;
        Some (DC_EVENT_MASK, g\<lparr>bDcSyncActive := True\<rparr>, s)
      }
      else Some (0, g, s)
    }"

definition startinput_channels :: "'s esc_ops \<Rightarrow> u16 \<Rightarrow> ecat \<Rightarrow> 's \<Rightarrow> (ecat \<times> 's) option" where
  "startinput_channels E intMask g s =
    do {
      let intMask = (if nPdOutputSize g \<noteq> 0 then intMask OR PROCESS_OUTPUT_EVENT
                     else intMask OR PROCESS_INPUT_EVENT);
      (g, s) \<leftarrow>
        (if nPdInputSize g > 0
         then do {
           s \<leftarrow> enable_syncmanchannel E PROCESS_DATA_IN s;
           Some (g\<lparr>m_pdoinrun := True\<rparr>, s)
         }
         else Some (g, s));
      (g, s) \<leftarrow>
        (if nPdOutputSize g > 0
         then do {
           s \<leftarrow> (if \<not> bEcatLocalError g then enable_syncmanchannel E PROCESS_DATA_OUT s else Some s);
           Some (g\<lparr>m_pdooutrun := True\<rparr>, s)
         }
         else Some (g, s));
      s \<leftarrow> set_intmask E intMask s;
      Some (g, s)
    }"

definition pdo_startinputhandler :: "'s esc_ops \<Rightarrow> ecat \<Rightarrow> 's \<Rightarrow> (u8 \<times> ecat \<times> 's) option" where
  "pdo_startinputhandler E g s =
    do {
      (g, s) \<leftarrow> startinput_sizes E g s;
      if nPdInputSize g = 0 then Some (0, g, s)
      else do {
        (intMask, g, s) \<leftarrow> startinput_clock E g s;
        (g, s) \<leftarrow> startinput_channels E intMask g s;
        Some (0, g, s)
      }
    }"

text \<open>
  \<open>result\<close> is 0 throughout, so \<open>result == 0 || NOERROR_INWORK\<close> is true and the branch on
  \<open>result != 0\<close> is written out as in the code.
\<close>

definition pdo_startoutputhandler :: "'s esc_ops \<Rightarrow> ecat \<Rightarrow> 's \<Rightarrow> (u8 \<times> ecat \<times> 's) option" where
  "pdo_startoutputhandler E g s =
    (let result = 0 :: u16
     in if nPdOutputSize g > 0 then
          do {
            (g, s) \<leftarrow>
              (if bEcatLocalError g \<and> (result = 0 \<or> NOERROR_INWORK \<noteq> 0)
               then do {
                 s \<leftarrow> enable_syncmanchannel E PROCESS_DATA_OUT s;
                 Some (g\<lparr>bEcatLocalError := False\<rparr>, s)
               }
               else Some (g, s));
            if result \<noteq> 0 then
              Some (ucast result, if result \<noteq> ucast NOERROR_INWORK then g\<lparr>bEcatLocalError := True\<rparr> else g, s)
            else Some (0, g\<lparr>m_pdooutrun := True, bEcatOutputUpdateRunning := True\<rparr>, s)
          }
        else Some (0, g\<lparr>bEcatOutputUpdateRunning := True\<rparr>, s))"

definition mbx_stopmailboxhandler :: "'s esc_ops \<Rightarrow> ecat \<Rightarrow> 's \<Rightarrow> (ecat \<times> 's) option" where
  "mbx_stopmailboxhandler E g s =
    do {
      let g = g\<lparr>m_mbxrunning := False\<rparr>;
      s \<leftarrow> disable_syncmanchannel E MAILBOX_WRITE s;
      s \<leftarrow> disable_syncmanchannel E MAILBOX_READ s;
      Some (g, s)
    }"

definition pdo_stopinputhandler :: "'s esc_ops \<Rightarrow> ecat \<Rightarrow> 's \<Rightarrow> (u8 \<times> ecat \<times> 's) option" where
  "pdo_stopinputhandler E g s =
    do {
      s \<leftarrow> disable_syncmanchannel E PROCESS_DATA_OUT s;
      s \<leftarrow> reset_intmask E (NOT (SYNC0_EVENT OR SYNC1_EVENT OR PROCESS_INPUT_EVENT OR PROCESS_OUTPUT_EVENT)) s;
      let g = g\<lparr>bEscIntEnabled := False, m_pdoinrun := False\<rparr>;
      s \<leftarrow> disable_syncmanchannel E PROCESS_DATA_IN s;
      Some (0, g, s)
    }"

definition pdo_stopoutputhandler :: "ecat \<Rightarrow> u8 \<times> ecat" where
  "pdo_stopoutputhandler g = (0, g\<lparr>bEcatOutputUpdateRunning := False\<rparr>)"

section \<open>The AL state machine\<close>

definition trans :: "u8 \<Rightarrow> u8 \<Rightarrow> u8" where
  "trans from to = push_bit 4 from OR to"

definition stop_input_output :: "'s esc_ops \<Rightarrow> ecat \<Rightarrow> 's \<Rightarrow> (u8 \<times> ecat \<times> 's) option" where
  "stop_input_output E g s =
    do {
      (result, g, s) \<leftarrow> pdo_stopinputhandler E g s;
      if result \<noteq> 0 then Some (result, g, s)
      else (let (result, g) = pdo_stopoutputhandler g in Some (result, g, s))
    }"

text \<open>The first switch: which sync manager settings are checked.\<close>

definition al_check :: "u8 \<Rightarrow> ecat \<Rightarrow> u8" where
  "al_check statetrans g =
    (if statetrans \<in> {trans STATE_INIT STATE_PREOP, trans STATE_OP STATE_PREOP,
                      trans STATE_SAFEOP STATE_PREOP, trans STATE_PREOP STATE_PREOP}
     then checksmsettings (MAILBOX_READ + 1)
     else if statetrans \<in> {trans STATE_PREOP STATE_SAFEOP, trans STATE_SAFEOP STATE_OP,
                      trans STATE_OP STATE_SAFEOP, trans STATE_SAFEOP STATE_SAFEOP,
                      trans STATE_OP STATE_OP}
     then checksmsettings (m_maxsyncman g)
     else 0)"

text \<open>The second switch, with its fall-throughs.\<close>

definition al_switch :: "'s esc_ops \<Rightarrow> u8 \<Rightarrow> ecat \<Rightarrow> 's \<Rightarrow> (u8 \<times> ecat \<times> 's) option" where
  "al_switch E statetrans g s =
    (if statetrans = trans STATE_INIT STATE_PREOP then mbx_startmailboxhandler E g s
     else if statetrans = trans STATE_PREOP STATE_SAFEOP then pdo_startinputhandler E g s
     else if statetrans = trans STATE_SAFEOP STATE_OP then pdo_startoutputhandler E g s
     else if statetrans \<in> {trans STATE_OP STATE_INIT, trans STATE_SAFEOP STATE_INIT,
                           trans STATE_PREOP STATE_INIT}
     then do { (g, s) \<leftarrow> mbx_stopmailboxhandler E g s; stop_input_output E g s }
     else if statetrans \<in> {trans STATE_OP STATE_PREOP, trans STATE_SAFEOP STATE_PREOP}
     then stop_input_output E g s
     else if statetrans = trans STATE_OP STATE_SAFEOP
     then (let (result, g) = pdo_stopoutputhandler g in Some (result, g, s))
     else if statetrans \<in> {trans STATE_INIT STATE_INIT, trans STATE_PREOP STATE_PREOP,
                           trans STATE_SAFEOP STATE_SAFEOP, trans STATE_OP STATE_OP}
     then Some (NOERROR_NOSTATECHANGE, g, s)
     else if statetrans \<in> {trans STATE_INIT STATE_SAFEOP, trans STATE_INIT STATE_OP,
                           trans STATE_PREOP STATE_OP}
     then Some (ALSTATUSCODE_INVALIDALCONTROL, g, s)
     else Some (ALSTATUSCODE_UNKNOWNALCONTROL, g, s))"

text \<open>The branch for bad sync manager settings.\<close>

definition al_bad_settings :: "'s esc_ops \<Rightarrow> u8 \<Rightarrow> ecat \<Rightarrow> 's \<Rightarrow> (ecat \<times> 's) option" where
  "al_bad_settings E result g s =
    (let preop = (\<lambda>g s. if result = ALSTATUSCODE_INVALIDMBXCFGINPRE
                        then do { (g, s) \<leftarrow> mbx_stopmailboxhandler E g s; Some (g\<lparr>nAlStatus := STATE_INIT\<rparr>, s) }
                        else Some (g\<lparr>nAlStatus := STATE_PREOP\<rparr>, s))
     in if nAlStatus g = STATE_OP then Some (snd (pdo_stopoutputhandler g), s)
        else if nAlStatus g = STATE_SAFEOP
        then do { (_, g, s) \<leftarrow> pdo_stopinputhandler E g s; preop g s }
        else if nAlStatus g = STATE_PREOP then preop g s
        else Some (g, s))"

text \<open>The last part: the status and its code.\<close>

definition al_finish :: "'s esc_ops \<Rightarrow> u16 \<Rightarrow> u8 \<Rightarrow> ecat \<Rightarrow> 's \<Rightarrow> (ecat \<times> 's) option" where
  "al_finish E alcontrolvar result g s =
    (if ucast alcontrolvar \<noteq> nAlStatus g AND STATE_MASK then
       (let (result, g) =
          (if result \<noteq> 0
           then (result, g\<lparr>nAlStatusFailed := nAlStatus g, nAlStatus := nAlStatus g OR STATE_CHANGE\<rparr>)
           else if nAlStatusCode g \<noteq> 0
           then (ucast (nAlStatusCode g),
                 g\<lparr>nAlStatusFailed := ucast alcontrolvar,
                   nAlStatus := ucast (alcontrolvar OR ucast STATE_CHANGE)\<rparr>)
           else if alcontrolvar \<le> ucast (nAlStatusFailed g)
           then (0xFF, g\<lparr>nAlStatus := ucast alcontrolvar\<rparr>)
           else (result, g\<lparr>nAlStatusFailed := 0, nAlStatus := ucast alcontrolvar\<rparr>))
        in do {
          s \<leftarrow> SetAlStatus E (ucast (nAlStatus g)) (ucast result) s;
          Some (g\<lparr>nAlStatusCode := 0\<rparr>, s)
        })
     else do {
       s \<leftarrow> SetAlStatus E (ucast (nAlStatus g)) 0xFF s;
       Some (g, s)
     })"

definition al_transition :: "'s esc_ops \<Rightarrow> u16 \<Rightarrow> ecat \<Rightarrow> 's \<Rightarrow> (ecat \<times> 's) option" where
  "al_transition E alcontrolvar g s =
    (let alcontrolvar = alcontrolvar AND ucast STATE_MASK;
         statetrans = push_bit 4 (nAlStatus g) + ucast alcontrolvar;
         result = al_check statetrans g
     in if result = 0
        then do { (result, g, s) \<leftarrow> al_switch E statetrans g s; al_finish E alcontrolvar result g s }
        else do { (g, s) \<leftarrow> al_bad_settings E result g s; al_finish E alcontrolvar result g s })"

definition al_statemachine :: "'s esc_ops \<Rightarrow> u16 \<Rightarrow> ecat \<Rightarrow> 's \<Rightarrow> (ecat \<times> 's) option" where
  "al_statemachine E alcontrolvar g s =
    (if alcontrolvar AND ucast STATE_ERRACK \<noteq> 0
     then al_transition E alcontrolvar (g\<lparr>nAlStatus := nAlStatus g AND NOT STATE_ERROR\<rparr>) s
     else if nAlStatus g AND STATE_ERROR \<noteq> 0 \<and>
             ucast alcontrolvar AND STATE_MASK > nAlStatus g AND STATE_MASK
     then Some (g, s)
     else al_transition E alcontrolvar g s)"

section \<open>Start-up\<close>

text \<open>The self test repeats each access until it reads back what it expects.\<close>

partial_function (option) rw_test_8 :: "'s esc_ops \<Rightarrow> 's \<Rightarrow> 's option" where
  "rw_test_8 E s =
    Option.bind (wr8 E 0x0204 1 s) (\<lambda>s.
    Option.bind (rd8 E 0x0204 s) (\<lambda>(intMask1, s).
      if intMask1 \<noteq> 1 then rw_test_8 E s else Some s))"

declare rw_test_8.simps [code]

partial_function (option) rw_test_16 :: "'s esc_ops \<Rightarrow> 's \<Rightarrow> 's option" where
  "rw_test_16 E s =
    Option.bind (wr16 E 0x0204 0x93 s) (\<lambda>s.
    Option.bind (rd16 E 0x0204 s) (\<lambda>(intMask2, s).
      if intMask2 \<noteq> 0x93 then rw_test_16 E s else Some s))"

declare rw_test_16.simps [code]

partial_function (option) r_test_32 :: "'s esc_ops \<Rightarrow> 's \<Rightarrow> 's option" where
  "r_test_32 E s =
    Option.bind (rd32 E 0x0004 s) (\<lambda>(info, s).
      if info \<noteq> 0x0f080808 then r_test_32 E s else Some s)"

declare r_test_32.simps [code]

definition rw_test :: "'s esc_ops \<Rightarrow> 's \<Rightarrow> 's option" where
  "rw_test E s = do { s \<leftarrow> rw_test_8 E s; s \<leftarrow> rw_test_16 E s; r_test_32 E s }"

partial_function (option) read_maxsyncman :: "'s esc_ops \<Rightarrow> 's \<Rightarrow> (u8 \<times> 's) option" where
  "read_maxsyncman E s =
    Option.bind (rd8 E 0x0005 s) (\<lambda>(n, s). if n = 0 then read_maxsyncman E s else Some (n, s))"

declare read_maxsyncman.simps [code]

definition ECAT_init :: "'s esc_ops \<Rightarrow> ecat \<Rightarrow> 's \<Rightarrow> (ecat \<times> 's) option" where
  "ECAT_init E g s =
    do {
      s \<leftarrow> rw_test E s;
      s \<leftarrow> wr16 E 0x0204 0x0000 s;
      s \<leftarrow> wr16 E 0x0206 0x0000 s;
      (n, s) \<leftarrow> read_maxsyncman E s;
      let g = g\<lparr>m_maxsyncman := n, nAlStatus := STATE_INIT\<rparr>;
      s \<leftarrow> SetAlStatus E (ucast (nAlStatus g)) 0 s;
      Some (g\<lparr>nPdInputSize := 0, nPdOutputSize := 0, bEscIntEnabled := False\<rparr>, s)
    }"

section \<open>The main loop\<close>

definition dda_out :: "u32 \<Rightarrow> ecat \<Rightarrow> ecat" where
  "dda_out data g = g\<lparr>dda_log := dda_log g @ [data]\<rparr>"

definition output_event :: "ecat \<Rightarrow> bool" where
  "output_event g \<longleftrightarrow>
     ucast (drop_bit 8 (EscAlEvent g)) AND (ucast (drop_bit 8 PROCESS_OUTPUT_EVENT) :: u8) \<noteq> 0"

text \<open>\<open>pdi_irq\<close> reads \<open>tmp\<close> uninitialised when outputs are not running: \<open>junk\<close> is what the
  register or stack slot holds. \<open>free_run\<close> starts from 0.\<close>

definition exchange_process_data ::
  "'s esc_ops \<Rightarrow> u32 \<Rightarrow> ecat \<Rightarrow> 's \<Rightarrow> (ecat \<times> 's) option" where
  "exchange_process_data E tmp g s =
    do {
      (tmp, g, s) \<leftarrow> (if bEcatOutputUpdateRunning g then readoutputdata E g s else Some (tmp, g, s));
      s \<leftarrow> writeinputdata E g s;
      Some (dda_out tmp g, s)
    }"

definition free_run :: "'s esc_ops \<Rightarrow> ecat \<Rightarrow> 's \<Rightarrow> (ecat \<times> 's) option" where
  "free_run E g s = (if output_event g then exchange_process_data E 0 g s else Some (g, s))"

definition pdi_irq :: "'s esc_ops \<Rightarrow> u32 \<Rightarrow> ecat \<Rightarrow> 's \<Rightarrow> (ecat \<times> 's) option" where
  "pdi_irq E junk g s =
    do {
      (g, s) \<leftarrow> (if output_event g then exchange_process_data E junk g s else Some (g, s));
      Some (g\<lparr>edge_cap_log := edge_cap_log g @ [0xff]\<rparr>, s)
    }"

text \<open>\<open>mb_process\<close> is empty.\<close>

definition mb_process :: "ecat \<Rightarrow> ecat" where
  "mb_process g = g"

definition al_event :: "'s esc_ops \<Rightarrow> ecat \<Rightarrow> 's \<Rightarrow> (ecat \<times> 's) option" where
  "al_event E g s =
    do {
      (ev, s) \<leftarrow> rd32 E 0x0220 s;
      let g = g\<lparr>EscAlEvent := ev\<rparr>;
      (g, s) \<leftarrow>
        (if ucast (ucast (EscAlEvent g) :: u8) AND AL_CONTROL_EVENT \<noteq> 0
         then do {
           (alcontrol, s) \<leftarrow> rd16 E 0x0120 s;
           let g = g\<lparr>nAlControl := ucast alcontrol\<rparr>;
           al_statemachine E alcontrol g s
         }
         else Some (g, s));
      Some (if m_mbxrunning g \<and>
               ucast (drop_bit 8 (EscAlEvent g)) AND (ucast (drop_bit 8 MAILBOX_WRITE_EVENT) :: u8) \<noteq> 0
            then mb_process g else g, s)
    }"

text \<open>\<open>main\<close>: before the loop, and one round of it. \<open>HW_init\<close> does nothing.\<close>

definition main_start :: "'s esc_ops \<Rightarrow> 's \<Rightarrow> (ecat \<times> 's) option" where
  "main_start E s =
    do { (g, s) \<leftarrow> ECAT_init E ecat_globals s; Some (dda_out 1 g, s) }"

definition main_round :: "'s esc_ops \<Rightarrow> ecat \<Rightarrow> 's \<Rightarrow> (ecat \<times> 's) option" where
  "main_round E g s =
    do {
      (ev, s) \<leftarrow> rd32 E 0x0220 s;
      let g = g\<lparr>EscAlEvent := ev\<rparr>;
      (g, s) \<leftarrow> (if \<not> bEscIntEnabled g then free_run E g s else Some (g, s));
      al_event E g s
    }"

text \<open>
  The program's life: between two rounds the controller's memory changes as the master and
  the hardware please.
\<close>

inductive main_reach :: "'s esc_ops \<Rightarrow> ecat \<Rightarrow> 's \<Rightarrow> bool" for E where
  reach_start: "main_start E s0 = Some (g, s) \<Longrightarrow> main_reach E g s"
| reach_env: "main_reach E g s \<Longrightarrow> main_reach E g s'"
| reach_round: "main_reach E g s \<Longrightarrow> main_round E g s = Some (g', s') \<Longrightarrow> main_reach E g' s'"

end
