(* ===== verification/Spi_Core.thy ===== *)
theory Spi_Core
  imports Spi_Link
begin

text \<open>
  A simulated SPI core for \<open>alt_avalon_spi_command\<close>, with any slave behind it: the core needs some
  status reads to shift a byte (its latency), the slave answers each byte while it is shifted in
  and hears when it is deselected. On this core a transaction of the driver returns for every
  latency, shifts exactly the bytes it was given and then zeros, in order, and delivers the
  replies to the zeros; a transaction without a byte never returns.
\<close>

section \<open>The hardware\<close>

record 'c spi_slave =
  exchange :: "u8 \<Rightarrow> 'c \<Rightarrow> u8 \<times> 'c"
  deselect :: "'c \<Rightarrow> 'c"

record 'c spi_core =
  chip :: 'c
  sso :: bool
  shifting :: "u8 option"
  countdown :: nat
  rxreg :: u8
  rrdy :: bool
  latency :: nat

text \<open>One status read: a byte on its way gets closer to its end, or arrives.\<close>

definition advance :: "'c spi_slave \<Rightarrow> 'c spi_core \<Rightarrow> 'c spi_core" where
  "advance sl h =
    (case shifting h of
       None \<Rightarrow> h
     | Some b \<Rightarrow>
         if countdown h > 0 then h\<lparr>countdown := countdown h - 1\<rparr>
         else (let (r, c) = exchange sl b (chip h)
               in h\<lparr>chip := (if sso h then c else deselect sl c), shifting := None,
                    rxreg := r, rrdy := True\<rparr>))"

definition sim_bits :: "'c spi_core \<Rightarrow> u32" where
  "sim_bits h = (if shifting h = None then STATUS_TRDY_MSK OR STATUS_TMT_MSK else 0)
     OR (if rrdy h then STATUS_RRDY_MSK else 0)"

definition core_hw :: "'c spi_slave \<Rightarrow> 'c spi_core spi_hw" where
  "core_hw sl = \<lparr>hw_rxdata = (\<lambda>h. (ucast (rxreg h), h\<lparr>rrdy := False\<rparr>)),
     hw_status = (\<lambda>h. (sim_bits (advance sl h), advance sl h)),
     hw_txdata = (\<lambda>v h. if shifting h = None
       then h\<lparr>shifting := Some (ucast v), countdown := latency h\<rparr> else h),
     hw_control = (\<lambda>v h. if v AND CONTROL_SSO_MSK \<noteq> 0 then h\<lparr>sso := True\<rparr>
       else h\<lparr>sso := False, chip := (if shifting h = None then deselect sl (chip h) else chip h)\<rparr>),
     hw_slave_sel = (\<lambda>_ h. h),
     hw_spin = (\<lambda>n h. (advance sl ^^ n) h)\<rparr>"

lemma core_hw_simps [simp]:
  "hw_rxdata (core_hw sl) h = (ucast (rxreg h), h\<lparr>rrdy := False\<rparr>)"
  "hw_status (core_hw sl) h = (sim_bits (advance sl h), advance sl h)"
  "hw_txdata (core_hw sl) v h = (if shifting h = None
       then h\<lparr>shifting := Some (ucast v), countdown := latency h\<rparr> else h)"
  "hw_control (core_hw sl) v h = (if v AND CONTROL_SSO_MSK \<noteq> 0 then h\<lparr>sso := True\<rparr>
       else h\<lparr>sso := False, chip := (if shifting h = None then deselect sl (chip h) else chip h)\<rparr>)"
  "hw_slave_sel (core_hw sl) v h = h"
  "hw_spin (core_hw sl) n h = (advance sl ^^ n) h"
  by (simp_all add: core_hw_def)

text \<open>The core between two transfers, and with a byte on its way.\<close>

definition idle :: "'c \<Rightarrow> bool \<Rightarrow> nat \<Rightarrow> u8 \<Rightarrow> bool \<Rightarrow> nat \<Rightarrow> 'c spi_core" where
  "idle c s L rx rr w = \<lparr>chip = c, sso = s, shifting = None, countdown = w, rxreg = rx, rrdy = rr, latency = L\<rparr>"

definition busy :: "'c \<Rightarrow> bool \<Rightarrow> nat \<Rightarrow> u8 \<Rightarrow> u8 \<Rightarrow> nat \<Rightarrow> 'c spi_core" where
  "busy c s L rx b w = \<lparr>chip = c, sso = s, shifting = Some b, countdown = w, rxreg = rx, rrdy = False, latency = L\<rparr>"

lemma mask_facts [simp]:
  "STATUS_TRDY_MSK AND STATUS_RRDY_MSK = 0" "STATUS_TRDY_MSK \<noteq> 0" "STATUS_RRDY_MSK \<noteq> 0"
  "STATUS_TMT_MSK \<noteq> 0"
  "(STATUS_TRDY_MSK OR STATUS_TMT_MSK) AND STATUS_TRDY_MSK \<noteq> 0"
  "(STATUS_TRDY_MSK OR STATUS_TMT_MSK) AND STATUS_TMT_MSK \<noteq> 0"
  "(STATUS_TRDY_MSK OR STATUS_TMT_MSK) AND STATUS_RRDY_MSK = 0"
  "(STATUS_TRDY_MSK OR STATUS_TMT_MSK OR STATUS_RRDY_MSK) AND STATUS_TRDY_MSK \<noteq> 0"
  "(STATUS_TRDY_MSK OR STATUS_TMT_MSK OR STATUS_RRDY_MSK) AND STATUS_TMT_MSK \<noteq> 0"
  "(STATUS_TRDY_MSK OR STATUS_TMT_MSK OR STATUS_RRDY_MSK) AND STATUS_RRDY_MSK \<noteq> 0"
  "((STATUS_TRDY_MSK OR STATUS_TMT_MSK) OR STATUS_RRDY_MSK) AND STATUS_RRDY_MSK \<noteq> 0"
  by (simp_all add: spi_masks)

lemma advance_idle [simp]: "advance sl (idle c s L rx rr w) = idle c s L rx rr w"
  by (simp add: advance_def idle_def)

lemma advance_idle_pow [simp]: "(advance sl ^^ n) (idle c s L rx rr w) = idle c s L rx rr w"
  by (induction n) simp_all

lemma advance_busy_Suc [simp]: "advance sl (busy c s L rx b (Suc w)) = busy c s L rx b w"
  by (simp add: advance_def busy_def)

definition after :: "'c spi_slave \<Rightarrow> u8 \<Rightarrow> bool \<Rightarrow> 'c \<Rightarrow> 'c" where
  "after sl b s c = (let c' = snd (exchange sl b c) in if s then c' else deselect sl c')"

lemma advance_busy_0 [simp]:
  "advance sl (busy c s L rx b 0) = idle (after sl b s c) s L (fst (exchange sl b c)) True 0"
  by (simp add: advance_def busy_def idle_def split_beta after_def Let_def)

lemma advance_busy_pow:
  "(advance sl ^^ n) (busy c s L rx b w) =
    (if n \<le> w then busy c s L rx b (w - n)
     else idle (after sl b s c) s L (fst (exchange sl b c)) True 0)"
proof (induction n)
  case (Suc n)
  then show ?case
    by (cases "n < w") (auto simp: Suc_diff_Suc [symmetric] le_Suc_eq not_le less_Suc_eq)
qed simp

lemma bits_idle [simp]:
  "sim_bits (idle c s L rx rr w) = STATUS_TRDY_MSK OR STATUS_TMT_MSK OR (if rr then STATUS_RRDY_MSK else 0)"
  by (simp add: sim_bits_def idle_def or.assoc)

lemma bits_busy [simp]: "sim_bits (busy c s L rx b w) = 0"
  by (simp add: sim_bits_def busy_def)

section \<open>Polling\<close>

lemma poll_ready_idle:
  "cr \<noteq> 0 \<Longrightarrow> poll_ready (core_hw sl) cr (idle c s L rx rr w) =
    Some (sim_bits (idle c s L rx rr w), idle c s L rx rr w)"
  by (subst poll_ready.simps) (cases rr; simp)

lemma poll_ready_busy:
  "poll_ready (core_hw sl) 0 (busy c s L rx b w) =
    Some (sim_bits (idle c s L rx True 0), idle (after sl b s c) s L (fst (exchange sl b c)) True 0)"
proof (induction w)
  case 0
  then show ?case by (subst poll_ready.simps) simp
next
  case (Suc w)
  then show ?case by (subst poll_ready.simps) simp
qed

lemma poll_idle_idle [simp]: "poll_idle (core_hw sl) (idle c s L rx rr w) = Some (idle c s L rx rr w)"
  by (subst poll_idle.simps) (cases rr; simp)

lemma sim_rxdata_idle [simp]:
  "rxreg (idle c s L rx rr w) = rx" "(idle c s L rx rr w)\<lparr>rrdy := q\<rparr> = idle c s L rx q w"
  by (simp_all add: idle_def)

lemma chip_idle [simp]: "chip (idle c s L rx rr w) = c"
  by (simp add: idle_def)

lemma sim_tx_idle [simp]: "hw_txdata (core_hw sl) v (idle c s L rx False w) = busy c s L rx (ucast v) L"
  by (simp add: idle_def busy_def)

lemma sim_control_idle [simp]:
  "hw_control (core_hw sl) v (idle c s L rx rr w) =
    (if v AND CONTROL_SSO_MSK \<noteq> 0 then idle c True L rx rr w else idle (deselect sl c) False L rx rr w)"
  by (simp add: idle_def)

declare core_hw_simps(3,4) [simp del]

section \<open>A transaction\<close>

text \<open>What the slave makes of some bytes in a row: its replies, and its state afterwards.\<close>

fun sends :: "'c spi_slave \<Rightarrow> bool \<Rightarrow> u8 list \<Rightarrow> 'c \<Rightarrow> u8 list \<times> 'c" where
  "sends sl s [] c = ([], c)"
| "sends sl s (b # bs) c =
    (let (rs, c') = sends sl s bs (after sl b s c) in (fst (exchange sl b c) # rs, c'))"

lemma length_sends [simp]: "length (fst (sends sl s bs c)) = length bs"
  by (induction bs arbitrary: c) (simp_all add: split_beta Let_def)

lemma sends_append:
  "sends sl s (xs @ ys) c =
    (let (rs, c1) = sends sl s xs c; (qs, c2) = sends sl s ys c1 in (rs @ qs, c2))"
  by (induction xs arbitrary: c) (simp_all add: split_beta Let_def)

text \<open>One byte of the main loop, which takes it two iterations: send, then receive.\<close>

abbreviation xfer :: "u8 list \<Rightarrow> nat \<Rightarrow> nat \<Rightarrow> int \<Rightarrow> u8 list \<Rightarrow> spi_xfer" where
  "xfer w z i cr g \<equiv> \<lparr>to_write = w, write_zeros = z, read_ignore = i, credits = cr, got = g\<rparr>"

lemma loop_receive:
  "spi_loop (core_hw sl) n (xfer w z i 0 g) (busy c s L rx b v) =
    (let r = fst (exchange sl b c); h = idle (after sl b s c) s L r False 0;
         (i', g') = (if i > 0 then (i - 1, g) else (0, g @ [r]))
     in if i' = 0 \<and> length g' = n then Some (xfer w z i' 1 g', h)
        else spi_loop (core_hw sl) n (xfer w z i' 1 g') h)"
  by (subst spi_loop.simps) (simp add: poll_ready_busy spi_transmit_def spi_receive_def Let_def)

lemma loop_send:
  "spi_loop (core_hw sl) n (xfer (b # w) z i 1 g) (idle c s L rx False v) =
    spi_loop (core_hw sl) n (xfer w z i 0 g) (busy c s L rx b L)"
  "spi_loop (core_hw sl) n (xfer [] (Suc z) i 1 g) (idle c s L rx False v) =
    spi_loop (core_hw sl) n (xfer [] z i 0 g) (busy c s L rx 0 L)"
  by (subst spi_loop.simps, simp add: poll_ready_idle spi_transmit_def Let_def)+

text \<open>All bytes: what is ignored and what is stored adds up to what is still to be sent.\<close>

lemma loop_total:
  assumes "w @ replicate z 0 = bs" and "bs \<noteq> []" and "i + (n - length g) = length bs" and "length g \<le> n"
  shows "spi_loop (core_hw sl) n (xfer w z i 1 g) (idle c s L rx False v) =
    (let (rs, c') = sends sl s bs c in Some (xfer [] 0 0 1 (g @ drop i rs), idle c' s L (last rs) False 0))"
  using assms
proof (induction bs arbitrary: w z i g c rx v)
  case (Cons b bs)
  define r where "r = fst (exchange sl b c)"
  obtain w' z' where send: "spi_loop (core_hw sl) n (xfer w z i 1 g) (idle c s L rx False v) =
      spi_loop (core_hw sl) n (xfer w' z' i 0 g) (busy c s L rx b L)" and rest: "w' @ replicate z' 0 = bs"
    using Cons.prems(1) loop_send [of sl n] by (cases w; cases z) auto
  have count: "i + (n - length g) = Suc (length bs)" using Cons.prems(3) by simp
  obtain i' g' where ig: "(i', g') = (if i > 0 then (i - 1, g) else (0, g @ [r]))" by (metis surj_pair)
  then have inv: "i' + (n - length g') = length bs" "length g' \<le> n"
    using count Cons.prems(4) by (auto split: if_splits)
  have drops: "g' @ drop i' rs = g @ drop i (r # rs)" for rs
    using ig by (auto simp: drop_Cons' split: if_splits)
  have recv: "spi_loop (core_hw sl) n (xfer w' z' i 0 g) (busy c s L rx b L) =
      (if i' = 0 \<and> length g' = n then Some (xfer w' z' i' 1 g', idle (after sl b s c) s L r False 0)
       else spi_loop (core_hw sl) n (xfer w' z' i' 1 g') (idle (after sl b s c) s L r False 0))"
    unfolding loop_receive Let_def r_def [symmetric] ig [symmetric] by simp
  obtain rs c' where sn: "sends sl s bs (after sl b s c) = (rs, c')" by (metis surj_pair)
  then have len: "length rs = length bs" by (metis fst_conv length_sends)
  have all: "sends sl s (b # bs) c = (r # rs, c')" by (simp add: sn r_def)
  show ?case
  proof (cases "bs = []")
    case True
    then have "i' = 0" "length g' = n" "w' = []" "z' = 0" "rs = []" "c' = after sl b s c"
      using rest inv sn by auto
    then show ?thesis using drops [of "[]"] unfolding send recv all by simp
  next
    case False
    then have more: "\<not> (i' = 0 \<and> length g' = n)" using inv by auto
    have "last (r # rs) = last rs" using False len by auto
    then show ?thesis
      unfolding send recv all if_not_P [OF more] Cons.IH [OF rest False inv] sn Let_def prod.case drops by simp
  qed
qed simp

text \<open>The call itself. What it leaves behind, with the slave still selected or not.\<close>

definition command_end :: "'c spi_slave \<Rightarrow> u32 \<Rightarrow> bool \<Rightarrow> nat \<Rightarrow> u8 \<Rightarrow> 'c \<Rightarrow> 'c spi_core" where
  "command_end sl flags s L rx c =
    (if flags AND COMMAND_MERGE = 0 then idle (deselect sl c) False L rx False 0 else idle c s L rx False 0)"

lemma command_total:
  assumes "write_data @ replicate n 0 \<noteq> []"
  shows "alt_avalon_spi_command (core_hw sl) slave write_data n flags (idle c s L rx rr v) =
    (let s1 = (s \<or> flags AND COMMAND_TOGGLE_SS_N = 0);
         (rs, c') = sends sl s1 (write_data @ replicate n 0) c
     in Some (drop (length write_data) rs, command_end sl flags s1 L (last rs) c'))"
  using loop_total [OF refl assms, of "length write_data" n "[]" sl]
  by (auto simp: alt_avalon_spi_command_def command_end_def CONTROL_SSO_MSK_def split_beta Let_def)

text \<open>With nothing to shift the main loop sends nothing, and so waits for ever for an answer.\<close>

lemma loop_stuck:
  assumes "write_zeros x = 0" "to_write x = []" "credits x \<noteq> 0"
  shows "spi_loop (core_hw sl) n x (idle c s L rx False v) = None"
proof -
  let ?sends = "\<lambda>x. write_zeros x = 0 \<and> to_write x = [] \<and> credits x \<noteq> 0"
  have False if "spi_loop (core_hw sl) n x (idle c s L rx False v) = Some y" for y
  proof -
    have "core_hw sl = core_hw sl \<longrightarrow> ?sends x \<longrightarrow> idle c s L rx False v = idle c s L rx False v \<longrightarrow> False"
    proof (rule spi_loop.raw_induct [where xa = "(((core_hw sl, n), x), idle c s L rx False v)" and y = y
        and P = "\<lambda>hw _ x h _. hw = core_hw sl \<longrightarrow> ?sends x \<longrightarrow> h = idle c s L rx False v \<longrightarrow> False",
        unfolded prod.case, OF _ that], intro impI)
      fix loop hw n x h y
      assume IH: "\<And>hw n x h y. loop hw n x h = Some y \<Longrightarrow> hw = core_hw sl \<longrightarrow> ?sends x \<longrightarrow>
          h = idle c s L rx False v \<longrightarrow> False"
        and body: "Option.bind (poll_ready hw (credits x) h) (\<lambda>(status, h).
          let (x, h) = spi_transmit hw status x h
          in if status AND STATUS_RRDY_MSK \<noteq> 0 then
               (let (rxdata, h) = hw_rxdata hw h; x = spi_receive rxdata x
                in if read_ignore x = 0 \<and> length (got x) = n then Some (x, h) else loop hw n x h)
             else loop hw n x h) = Some y"
        and hw: "hw = core_hw sl" "h = idle c s L rx False v" and x: "?sends x"
      obtain x' where "spi_transmit hw (STATUS_TRDY_MSK OR STATUS_TMT_MSK) x h = (x', h)" "?sends x'"
        using x by (cases "credits x > 0") (auto simp: spi_transmit_def Let_def)
      then show False
        using body IH [of hw n x' h y] x hw by (simp add: poll_ready_idle)
    qed
    then show False using assms by simp
  qed
  then show ?thesis by (metis option.exhaust)
qed

lemma command_stuck:
  "alt_avalon_spi_command (core_hw sl) slave [] 0 flags (idle c s L rx rr v) = None"
  by (simp add: alt_avalon_spi_command_def CONTROL_SSO_MSK_def Let_def loop_stuck)

text \<open>
  C13. One transaction of the SPI driver, complete: for any slave, any latency of the core and any
  flags, a call with at least one byte to write or read returns. It has shifted out exactly the
  bytes of \<open>write_data\<close> and one zero for each byte to read, each once and in order, and
  \<open>read_data\<close> holds the slave's replies to the zeros; what came back before is dropped, also a
  byte a former call left in the core. The slave is deselected at the end unless \<open>MERGE\<close> keeps it,
  and without \<open>TOGGLE_SS_N\<close> it stays selected between the bytes. A call with nothing to write and
  nothing to read never returns.
\<close>
theorem spi_transaction:
  "alt_avalon_spi_command (core_hw sl) slave write_data n flags (idle c s L rx rr v) =
    (if write_data = [] \<and> n = 0 then None
     else let s1 = (s \<or> flags AND COMMAND_TOGGLE_SS_N = 0);
              (rs, c') = sends sl s1 (write_data @ replicate n 0) c
          in Some (drop (length write_data) rs,
               if flags AND COMMAND_MERGE = 0 then idle (deselect sl c') False L (last rs) False 0
               else idle c' s1 L (last rs) False 0))"
  using command_total [of write_data n sl slave flags c s L rx rr v] command_stuck [of sl slave flags c s L rx rr v]
  by (auto simp: command_end_def split_beta Let_def)

end
