(* ===== verification/Spi_Chip.thy ===== *)
theory Spi_Chip
  imports Spi_Core
begin

text \<open>
  A concrete slave controller on the simulated core of \<open>Spi_Core\<close>, for the accessors of
  \<open>Spi_Link\<close>: the controller decodes the two address bytes
  as its data sheet documents and then reads or writes bytes with increasing addresses until it
  is deselected. On this hardware the accessors implement the memory interface \<open>esc_port\<close>,
  provided the latency is at most six polls: \<open>spi_tx_rx_8\<close> does not wait for the core.
\<close>

section \<open>The hardware\<close>

datatype esc_phase = Ph_start | Ph_addr u8 | Ph_read u16 | Ph_write u16 | Ph_ignore

record esc_chip =
  emem :: "u16 \<Rightarrow> u8"
  ephase :: esc_phase

definition esc_select :: "u8 \<Rightarrow> u8 \<Rightarrow> u16" where
  "esc_select hi lo = push_bit 5 (ucast hi) OR ucast (drop_bit 3 lo)"

text \<open>One byte in each direction; during the address phase the reply carries no data.\<close>

definition esc_exchange :: "u8 \<Rightarrow> esc_chip \<Rightarrow> u8 \<times> esc_chip" where
  "esc_exchange b c =
    (case ephase c of
       Ph_start \<Rightarrow> (0, c\<lparr>ephase := Ph_addr b\<rparr>)
     | Ph_addr hi \<Rightarrow>
         (0, c\<lparr>ephase := (if b AND 7 = 2 then Ph_read (esc_select hi b)
                          else if b AND 7 = 4 then Ph_write (esc_select hi b) else Ph_ignore)\<rparr>)
     | Ph_read a \<Rightarrow> (emem c a, c\<lparr>ephase := Ph_read (a + 1)\<rparr>)
     | Ph_write a \<Rightarrow> (0, c\<lparr>emem := (emem c)(a := b), ephase := Ph_write (a + 1)\<rparr>)
     | Ph_ignore \<Rightarrow> (0, c))"

definition esc_deselect :: "esc_chip \<Rightarrow> esc_chip" where
  "esc_deselect c = c\<lparr>ephase := Ph_start\<rparr>"

definition esc_slave :: "esc_chip spi_slave" where
  "esc_slave = \<lparr>exchange = esc_exchange, deselect = esc_deselect\<rparr>"

lemma esc_slave_simps [simp]: "exchange esc_slave = esc_exchange" "deselect esc_slave = esc_deselect"
  by (simp_all add: esc_slave_def)

type_synonym spi_sim = "esc_chip spi_core"

abbreviation sim_hw :: "spi_sim spi_hw" where
  "sim_hw \<equiv> core_hw esc_slave"

section \<open>One byte through the driver\<close>

lemma cmd_byte:
  "alt_avalon_spi_command sim_hw 0 [b] 0 1 (idle c s L rx rr w) =
    Some ([], idle (snd (esc_exchange b c)) True L (fst (esc_exchange b c)) False 0)"
  "alt_avalon_spi_command sim_hw 0 [b] 0 0 (idle c s L rx rr w) =
    Some ([], idle (esc_deselect (snd (esc_exchange b c))) False L (fst (esc_exchange b c)) False 0)"
  by (simp_all add: command_total command_end_def COMMAND_TOGGLE_SS_N_def COMMAND_MERGE_def after_def)

lemma wait_done:
  "L \<le> 6 \<Longrightarrow> advance esc_slave ((advance esc_slave ^^ 6) (busy c s L rx b L)) =
    idle (after esc_slave b s c) s L (fst (esc_exchange b c)) True 0"
  by (cases "L = 6") (simp_all add: advance_busy_pow)

lemma wait_slow:
  "7 \<le> L \<Longrightarrow> advance esc_slave ((advance esc_slave ^^ 6) (busy c s L rx b L)) = busy c s L rx b (L - 7)"
  using advance_busy_pow [of 7 esc_slave c s L rx b L] by (simp add: eval_nat_numeral)

lemma spin5_idle [simp]: "hw_spin sim_hw n (idle c s L rx rr w) = idle c s L rx rr w"
  by simp

lemma spi_tx_rx_idle:
  "spi_tx_rx_8 sim_hw b hold (idle c s L rx rr w) =
    (let h = advance esc_slave ((advance esc_slave ^^ 6) (busy c s L rx b L));
         (r, h) = (if sim_bits h AND STATUS_RRDY_MSK \<noteq> 0 then (rxreg h, h\<lparr>rrdy := False\<rparr>) else (0, h))
     in (r, if hold = 0 then hw_control sim_hw 0 (hw_spin sim_hw 5 h) else h))"
  by (simp add: spi_tx_rx_8_def Let_def split_beta)

lemma tx_rx_byte:
  assumes "L \<le> 6"
  shows "spi_tx_rx_8 sim_hw b 1 (idle c True L rx rr w) =
      (fst (esc_exchange b c), idle (snd (esc_exchange b c)) True L (fst (esc_exchange b c)) False 0)"
    and "spi_tx_rx_8 sim_hw b 0 (idle c True L rx rr w) =
      (fst (esc_exchange b c), idle (esc_deselect (snd (esc_exchange b c))) False L (fst (esc_exchange b c)) False 0)"
  by (simp_all add: spi_tx_rx_idle wait_done [OF assms] Let_def after_def)

text \<open>With a slower core the byte is not there yet and the caller gets 0.\<close>

lemma tx_rx_slow:
  "7 \<le> L \<Longrightarrow> fst (spi_tx_rx_8 sim_hw b hold (idle c s L rx rr w)) = 0"
  by (simp add: spi_tx_rx_idle wait_slow Let_def)
section \<open>The accessors on this hardware\<close>

lemma small_bits:
  assumes "(a :: u16) < 0x2000"
  shows "bit a n \<Longrightarrow> n < 13"
proof -
  have "take_bit 13 a = a"
    using assms by (simp add: less_mask_eq take_bit_eq_mask word_less_nat_alt)
  then show "bit a n \<Longrightarrow> n < 13" by (metis bit_take_bit_iff)
qed

lemma mask_7_u8: "(7 :: u8) = mask 3"
  by (simp add: mask_eq_exp_minus_1)

lemma address_decode:
  assumes "(a :: u16) < 0x2000" and "cmd = 2 \<or> cmd = 4"
  shows "esc_select (ucast (drop_bit 8 (push_bit 3 a OR cmd))) (ucast (push_bit 3 a OR cmd)) = a"
    and "(ucast (push_bit 3 a OR cmd) :: u8) AND 7 = ucast cmd"
proof -
  have cmd: "bit cmd n \<Longrightarrow> n < 3" for n
  proof -
    have "take_bit 3 cmd = cmd" using assms(2) by auto
    then show "bit cmd n \<Longrightarrow> n < 3" by (metis bit_take_bit_iff)
  qed
  show "esc_select (ucast (drop_bit 8 (push_bit 3 a OR cmd))) (ucast (push_bit 3 a OR cmd)) = a"
    using small_bits [OF assms(1)] cmd
    by (intro bit_word_eqI) (fastforce simp: esc_select_def bit_simps)
  show "(ucast (push_bit 3 a OR cmd) :: u8) AND 7 = ucast cmd"
    using cmd by (intro bit_word_eqI) (fastforce simp: mask_7_u8 bit_simps)
qed

lemma address_phase:
  assumes "ephase c = Ph_start" and "a < 0x2000" and "cmd = 2 \<or> cmd = 4"
  shows "\<exists>rx'. spi_address sim_hw (push_bit 3 a OR cmd) (idle c s L rx rr w) =
    Some (idle (c\<lparr>ephase := (if cmd = 2 then Ph_read a else Ph_write a)\<rparr>) True L rx' False 0)"
proof -
  note dec = address_decode [OF assms(2,3)]
  have "ucast cmd = (2 :: u8) \<longleftrightarrow> cmd = 2" "ucast cmd = (4 :: u8) \<longleftrightarrow> cmd = 4" using assms(3) by auto
  then show ?thesis
    using assms(1,3) dec by (auto simp: spi_address_def cmd_byte [simplified] esc_exchange_def Let_def)
qed

definition sim_ready :: "spi_sim \<Rightarrow> bool" where
  "sim_ready h \<longleftrightarrow> (\<exists>c s L rx rr w. h = idle c s L rx rr w \<and> ephase c = Ph_start \<and> L \<le> 6)"

definition sim_mem :: "spi_sim \<Rightarrow> u16 \<Rightarrow> u8" where
  "sim_mem h = emem (chip h)"

lemma sim_readyI: "ephase c = Ph_start \<Longrightarrow> L \<le> 6 \<Longrightarrow> sim_ready (idle c s L rx rr w)"
  unfolding sim_ready_def by blast

interpretation sim: esc_port "spi_ops sim_hw" sim_mem sim_ready
proof unfold_locales
  fix h a assume "sim_ready h" and a: "(a :: u16) < 0x2000"
  then obtain c s L rx rr w where h: "h = idle c s L rx rr w" "ephase c = Ph_start" "L \<le> 6"
    by (auto simp: sim_ready_def)
  obtain rx2 where rd: "spi_address sim_hw (push_bit 3 a OR 2) (idle c s L rx rr w) =
      Some (idle (c\<lparr>ephase := Ph_read a\<rparr>) True L rx2 False 0)"
    using address_phase [OF h(2) a, of 2 s L rx rr w] by auto
  obtain rx4 where wr: "spi_address sim_hw (push_bit 3 a OR 4) (idle c s L rx rr w) =
      Some (idle (c\<lparr>ephase := Ph_write a\<rparr>) True L rx4 False 0)"
    using address_phase [OF h(2) a, of 4 s L rx rr w] by auto
  note step = tx_rx_byte [OF h(3)] esc_exchange_def esc_deselect_def cmd_byte [simplified]
    sim_readyI sim_mem_def spi_ops_def h word16_def word32_def
  show "\<exists>s'. rd8 (spi_ops sim_hw) a h = Some (sim_mem h a, s') \<and> sim_ready s' \<and> sim_mem s' = sim_mem h"
    using rd by (simp add: spi_read_8_def step)
  show "\<exists>s'. rd16 (spi_ops sim_hw) a h = Some (word16 (sim_mem h a) (sim_mem h (a + 1)), s')
      \<and> sim_ready s' \<and> sim_mem s' = sim_mem h"
    using rd by (simp add: spi_read_16_def step)
  show "\<exists>s'. rd32 (spi_ops sim_hw) a h =
      Some (word32 (sim_mem h a) (sim_mem h (a + 1)) (sim_mem h (a + 2)) (sim_mem h (a + 3)), s')
      \<and> sim_ready s' \<and> sim_mem s' = sim_mem h"
    using rd by (simp add: spi_read_32_def step add.commute)
  show "\<exists>s'. wr8 (spi_ops sim_hw) a b h = Some s' \<and> sim_ready s' \<and> sim_mem s' = (sim_mem h)(a := b)" for b
    using wr by (simp add: spi_write_8_def step)
  show "\<exists>s'. wr16 (spi_ops sim_hw) a v h = Some s' \<and> sim_ready s' \<and>
      sim_mem s' = (sim_mem h)(a := ucast v, a + 1 := ucast (drop_bit 8 v))" for v
    using wr by (simp add: spi_write_16_def step Let_def)
qed

text \<open>
  C14. The SPI accessors. On a core whose transfers take at most six polls, every accessor of
  \<open>main.c\<close> returns, for any register address of the controller (below 0x2000): reads give the
  bytes of its memory from that address on, in little-endian order, and change nothing; writes
  change exactly the one or two bytes they name. The link is ready for the next access.
\<close>
theorem spi_accessors:
  assumes "sim_ready h" and "a < 0x2000"
  shows "(\<exists>h'. spi_read_8 sim_hw a h = Some (sim_mem h a, h') \<and> sim_ready h' \<and> sim_mem h' = sim_mem h) \<and>
    (\<exists>h'. spi_read_16 sim_hw a h = Some (word16 (sim_mem h a) (sim_mem h (a + 1)), h')
      \<and> sim_ready h' \<and> sim_mem h' = sim_mem h) \<and>
    (\<exists>h'. spi_read_32 sim_hw a h =
        Some (word32 (sim_mem h a) (sim_mem h (a + 1)) (sim_mem h (a + 2)) (sim_mem h (a + 3)), h')
      \<and> sim_ready h' \<and> sim_mem h' = sim_mem h) \<and>
    (\<exists>h'. spi_write_8 sim_hw a b h = Some h' \<and> sim_ready h' \<and> sim_mem h' = (sim_mem h)(a := b)) \<and>
    (\<exists>h'. spi_write_16 sim_hw a v h = Some h' \<and> sim_ready h' \<and>
       sim_mem h' = (sim_mem h)(a := ucast v, a + 1 := ucast (drop_bit 8 v)))"
  using sim.rd8_law [OF assms] sim.rd16_law [OF assms] sim.rd32_law [OF assms]
    sim.wr8_law [OF assms] sim.wr16_law [OF assms]
  by (simp add: spi_ops_def)

text \<open>The controller after power-up, on a core of latency \<open>L\<close>.\<close>

definition sim_power_up :: "(u16 \<Rightarrow> u8) \<Rightarrow> nat \<Rightarrow> spi_sim" where
  "sim_power_up m L = idle \<lparr>emem = m, ephase = Ph_start\<rparr> False L 0 False 0"

lemma sim_power_up: "L \<le> 6 \<Longrightarrow> sim_ready (sim_power_up m L)" "sim_mem (sim_power_up m L) = m"
  by (simp_all add: sim_power_up_def sim_readyI sim_mem_def)

theorem spi_accessors_witness:
  "\<exists>h'. spi_read_16 sim_hw 0x0130 (sim_power_up (\<lambda>a. if a = 0x0130 then 0x34 else 0x12) 3) = Some (0x1234, h')"
proof -
  have "word16 0x34 0x12 = 0x1234" by (simp add: word16_def)
  then show ?thesis
    using spi_accessors [OF sim_power_up(1), of 3 "0x0130" "\<lambda>a. if a = 0x0130 then 0x34 else 0x12"]
    by (auto simp: sim_power_up(2))
qed

text \<open>
  The fixed delay. \<open>spi_tx_rx_8\<close> gives the core a counted delay and one status read
  instead of polling. On a core that needs seven polls or more, \<open>spi_read_8\<close> returns 0 for
  every register, whatever it holds, and reports nothing.
\<close>
theorem spi_read_slow_core:
  assumes "7 \<le> L" and "a < 0x2000"
  shows "\<exists>h'. spi_read_8 sim_hw a (sim_power_up m L) = Some (0, h')"
proof -
  obtain rx' where "spi_address sim_hw (push_bit 3 a OR 2) (sim_power_up m L) =
      Some (idle (\<lparr>emem = m, ephase = Ph_start\<rparr>\<lparr>ephase := Ph_read a\<rparr>) True L rx' False 0)"
    using address_phase [OF _ assms(2), of "\<lparr>emem = m, ephase = Ph_start\<rparr>" 2 False L 0 False 0] by (auto simp: sim_power_up_def)
  then show ?thesis
    using tx_rx_slow [OF assms(1)] by (simp add: spi_read_8_def) (metis prod.collapse)
qed

theorem spi_read_slow_core_witness:
  "\<exists>h'. spi_read_8 sim_hw 0x0130 (sim_power_up (\<lambda>_. 0x55) 8) = Some (0, h')"
  by (rule spi_read_slow_core) simp_all

end
