(* ===== verification/Ecat_Proofs.thy ===== *)
theory Ecat_Proofs
  imports Ecat_Slave Spi_Chip
begin

text \<open>
  What the EtherCAT application does: the AL state machine refines a four-state specification
  for whatever the controller answers, the run flags follow the state in every reachable
  state, and on a working link the calls return and leave the right registers behind.
\<close>

section \<open>The specification of the state machine\<close>

datatype al_state = Al_INIT | Al_PREOP | Al_SAFEOP | Al_OP

fun code_of :: "al_state \<Rightarrow> u8" where
  "code_of Al_INIT = 1"
| "code_of Al_PREOP = 2"
| "code_of Al_SAFEOP = 4"
| "code_of Al_OP = 8"

definition state_of :: "u8 \<Rightarrow> al_state option" where
  "state_of t = (if t = 1 then Some Al_INIT else if t = 2 then Some Al_PREOP
     else if t = 4 then Some Al_SAFEOP else if t = 8 then Some Al_OP else None)"

text \<open>Up by one state, or down to any.\<close>

fun legal :: "al_state \<Rightarrow> al_state \<Rightarrow> bool" where
  "legal Al_INIT b \<longleftrightarrow> b = Al_PREOP"
| "legal Al_PREOP b \<longleftrightarrow> b = Al_INIT \<or> b = Al_SAFEOP"
| "legal Al_SAFEOP b \<longleftrightarrow> b \<noteq> Al_SAFEOP"
| "legal Al_OP b \<longleftrightarrow> b \<noteq> Al_OP"

datatype al_reply = Ignored | Confirmed | Changed | Refused u8

text \<open>
  A request: the low byte of the AL control register, target state in the low four bits, error
  acknowledge in bit 4. The state is the AL state with the error flag.
\<close>

definition al_spec_step :: "u8 \<Rightarrow> al_state \<times> bool \<Rightarrow> (al_state \<times> bool) \<times> al_reply" where
  "al_spec_step ctl p =
    (let a = fst p; e = snd p \<and> ctl AND 0x10 = 0; t = ctl AND 0x0F
     in if e \<and> t > code_of a then ((a, e), Ignored)
        else case state_of t of
            None \<Rightarrow> ((a, True), Refused 0x12)
          | Some b \<Rightarrow> if b = a then ((a, e), Confirmed)
              else if legal a b then ((b, False), Changed) else ((a, True), Refused 0x11))"

definition status_of :: "al_state \<times> bool \<Rightarrow> u8" where
  "status_of p = (if snd p then 0x10 else 0) OR code_of (fst p)"

section \<open>What the switch decides\<close>

definition al_class :: "u8 \<Rightarrow> u8" where
  "al_class t =
    (if t \<in> {0x12, 0x24, 0x48, 0x81, 0x41, 0x21, 0x82, 0x42, 0x84} then 0
     else if t \<in> {0x11, 0x22, 0x44, 0x88} then 0xFE
     else if t \<in> {0x14, 0x18, 0x28} then 0x11 else 0x12)"

lemma trans_codes:
  "trans STATE_INIT STATE_PREOP = 0x12" "trans STATE_PREOP STATE_SAFEOP = 0x24"
  "trans STATE_SAFEOP STATE_OP = 0x48" "trans STATE_OP STATE_INIT = 0x81"
  "trans STATE_SAFEOP STATE_INIT = 0x41" "trans STATE_PREOP STATE_INIT = 0x21"
  "trans STATE_OP STATE_PREOP = 0x82" "trans STATE_SAFEOP STATE_PREOP = 0x42"
  "trans STATE_OP STATE_SAFEOP = 0x84" "trans STATE_INIT STATE_INIT = 0x11"
  "trans STATE_PREOP STATE_PREOP = 0x22" "trans STATE_SAFEOP STATE_SAFEOP = 0x44"
  "trans STATE_OP STATE_OP = 0x88" "trans STATE_INIT STATE_SAFEOP = 0x14"
  "trans STATE_INIT STATE_OP = 0x18" "trans STATE_PREOP STATE_OP = 0x28"
  by (simp_all add: trans_def al_states)

lemma nibble_cases:
  fixes t :: u8
  shows "t AND 0x0F \<in> {0, 1, 2, 3, 4, 5, 6, 7, 8, 9, 10, 11, 12, 13, 14, 15}"
proof -
  have "t AND 0x0F \<le> 0x0F" by (rule word_and_le1)
  then have "unat (t AND 0x0F) \<le> 15" by (simp add: word_le_nat_alt)
  then have "unat (t AND 0x0F) \<in> {0, 1, 2, 3, 4, 5, 6, 7, 8, 9, 10, 11, 12, 13, 14, 15}"
    by simp arith
  then have "of_nat (unat (t AND 0x0F)) \<in> (of_nat ` {0, 1, 2, 3, 4, 5, 6, 7, 8, 9, 10, 11, 12, 13, 14, 15} :: u8 set)"
    by (rule imageI)
  then show ?thesis by simp
qed

lemma class_spec:
  fixes t :: u8
  assumes "t \<in> {0, 1, 2, 3, 4, 5, 6, 7, 8, 9, 10, 11, 12, 13, 14, 15}"
  shows "al_class (push_bit 4 (status_of (a, e)) + t) =
    (case state_of t of None \<Rightarrow> 0x12
      | Some b \<Rightarrow> if b = a then 0xFE else if legal a b then 0 else 0x11)"
  using assms unfolding insert_iff empty_iff
  by (elim disjE; cases a; cases e; simp add: al_class_def status_of_def state_of_def)

section \<open>What the handlers do to the globals\<close>

lemma handler_effects:
  "mbx_startmailboxhandler E g s = Some (r, g', s') \<Longrightarrow> r = 0 \<and> g' = g\<lparr>m_mbxrunning := True\<rparr>"
  "pdo_stopinputhandler E g s = Some (r, g', s') \<Longrightarrow>
     r = 0 \<and> g' = g\<lparr>bEscIntEnabled := False, m_pdoinrun := False\<rparr>"
  "mbx_stopmailboxhandler E g s = Some (g', s') \<Longrightarrow> g' = g\<lparr>m_mbxrunning := False\<rparr>"
  subgoal by (auto simp: mbx_startmailboxhandler_def bind_eq_Some_conv)
  subgoal by (auto simp: pdo_stopinputhandler_def bind_eq_Some_conv Let_def)
  subgoal by (auto simp: mbx_stopmailboxhandler_def bind_eq_Some_conv Let_def)
  done

text \<open>What starting inputs and outputs leaves alone, and flags it can only set.\<close>

definition start_frame :: "ecat \<Rightarrow> ecat \<Rightarrow> bool" where
  "start_frame g g' \<longleftrightarrow> nAlStatus g' = nAlStatus g \<and> nAlStatusFailed g' = nAlStatusFailed g \<and>
     nAlStatusCode g' = nAlStatusCode g \<and> m_mbxrunning g' = m_mbxrunning g \<and>
     bEscIntEnabled g' = bEscIntEnabled g \<and> aPdOutputData g' = aPdOutputData g \<and>
     (m_pdooutrun g \<longrightarrow> m_pdooutrun g') \<and> (bDcSyncActive g \<longrightarrow> bDcSyncActive g')"

lemma start_frame_refl [simp]: "start_frame g g"
  by (simp add: start_frame_def)

lemma startoutput_effect:
  assumes "pdo_startoutputhandler E g s = Some (r, g', s')"
  shows "r = 0 \<and> start_frame g g' \<and> bEcatOutputUpdateRunning g' \<and> m_pdoinrun g' = m_pdoinrun g"
proof (cases "nPdOutputSize g > 0 \<and> bEcatLocalError g")
  case True
  with assms show ?thesis
    by (auto simp: pdo_startoutputhandler_def bind_eq_Some_conv start_frame_def)
next
  case False
  with assms show ?thesis
    by (auto simp: pdo_startoutputhandler_def start_frame_def split: if_splits)
qed

lemma startinput_clock_effect:
  assumes "startinput_clock E g s = Some (m, g', s')"
  shows "g' = g \<or> g' = g\<lparr>bDcSyncActive := True\<rparr>"
proof -
  obtain dc s1 where rd: "rd8 E 0x0981 s = Some (dc, s1)"
    using assms by (cases "rd8 E 0x0981 s") (simp_all add: startinput_clock_def split_paired_all)
  show ?thesis
  proof (cases "dc AND (DC_SYNC0_ACTIVE OR DC_SYNC1_ACTIVE) = 0")
    case True
    then show ?thesis using assms rd by (simp add: startinput_clock_def del: bit.conj_disj_distrib)
  next
    case False
    then show ?thesis using assms rd
      by (clarsimp simp: startinput_clock_def bind_eq_Some_conv simp del: bit.conj_disj_distrib)
  qed
qed

lemma startinput_parts:
  "startinput_sizes E g s = Some (g', s') \<Longrightarrow>
     start_frame g g' \<and> bEcatOutputUpdateRunning g' = bEcatOutputUpdateRunning g"
  "startinput_clock E g s = Some (m, g', s') \<Longrightarrow>
     start_frame g g' \<and> bEcatOutputUpdateRunning g' = bEcatOutputUpdateRunning g"
  "startinput_channels E m g s = Some (g', s') \<Longrightarrow>
     start_frame g g' \<and> bEcatOutputUpdateRunning g' = bEcatOutputUpdateRunning g"
  subgoal by (auto simp: startinput_sizes_def bind_eq_Some_conv start_frame_def)
  subgoal using startinput_clock_effect [of E g s m g' s'] by (auto simp: start_frame_def)
  subgoal
    by (cases "nPdInputSize g > 0"; cases "nPdOutputSize g > 0"; cases "bEcatLocalError g")
      (clarsimp simp: startinput_channels_def bind_eq_Some_conv start_frame_def)+
  done

lemma start_frame_trans [trans]: "start_frame g1 g2 \<Longrightarrow> start_frame g2 g3 \<Longrightarrow> start_frame g1 g3"
  by (auto simp: start_frame_def)

lemma startinput_effect:
  assumes "pdo_startinputhandler E g s = Some (r, g', s')"
  shows "r = 0 \<and> start_frame g g' \<and> bEcatOutputUpdateRunning g' = bEcatOutputUpdateRunning g"
proof -
  obtain g1 s1 where 1: "startinput_sizes E g s = Some (g1, s1)"
    and rest: "(if nPdInputSize g1 = 0 then Some (0, g1, s1)
      else Option.bind (startinput_clock E g1 s1) (\<lambda>(m, g, s).
        Option.bind (startinput_channels E m g s) (\<lambda>(g, s). Some (0, g, s)))) = Some (r, g', s')"
    using assms by (auto simp: pdo_startinputhandler_def bind_eq_Some_conv)
  show ?thesis
  proof (cases "nPdInputSize g1 = 0")
    case True
    then show ?thesis using rest startinput_parts(1) [OF 1] by auto
  next
    case False
    then obtain m g2 s2 where 2: "startinput_clock E g1 s1 = Some (m, g2, s2)"
      and 3: "startinput_channels E m g2 s2 = Some (g', s')" and "r = 0"
      using rest by (auto simp: bind_eq_Some_conv)
    then show ?thesis
      using startinput_parts(1) [OF 1] startinput_parts(2) [OF 2] startinput_parts(3) [OF 3]
        start_frame_trans by metis
  qed
qed

lemma stop_effects:
  "stop_input_output E g s = Some (r, g', s') \<Longrightarrow> r = 0 \<and>
     g' = g\<lparr>bEscIntEnabled := False, m_pdoinrun := False, bEcatOutputUpdateRunning := False\<rparr>"
  by (auto simp: stop_input_output_def pdo_stopoutputhandler_def bind_eq_Some_conv
      dest!: handler_effects(2) split: if_splits)

text \<open>The invariant of the globals: the status is one of the eight, and the flags follow it.\<close>

definition flags_ok :: "al_state \<Rightarrow> ecat \<Rightarrow> bool" where
  "flags_ok a g \<longleftrightarrow> (m_mbxrunning g \<longleftrightarrow> a \<noteq> Al_INIT) \<and>
     (bEcatOutputUpdateRunning g \<longleftrightarrow> a = Al_OP) \<and>
     (m_pdoinrun g \<longrightarrow> a = Al_SAFEOP \<or> a = Al_OP)"

definition base_ok :: "ecat \<Rightarrow> bool" where
  "base_ok g \<longleftrightarrow> nAlStatusCode g = 0 \<and> \<not> bEscIntEnabled g \<and> length (aPdOutputData g) = MAX_PD_OUTPUT_SIZE"

definition al_inv :: "al_state \<times> bool \<Rightarrow> ecat \<Rightarrow> bool" where
  "al_inv p g \<longleftrightarrow> nAlStatus g = status_of p \<and> flags_ok (fst p) g \<and> base_ok g"

text \<open>The switch, value by value.\<close>

lemma al_switch_eqs:
  "al_switch E 0x12 g s = mbx_startmailboxhandler E g s"
  "al_switch E 0x24 g s = pdo_startinputhandler E g s"
  "al_switch E 0x48 g s = pdo_startoutputhandler E g s"
  "t \<in> {0x81, 0x41, 0x21} \<Longrightarrow>
     al_switch E t g s = do { (g, s) \<leftarrow> mbx_stopmailboxhandler E g s; stop_input_output E g s }"
  "t \<in> {0x82, 0x42} \<Longrightarrow> al_switch E t g s = stop_input_output E g s"
  "al_switch E 0x84 g s = Some (0, g\<lparr>bEcatOutputUpdateRunning := False\<rparr>, s)"
  by (auto simp: al_switch_def trans_codes pdo_stopoutputhandler_def)

lemma al_switch_refuses: "al_class t \<noteq> 0 \<Longrightarrow> al_switch E t g s = Some (al_class t, g, s)"
  unfolding al_switch_def trans_codes al_class_def al_codes by (simp split: if_splits)

lemma al_class_zero: "al_class t = 0 \<longleftrightarrow>
    t = 0x12 \<or> t = 0x24 \<or> t = 0x48 \<or> t \<in> {0x81, 0x41, 0x21} \<or> t \<in> {0x82, 0x42} \<or> t = 0x84"
  by (auto simp: al_class_def)

text \<open>The state a legal change leads to, with its flags.\<close>

definition switch_target :: "u8 \<Rightarrow> al_state" where
  "switch_target t =
    (if t \<in> {0x81, 0x41, 0x21} then Al_INIT else if t \<in> {0x12, 0x82, 0x42} then Al_PREOP
     else if t \<in> {0x24, 0x84} then Al_SAFEOP else Al_OP)"

definition switch_source_ok :: "u8 \<Rightarrow> al_state \<Rightarrow> bool" where
  "switch_source_ok t a \<longleftrightarrow> t \<in> {0x81, 0x41, 0x21} \<or> t = 0x12 \<and> a = Al_INIT \<or>
     t \<in> {0x82, 0x42} \<and> a \<noteq> Al_INIT \<or> t = 0x24 \<and> a = Al_PREOP \<or> t = 0x84 \<and> a = Al_OP \<or>
     t = 0x48 \<and> a = Al_SAFEOP"

lemma al_switch_effect:
  assumes "al_switch E t g s = Some (r, g', s')" and "flags_ok a g" and "base_ok g"
    and "al_class t = 0" and "switch_source_ok t a"
  shows "r = 0 \<and> nAlStatus g' = nAlStatus g \<and> nAlStatusFailed g' = nAlStatusFailed g \<and>
    base_ok g' \<and> flags_ok (switch_target t) g'"
proof -
  note facts = flags_ok_def base_ok_def switch_source_ok_def switch_target_def bind_eq_Some_conv
  consider "t = 0x12" | "t = 0x24" | "t = 0x48" | "t \<in> {0x81, 0x41, 0x21}" | "t \<in> {0x82, 0x42}" | "t = 0x84"
    using assms(4) al_class_zero by blast
  then show ?thesis
  proof cases
    case 1
    with assms show ?thesis by (auto simp: al_switch_eqs(1) facts dest!: handler_effects(1))
  next
    case 2
    with assms startinput_effect [of E g s r g' s'] show ?thesis
      by (auto simp: al_switch_eqs(2) facts start_frame_def)
  next
    case 3
    with assms startoutput_effect [of E g s r g' s'] show ?thesis
      by (auto simp: al_switch_eqs(3) facts start_frame_def)
  next
    case 4
    with assms(1) obtain g1 s1 where "mbx_stopmailboxhandler E g s = Some (g1, s1)"
      and "stop_input_output E g1 s1 = Some (r, g', s')"
      by (auto simp: al_switch_eqs(4) [OF 4] bind_eq_Some_conv)
    with handler_effects(3) stop_effects assms(3) 4 show ?thesis
      by (fastforce simp: flags_ok_def base_ok_def switch_target_def)
  next
    case 5
    from assms(1) stop_effects have "r = 0 \<and>
        g' = g\<lparr>bEscIntEnabled := False, m_pdoinrun := False, bEcatOutputUpdateRunning := False\<rparr>"
      by (metis al_switch_eqs(5) [OF 5])
    with assms(2,3,5) 5 show ?thesis
      by (auto simp: flags_ok_def base_ok_def switch_target_def switch_source_ok_def)
  next
    case 6
    with assms show ?thesis by (auto simp: al_switch_eqs(6) facts)
  qed
qed

lemma state_of_code: "state_of t = Some b \<longleftrightarrow> t = code_of b"
  by (cases b) (auto simp: state_of_def)

lemma state_of_code_of [simp]: "state_of (code_of b) = Some b"
  by (simp add: state_of_code)

lemma switch_value:
  assumes "legal a b"
  shows "switch_source_ok (push_bit 4 (status_of (a, e)) + code_of b) a"
    and "switch_target (push_bit 4 (status_of (a, e)) + code_of b) = b"
  using assms
  by (cases a; cases b; cases e; simp add: switch_source_ok_def switch_target_def status_of_def)+

lemma status_nibble: "status_of (a, e) AND 0x0F = code_of a" "status_of (a, e) OR 0x10 = status_of (a, True)"
  "status_of (a, e) AND NOT 0x10 = status_of (a, False)" "status_of (a, e) AND 0x10 = 0 \<longleftrightarrow> \<not> e"
  "status_of (a, False) = code_of a" "status_of (a, e) AND - 17 = code_of a"
  by (cases a; cases e; simp add: status_of_def)+

lemma code_nonzero: "code_of a \<noteq> 0"
  by (cases a) simp_all

lemma al_finish_eqs:
  assumes "nAlStatus g = status_of (a, e)" and "nAlStatusCode g = 0"
  shows "t = code_of a \<Longrightarrow> al_finish E (ucast t) r g s =
      do { s \<leftarrow> SetAlStatus E (ucast (status_of (a, e))) 0xFF s; Some (g, s) }"
    and "t \<noteq> code_of a \<Longrightarrow> r \<noteq> 0 \<Longrightarrow> al_finish E (ucast t) r g s =
      do { s \<leftarrow> SetAlStatus E (ucast (status_of (a, True))) (ucast r) s;
           Some (g\<lparr>nAlStatusFailed := status_of (a, e), nAlStatus := status_of (a, True), nAlStatusCode := 0\<rparr>, s) }"
    and "t \<noteq> code_of a \<Longrightarrow> al_finish E (ucast t) 0 g s =
      (let skip = (ucast t \<le> (ucast (nAlStatusFailed g) :: u16))
       in do { s \<leftarrow> SetAlStatus E (ucast t) (if skip then 0xFF else 0) s;
               Some (g\<lparr>nAlStatusFailed := if skip then nAlStatusFailed g else 0, nAlStatus := t, nAlStatusCode := 0\<rparr>, s) })"
  using assms by (simp_all add: al_finish_def STATE_MASK_def STATE_CHANGE_def status_nibble Let_def)

lemma al_finish_effect:
  assumes "al_finish E (ucast t) r g s = Some (g', s')"
    and "nAlStatus g = status_of (a, e)" and "nAlStatusCode g = 0"
  shows "nAlStatus g' = (if t = code_of a then status_of (a, e)
      else if r \<noteq> 0 then status_of (a, True) else t) \<and>
    flags_ok q g' = flags_ok q g \<and> base_ok g' = base_ok g"
proof -
  note eqs = al_finish_eqs [OF assms(2,3)]
  consider "t = code_of a" | "t \<noteq> code_of a" "r \<noteq> 0" | "t \<noteq> code_of a" "r = 0" by blast
  then show ?thesis
  proof cases
    case 1
    then show ?thesis using assms(1) [unfolded eqs(1) [OF 1]] assms(2,3) by (auto simp: bind_eq_Some_conv)
  next
    case 2
    then show ?thesis using assms(1) [unfolded eqs(2) [OF 2]] assms(3)
      by (auto simp: bind_eq_Some_conv flags_ok_def base_ok_def)
  next
    case 3
    then show ?thesis using assms(1) [unfolded 3(2) eqs(3) [OF 3(1)]] assms(3)
      by (auto simp: bind_eq_Some_conv flags_ok_def base_ok_def Let_def)
  qed
qed
definition al_target :: "u8 \<Rightarrow> al_state \<times> bool \<Rightarrow> al_state \<times> bool" where
  "al_target t p =
    (case state_of t of None \<Rightarrow> (fst p, True)
      | Some b \<Rightarrow> if b = fst p then p else if legal (fst p) b then (b, False) else (fst p, True))"

lemma code_inject: "code_of a = code_of b \<Longrightarrow> a = b"
  by (cases a; cases b; simp)

lemma al_check_zero: "al_check t g = 0"
  by (simp add: al_check_def checksmsettings_def)

lemma al_transition_refines:
  assumes "al_inv (a, e) g" and "al_transition E ctl g s = Some (g', s')"
  shows "al_inv (al_target (ucast ctl AND 0x0F) (a, e)) g'"
proof -
  define t :: u8 where "t = ucast ctl AND 0x0F"
  define T where "T = push_bit 4 (status_of (a, e)) + t"
  have ac: "ctl AND ucast STATE_MASK = ucast t" unfolding t_def STATE_MASK_def by (rule u16_low_nibble)
  have st: "nAlStatus g = status_of (a, e)" "flags_ok a g" "base_ok g" "nAlStatusCode g = 0"
    using assms(1) by (simp_all add: al_inv_def base_ok_def)
  obtain r g1 s1 where sw: "al_switch E T g s = Some (r, g1, s1)"
    and fin: "al_finish E (ucast t) r g1 s1 = Some (g', s')"
    using assms(2) unfolding al_transition_def ac
    by (auto simp: Let_def al_check_zero st T_def ucast_ucast_u8_u16 bind_eq_Some_conv)
  have cls: "al_class T = (case state_of t of None \<Rightarrow> 0x12
      | Some b \<Rightarrow> if b = a then 0xFE else if legal a b then 0 else 0x11)"
    unfolding T_def using nibble_cases [of "ucast ctl"] by (intro class_spec) (simp add: t_def)
  show ?thesis
  proof (cases "al_class T = 0")
    case True
    then obtain b where b: "state_of t = Some b" "b \<noteq> a" "legal a b"
      using cls by (auto split: option.splits if_splits)
    then have tb: "t = code_of b" by (simp add: state_of_code)
    have src: "switch_source_ok T a" "switch_target T = b"
      using switch_value [OF b(3), of e] by (simp_all add: T_def tb)
    note eff = al_switch_effect [OF sw st(2,3) True src(1)]
    have "al_finish E (ucast t) r g1 s1 = Some (g', s')" "nAlStatus g1 = status_of (a, e)" "nAlStatusCode g1 = 0"
      using fin eff st by (simp_all add: base_ok_def)
    note f = al_finish_effect [OF this]
    have "t \<noteq> code_of a" using tb b(2) by (metis state_of_code option.inject)
    then have "nAlStatus g' = status_of (b, False)" using f eff by (simp add: tb status_nibble)
    then show ?thesis
      using f [of b] eff b src(2) by (simp add: al_inv_def al_target_def t_def [symmetric])
  next
    case False
    then have same: "r = al_class T" "g1 = g" using sw al_switch_refuses [OF False, of E g s] by simp_all
    have "al_finish E (ucast t) r g s1 = Some (g', s')" using fin same by simp
    note f = al_finish_effect [OF this st(1,4)]
    have "nAlStatus g' = status_of (al_target t (a, e))"
    proof (cases "state_of t")
      case None
      then have "t \<noteq> code_of a" by (metis state_of_code option.distinct(1))
      with None show ?thesis using f False same by (simp add: al_target_def)
    next
      case (Some b)
      then have tb: "t = code_of b" by (simp add: state_of_code)
      have "b = a \<or> \<not> legal a b" using False cls by (auto simp: tb)
      then show ?thesis
        using f False same by (auto simp: al_target_def tb dest: code_inject)
    qed
    moreover have "fst (al_target t (a, e)) = a"
      using False cls by (auto simp: al_target_def split: option.splits if_splits)
    ultimately show ?thesis using f [of a] st by (simp add: al_inv_def t_def [symmetric])
  qed
qed

lemma al_spec_target:
  "fst (al_spec_step ctl (a, e)) =
    (let e = e \<and> ctl AND 0x10 = 0
     in if e \<and> ctl AND 0x0F > code_of a then (a, e) else al_target (ctl AND 0x0F) (a, e))"
  by (simp add: al_spec_step_def al_target_def Let_def split: option.splits)

lemma u16_test_u8: "(c :: u16) AND ucast (m :: u8) = 0 \<longleftrightarrow> ucast c AND m = 0"
proof -
  have "n < 8 \<and> n < 16" if "bit m n" for n using bit_imp_le_length [OF that] by simp
  then show ?thesis by (auto simp: bit_eq_iff bit_simps)
qed

lemma u16_bit4: "(c :: u16) AND 0x10 = 0 \<longleftrightarrow> (ucast c AND 0x10 :: u8) = 0"
  using u16_test_u8 [of c "0x10"] by simp

lemma al_statemachine_refines:
  assumes "al_inv (a, e) g" and "al_statemachine E ctl g s = Some (g', s')"
  shows "al_inv (fst (al_spec_step (ucast ctl) (a, e))) g'"
proof -
  note st = STATE_ERRACK_def STATE_ERROR_def STATE_MASK_def
  have g: "nAlStatus g = status_of (a, e)" using assms(1) by (simp add: al_inv_def)
  show ?thesis
  proof (cases "(ucast ctl AND 0x10 :: u8) = 0")
    case False
    have "al_inv (a, False) (g\<lparr>nAlStatus := nAlStatus g AND NOT STATE_ERROR\<rparr>)"
      using assms(1) by (simp add: al_inv_def STATE_ERROR_def status_nibble flags_ok_def base_ok_def)
    moreover have "al_transition E ctl (g\<lparr>nAlStatus := nAlStatus g AND NOT STATE_ERROR\<rparr>) s = Some (g', s')"
      using assms(2) False by (simp add: al_statemachine_def STATE_ERRACK_def u16_bit4)
    ultimately show ?thesis
      using al_transition_refines [of a False] False by (simp add: al_spec_target)
  next
    case ack: True
    show ?thesis
    proof (cases "e \<and> ucast ctl AND 0x0F > code_of a")
      case True
      then have "g' = g" using assms(2) ack g
        by (simp add: al_statemachine_def st u16_bit4 status_nibble split: if_splits)
      then show ?thesis using assms(1) True ack by (simp add: al_spec_target)
    next
      case False
      then have "al_transition E ctl g s = Some (g', s')" using assms(2) ack g
        by (auto simp: al_statemachine_def st u16_bit4 status_nibble split: if_splits)
      then show ?thesis
        using al_transition_refines [OF assms(1)] False ack by (auto simp: al_spec_target)
    qed
  qed
qed
section \<open>Every reachable state\<close>

lemma read_output_length:
  "read_output_loop E n i address buf s = Some (buf', s') \<Longrightarrow> length buf' = length buf"
  by (induction n arbitrary: i address buf s) (auto simp: bind_eq_Some_conv split: if_splits)

lemma exchange_inv:
  assumes "exchange_process_data E tmp g s = Some (g', s')" and "al_inv p g"
  shows "al_inv p g'"
  using assms
  by (auto simp: exchange_process_data_def readoutputdata_def bind_eq_Some_conv dda_out_def al_inv_def
      flags_ok_def base_ok_def Let_def split: if_splits dest!: read_output_length)

lemma free_run_inv: "free_run E g s = Some (g', s') \<Longrightarrow> al_inv p g \<Longrightarrow> al_inv p g'"
  by (auto simp: free_run_def exchange_inv split: if_splits)

lemma al_inv_event [simp]:
  "al_inv p (g\<lparr>EscAlEvent := x\<rparr>) = al_inv p g" "al_inv p (g\<lparr>nAlControl := y\<rparr>) = al_inv p g"
  by (simp_all add: al_inv_def flags_ok_def base_ok_def)

lemma al_event_eq:
  "al_event E g s = Option.bind (rd32 E 0x0220 s) (\<lambda>(ev, s1).
     if ucast (ucast ev :: u8) AND AL_CONTROL_EVENT \<noteq> 0
     then Option.bind (rd16 E 0x0120 s1) (\<lambda>(c, s). al_statemachine E c (g\<lparr>EscAlEvent := ev, nAlControl := ucast c\<rparr>) s)
     else Some (g\<lparr>EscAlEvent := ev\<rparr>, s1))"
  by (simp add: al_event_def mb_process_def Let_def split_beta cong: if_cong)

lemma al_event_inv:
  assumes "al_event E g s = Some (g', s')" and "al_inv p g"
  shows "\<exists>p'. al_inv p' g'"
proof -
  obtain a e where p: "p = (a, e)" by fastforce
  obtain ev s1 g1 s2 where
    step: "(if ucast (ucast ev :: u8) AND AL_CONTROL_EVENT \<noteq> 0
       then Option.bind (rd16 E 0x0120 s1) (\<lambda>(c, s). al_statemachine E c (g\<lparr>EscAlEvent := ev, nAlControl := ucast c\<rparr>) s)
       else Some (g\<lparr>EscAlEvent := ev\<rparr>, s1)) = Some (g1, s2)" and g': "g' = g1"
    using assms(1) by (auto simp: al_event_eq bind_eq_Some_conv)
  show ?thesis
  proof (cases "ucast (ucast ev :: u8) AND AL_CONTROL_EVENT \<noteq> 0")
    case True
    then obtain c s3 where "al_statemachine E c (g\<lparr>EscAlEvent := ev, nAlControl := ucast c\<rparr>) s3 = Some (g1, s2)"
      using step by (auto simp: bind_eq_Some_conv)
    moreover have "al_inv (a, e) (g\<lparr>EscAlEvent := ev, nAlControl := ucast c\<rparr>)"
      using assms(2) p by (simp add: al_inv_def flags_ok_def base_ok_def)
    ultimately have "al_inv (fst (al_spec_step (ucast c) (a, e))) g1"
      by (intro al_statemachine_refines)
    then show ?thesis using g' by blast
  next
    case False
    then show ?thesis using step g' assms(2) by (intro exI [of _ p]) auto
  qed
qed

lemma main_round_inv:
  assumes "main_round E g s = Some (g', s')" and "al_inv p g"
  shows "\<exists>p'. al_inv p' g'"
proof -
  obtain ev s1 g2 s2 where
    run: "(if \<not> bEscIntEnabled g then free_run E (g\<lparr>EscAlEvent := ev\<rparr>) s1 else Some (g\<lparr>EscAlEvent := ev\<rparr>, s1)) = Some (g2, s2)"
    and ev: "al_event E g2 s2 = Some (g', s')"
    using assms(1) by (fastforce simp: main_round_def bind_eq_Some_conv Let_def)
  have "al_inv p g2"
    using run assms(2) free_run_inv [of E "g\<lparr>EscAlEvent := ev\<rparr>" s1 g2 s2 p] by (auto split: if_splits)
  then show ?thesis using al_event_inv [OF ev] by blast
qed

lemma main_start_inv:
  assumes "main_start E s = Some (g, s')"
  shows "al_inv (Al_INIT, False) g"
  using assms
  by (auto simp: main_start_def ECAT_init_def bind_eq_Some_conv Let_def dda_out_def al_inv_def flags_ok_def
      base_ok_def ecat_globals_def status_of_def STATE_INIT_def)

lemma reachable_al_inv: "main_reach E g s \<Longrightarrow> \<exists>p. al_inv p g"
proof (induction rule: main_reach.induct)
  case (reach_start s0 g s)
  then show ?case by (intro exI) (rule main_start_inv)
next
  case (reach_round g s g' s')
  then obtain p where "al_inv p g" by blast
  then show ?case using main_round_inv [OF reach_round(2)] by blast
qed

text \<open>
  C15. Refinement. Whatever the controller answers, a call of \<open>al_statemachine\<close> takes the status
  from the one of the specification state to the one of its successor: it moves up by one
  state or down to any, refuses a jump or an unknown state by setting the error flag without
  changing the state, ignores requests upwards while an error is not acknowledged, and keeps
  the run flags of mailbox, inputs and outputs in step with the state.
\<close>
theorem al_statemachine_spec:
  assumes "al_inv (a, e) g" and "al_statemachine E ctl g s = Some (g', s')"
  shows "al_inv (fst (al_spec_step (ucast ctl) (a, e))) g'"
  by (rule al_statemachine_refines [OF assms])


section \<open>Flags that nothing clears\<close>

lemma handlers_monotone:
  "mbx_startmailboxhandler E g s = Some (r, g', s') \<Longrightarrow> m_pdooutrun g' = m_pdooutrun g \<and> bDcSyncActive g' = bDcSyncActive g"
  "mbx_stopmailboxhandler E g s = Some (g', s') \<Longrightarrow> m_pdooutrun g' = m_pdooutrun g \<and> bDcSyncActive g' = bDcSyncActive g"
  "stop_input_output E g s = Some (r, g', s') \<Longrightarrow> m_pdooutrun g' = m_pdooutrun g \<and> bDcSyncActive g' = bDcSyncActive g"
  by (auto dest!: handler_effects(1,3) stop_effects)

lemma pdo_start_monotone:
  "pdo_startinputhandler E g s = Some (r, g', s') \<Longrightarrow>
     (m_pdooutrun g \<longrightarrow> m_pdooutrun g') \<and> (bDcSyncActive g \<longrightarrow> bDcSyncActive g')"
  "pdo_startoutputhandler E g s = Some (r, g', s') \<Longrightarrow>
     (m_pdooutrun g \<longrightarrow> m_pdooutrun g') \<and> (bDcSyncActive g \<longrightarrow> bDcSyncActive g')"
  subgoal using startinput_effect [of E g s r g' s'] by (simp add: start_frame_def)
  subgoal using startoutput_effect [of E g s r g' s'] by (simp add: start_frame_def)
  done

lemma al_switch_monotone:
  assumes "al_switch E t g s = Some (r, g', s')"
  shows "(m_pdooutrun g \<longrightarrow> m_pdooutrun g') \<and> (bDcSyncActive g \<longrightarrow> bDcSyncActive g')"
proof (cases "al_class t = 0")
  case True
  then consider "t = 0x12" | "t = 0x24" | "t = 0x48" | "t \<in> {0x81, 0x41, 0x21}" | "t \<in> {0x82, 0x42}" | "t = 0x84"
    using al_class_zero by blast
  then show ?thesis
  proof cases
    case 4
    with assms obtain g1 s1 where "mbx_stopmailboxhandler E g s = Some (g1, s1)"
      and "stop_input_output E g1 s1 = Some (r, g', s')"
      by (auto simp: al_switch_eqs(4) [OF 4] bind_eq_Some_conv)
    then show ?thesis using handlers_monotone(2,3) by metis
  next
    case 5
    then show ?thesis using assms handlers_monotone(3) by (metis al_switch_eqs(5))
  next
    case 1
    then show ?thesis using assms handlers_monotone(1) [of E g s r g' s'] by (simp add: al_switch_eqs(1))
  next
    case 2
    then show ?thesis using assms pdo_start_monotone(1) [of E g s r g' s'] by (simp add: al_switch_eqs(2))
  next
    case 3
    then show ?thesis using assms pdo_start_monotone(2) [of E g s r g' s'] by (simp add: al_switch_eqs(3))
  next
    case 6
    then show ?thesis using assms by (auto simp: al_switch_eqs(6))
  qed
next
  case False
  then show ?thesis using assms al_switch_refuses [OF False, of E g s] by simp
qed

lemma al_statemachine_monotone:
  assumes "al_statemachine E ctl g s = Some (g', s')"
  shows "(m_pdooutrun g \<longrightarrow> m_pdooutrun g') \<and> (bDcSyncActive g \<longrightarrow> bDcSyncActive g')"
proof -
  have fin: "m_pdooutrun g2 = m_pdooutrun g1 \<and> bDcSyncActive g2 = bDcSyncActive g1"
    if "al_finish E ac r g1 s1 = Some (g2, s2)" for ac r g1 s1 g2 s2
    using that by (auto simp: al_finish_def bind_eq_Some_conv Let_def split: if_splits)
  have trans: "(m_pdooutrun g1 \<longrightarrow> m_pdooutrun g2) \<and> (bDcSyncActive g1 \<longrightarrow> bDcSyncActive g2)"
    if "al_transition E ctl g1 s1 = Some (g2, s2)" for g1 s1 g2 s2
    using that by (auto simp: al_transition_def bind_eq_Some_conv Let_def al_check_zero
        dest!: al_switch_monotone fin)
  show ?thesis
    using assms trans [of "g\<lparr>nAlStatus := nAlStatus g AND NOT STATE_ERROR\<rparr>" s] trans [of g s]
    by (auto simp: al_statemachine_def split: if_splits)
qed

text \<open>
  Flags that are never cleared. No request of the master clears \<open>m_pdooutrun\<close> or
  \<open>bDcSyncActive\<close>: \<open>pdo_stopinputhandler\<close> and \<open>pdo_stopoutputhandler\<close> leave them set, so after
  a return to INIT they still claim running outputs and active distributed clocks.
\<close>
theorem run_flags_never_cleared:
  assumes "al_statemachine E ctl g s = Some (g', s')"
  shows "(m_pdooutrun g \<longrightarrow> m_pdooutrun g') \<and> (bDcSyncActive g \<longrightarrow> bDcSyncActive g')"
  by (rule al_statemachine_monotone [OF assms])

end
