(* ===== verification/Ecat_Link.thy ===== *)
theory Ecat_Link
  imports Ecat_Proofs
begin

text \<open>
  The EtherCAT application on a link that satisfies \<open>esc_port\<close>: the calls return, and what
  they leave in the registers of the controller. The lemmas are proved once inside the
  interface and used on the SPI link of \<open>Spi_Chip\<close>.
\<close>

section \<open>Addresses\<close>

lemma ucast_u8_u16_mult: "unat (ucast (c :: u8) * 8 :: u16) = unat c * 8"
proof -
  have "unat c * 8 < 65536" using unat_u8_less [of c] by linarith
  then show ?thesis by (simp add: unat_word_ariths)
qed

lemma sm_address_bound:
  assumes "k \<le> 7"
  shows "sm_address c + k < 0x2000"
proof -
  have k: "unat k \<le> 7" using assms by (simp add: word_le_nat_alt)
  have bound: "0x800 + unat c * 8 + unat k < 0x2000" using unat_u8_less [of c] k by linarith
  then have "unat (sm_address c + k) = 0x800 + unat c * 8 + unat k"
    by (simp add: sm_address_def unat_word_ariths(1) ucast_u8_u16_mult)
  then show ?thesis using bound by (simp add: word_less_nat_alt)
qed

lemma sm_address_0: "sm_address c < 0x2000"
  using sm_address_bound [of 0 c] by simp

text \<open>A 16-bit register of the memory.\<close>

definition set16 :: "u16 \<Rightarrow> u16 \<Rightarrow> (u16 \<Rightarrow> u8) \<Rightarrow> u16 \<Rightarrow> u8" where
  "set16 a w m = m(a := ucast w, a + 1 := ucast (drop_bit 8 w))"

lemma ucast_ff: "(ucast (0xFF :: u16) :: u8) = 0xFF"
  by simp

text \<open>The value of the switch for a request, and what the switch leaves of the status.\<close>

lemma switch_step:
  assumes "al_inv (a, e) g"
    and "al_switch E (push_bit 4 (status_of (a, e)) + (t AND 0x0F)) g s = Some (r, g1, s1)"
  shows "r = (case state_of (t AND 0x0F) of None \<Rightarrow> 0x12
      | Some b \<Rightarrow> if b = a then 0xFE else if legal a b then 0 else 0x11) \<and>
    nAlStatus g1 = status_of (a, e) \<and> nAlStatusCode g1 = 0"
proof -
  let ?T = "push_bit 4 (status_of (a, e)) + (t AND 0x0F)"
  have st: "nAlStatus g = status_of (a, e)" "flags_ok a g" "base_ok g" "nAlStatusCode g = 0"
    using assms(1) by (simp_all add: al_inv_def base_ok_def)
  have cls: "al_class ?T = (case state_of (t AND 0x0F) of None \<Rightarrow> 0x12
      | Some b \<Rightarrow> if b = a then 0xFE else if legal a b then 0 else 0x11)"
    by (rule class_spec [OF nibble_cases])
  show ?thesis
  proof (cases "al_class ?T = 0")
    case True
    then obtain b where b: "state_of (t AND 0x0F) = Some b" "legal a b"
      using cls by (auto split: option.splits if_splits)
    then have tb: "t AND 0x0F = code_of b" by (simp add: state_of_code)
    have src: "switch_source_ok ?T a" using switch_value(1) [OF b(2), of e] by (simp add: tb)
    show ?thesis
      using al_switch_effect [OF assms(2) st(2,3) True src] True cls st by (simp add: base_ok_def)
  next
    case False
    have "al_switch E ?T g s = Some (al_class ?T, g, s)" by (rule al_switch_refuses [OF False])
    then have "r = al_class ?T" "g1 = g" using assms(2) by auto
    then show ?thesis using cls st by simp
  qed
qed

definition code_written :: "al_state \<Rightarrow> u8 \<Rightarrow> (u16 \<Rightarrow> u8) \<Rightarrow> bool" where
  "code_written a t m \<longleftrightarrow>
    (case state_of t of
       None \<Rightarrow> m 0x0134 = 0x12 \<and> m 0x0135 = 0
     | Some b \<Rightarrow> b = a \<or> legal a b \<or> m 0x0134 = 0x11 \<and> m 0x0135 = 0)"

text \<open>What a call leaves in the status registers, by the reply of the specification.\<close>

definition registers_after :: "al_reply \<Rightarrow> ecat \<Rightarrow> (u16 \<Rightarrow> u8) \<Rightarrow> (u16 \<Rightarrow> u8) \<Rightarrow> bool" where
  "registers_after reply g' m m' \<longleftrightarrow>
    (case reply of
       Ignored \<Rightarrow> m' = m
     | Refused c \<Rightarrow> m' 0x0130 = nAlStatus g' \<and> m' 0x0131 = 0 \<and> m' 0x0134 = c \<and> m' 0x0135 = 0
     | _ \<Rightarrow> m' 0x0130 = nAlStatus g' \<and> m' 0x0131 = 0)"

section \<open>The functions on a working link\<close>

context esc_port begin

lemma get_sm_total:
  assumes "ready s"
  shows "\<exists>s'. get_sm E c s = Some (\<lparr>sm_physical_addr = word16 (mem s (sm_address c)) (mem s (sm_address c + 1)),
      sm_length = word16 (mem s (sm_address c + 2)) (mem s (sm_address c + 3)),
      sm_register_control = mem s (sm_address c + 4), sm_register_status = mem s (sm_address c + 5),
      sm_register_activate = mem s (sm_address c + 6), sm_register_pdictl = mem s (sm_address c + 7)\<rparr>, s')
    \<and> ready s' \<and> mem s' = mem s"
proof -
  obtain s1 where 1: "rd16 E (sm_address c) s = Some (word16 (mem s (sm_address c)) (mem s (sm_address c + 1)), s1)"
    "ready s1" "mem s1 = mem s" using rd16_law [OF assms sm_address_0] by blast
  obtain s2 where 2: "rd16 E (sm_address c + 2) s1 = Some (word16 (mem s (sm_address c + 2)) (mem s (sm_address c + 2 + 1)), s2)"
    "ready s2" "mem s2 = mem s" using rd16_law [OF 1(2) sm_address_bound, of 2] 1(3) by auto
  obtain s3 where 3: "rd8 E (sm_address c + 4) s2 = Some (mem s (sm_address c + 4), s3)"
    "ready s3" "mem s3 = mem s" using rd8_law [OF 2(2) sm_address_bound, of 4] 2(3) by auto
  obtain s4 where 4: "rd8 E (sm_address c + 5) s3 = Some (mem s (sm_address c + 5), s4)"
    "ready s4" "mem s4 = mem s" using rd8_law [OF 3(2) sm_address_bound, of 5] 3(3) by auto
  obtain s5 where 5: "rd8 E (sm_address c + 6) s4 = Some (mem s (sm_address c + 6), s5)"
    "ready s5" "mem s5 = mem s" using rd8_law [OF 4(2) sm_address_bound, of 6] 4(3) by auto
  obtain s6 where 6: "rd8 E (sm_address c + 7) s5 = Some (mem s (sm_address c + 7), s6)"
    "ready s6" "mem s6 = mem s" using rd8_law [OF 5(2) sm_address_bound, of 7] 5(3) by auto
  have plus: "sm_address c + 2 + 1 = sm_address c + 3" by simp
  show ?thesis
    using 2(1) 1(1) 3(1) 4(1) 5(1) 6 unfolding plus get_sm_def Let_def by simp
qed

lemma enable_total:
  assumes "ready s"
  shows "\<exists>s'. enable_syncmanchannel E c s = Some s' \<and> ready s' \<and>
    mem s' = (mem s)(sm_address c + 7 := mem s (sm_address c + 7) AND NOT SM_PDIDISABLE)"
proof -
  have a: "sm_address c + 7 < 0x2000" by (rule sm_address_bound) simp
  obtain s1 where 1: "rd8 E (sm_address c + 7) s = Some (mem s (sm_address c + 7), s1)"
    "ready s1" "mem s1 = mem s" using rd8_law [OF assms a] by blast
  show ?thesis using wr8_law [OF 1(2) a] 1 by (simp add: enable_syncmanchannel_def Let_def)
qed

lemma disable_total:
  assumes "ready s"
  shows "\<exists>s'. disable_syncmanchannel E c s = Some s' \<and> ready s' \<and>
    mem s' = (mem s)(sm_address c + 7 := mem s (sm_address c + 7) OR SM_PDIDISABLE)"
proof -
  have a: "sm_address c + 7 < 0x2000" by (rule sm_address_bound) simp
  obtain s1 where 1: "rd8 E (sm_address c + 7) s = Some (mem s (sm_address c + 7), s1)"
    "ready s1" "mem s1 = mem s" using rd8_law [OF assms a] by blast
  show ?thesis using wr8_law [OF 1(2) a] 1 by (simp add: disable_syncmanchannel_def Let_def)
qed

lemma intmask_total:
  assumes "ready s"
  shows "\<exists>s'. set_intmask E m s = Some s' \<and> ready s' \<and>
      mem s' = set16 0x0204 (word16 (mem s 0x0204) (mem s 0x0205) OR m) (mem s)"
    and "\<exists>s'. reset_intmask E m s = Some s' \<and> ready s' \<and>
      mem s' = set16 0x0204 (word16 (mem s 0x0204) (mem s 0x0205) AND m) (mem s)"
proof -
  obtain s1 where 1: "rd16 E 0x0204 s = Some (word16 (mem s 0x0204) (mem s 0x0205), s1)"
    "ready s1" "mem s1 = mem s" using rd16_law [OF assms, of "0x0204"] by auto
  show "\<exists>s'. set_intmask E m s = Some s' \<and> ready s' \<and>
      mem s' = set16 0x0204 (word16 (mem s 0x0204) (mem s 0x0205) OR m) (mem s)"
    using wr16_law [OF 1(2), of "0x0204" "word16 (mem s 0x0204) (mem s 0x0205) OR m"] 1
    by (simp add: set_intmask_def set16_def)
  show "\<exists>s'. reset_intmask E m s = Some s' \<and> ready s' \<and>
      mem s' = set16 0x0204 (word16 (mem s 0x0204) (mem s 0x0205) AND m) (mem s)"
    using wr16_law [OF 1(2), of "0x0204" "word16 (mem s 0x0204) (mem s 0x0205) AND m"] 1
    by (simp add: reset_intmask_def set16_def)
qed

lemma SetAlStatus_total:
  assumes "ready s"
  shows "\<exists>s'. SetAlStatus E st code s = Some s' \<and> ready s' \<and>
    mem s' = (if code \<noteq> 0xFF then set16 0x0134 code (set16 0x0130 st (mem s)) else set16 0x0130 st (mem s))"
proof -
  obtain s1 where 1: "wr16 E 0x0130 st s = Some s1" "ready s1" "mem s1 = set16 0x0130 st (mem s)"
    using wr16_law [OF assms, of "0x0130"] by (auto simp: set16_def)
  show ?thesis using wr16_law [OF 1(2), of "0x0134"] 1 by (auto simp: SetAlStatus_def set16_def)
qed

lemma mbx_start_total:
  assumes "ready s"
  shows "\<exists>s'. mbx_startmailboxhandler E g s = Some (0, g\<lparr>m_mbxrunning := True\<rparr>, s') \<and> ready s'"
proof -
  obtain s1 where 1: "\<exists>x. get_sm E MAILBOX_WRITE s = Some (x, s1)" "ready s1" using get_sm_total [OF assms] by blast
  obtain s2 where 2: "\<exists>x. get_sm E MAILBOX_READ s1 = Some (x, s2)" "ready s2" using get_sm_total [OF 1(2)] by blast
  obtain s3 where 3: "enable_syncmanchannel E MAILBOX_WRITE s2 = Some s3" "ready s3" using enable_total [OF 2(2)] by blast
  obtain s4 where 4: "enable_syncmanchannel E MAILBOX_READ s3 = Some s4" "ready s4" using enable_total [OF 3(2)] by blast
  show ?thesis using 1 2 3 4 by (auto simp: mbx_startmailboxhandler_def)
qed

lemma mbx_stop_total:
  assumes "ready s"
  shows "\<exists>s'. mbx_stopmailboxhandler E g s = Some (g\<lparr>m_mbxrunning := False\<rparr>, s') \<and> ready s'"
proof -
  obtain s3 where 3: "disable_syncmanchannel E MAILBOX_WRITE s = Some s3" "ready s3" using disable_total [OF assms] by blast
  obtain s4 where 4: "disable_syncmanchannel E MAILBOX_READ s3 = Some s4" "ready s4" using disable_total [OF 3(2)] by blast
  show ?thesis using 3 4 by (auto simp: mbx_stopmailboxhandler_def Let_def)
qed

lemma stop_total:
  assumes "ready s"
  shows "\<exists>s'. stop_input_output E g s =
      Some (0, g\<lparr>bEscIntEnabled := False, m_pdoinrun := False, bEcatOutputUpdateRunning := False\<rparr>, s') \<and>
    ready s' \<and> mem s' 0x0817 = mem s 0x0817 OR SM_PDIDISABLE \<and>
    (\<forall>x. x \<notin> {0x0204, 0x0205, 0x0817, 0x081F} \<longrightarrow> mem s' x = mem s x)"
proof -
  let ?m = "NOT (SYNC0_EVENT OR SYNC1_EVENT OR PROCESS_INPUT_EVENT OR PROCESS_OUTPUT_EVENT)"
  obtain s1 where 1: "disable_syncmanchannel E PROCESS_DATA_OUT s = Some s1" "ready s1"
    "mem s1 = (mem s)(0x0817 := mem s 0x0817 OR SM_PDIDISABLE)"
    using disable_total [OF assms, of PROCESS_DATA_OUT] by (auto simp: sm_address_def PROCESS_DATA_OUT_def)
  obtain s2 w where 2: "reset_intmask E ?m s1 = Some s2" "ready s2" "mem s2 = set16 0x0204 w (mem s1)"
    using intmask_total(2) [OF 1(2), of ?m] by blast
  obtain s3 where 3: "disable_syncmanchannel E PROCESS_DATA_IN s2 = Some s3" "ready s3"
    "mem s3 = (mem s2)(0x081F := mem s2 0x081F OR SM_PDIDISABLE)"
    using disable_total [OF 2(2), of PROCESS_DATA_IN] by (auto simp: sm_address_def PROCESS_DATA_IN_def)
  have "pdo_stopinputhandler E g s = Some (0, g\<lparr>bEscIntEnabled := False, m_pdoinrun := False\<rparr>, s3)"
    using 1(1) 2(1) 3(1) by (simp add: pdo_stopinputhandler_def Let_def)
  then show ?thesis
    using 1(3) 2(3) 3(2,3) by (simp add: stop_input_output_def pdo_stopoutputhandler_def set16_def)
qed

lemma startoutput_total:
  assumes "ready s"
  shows "\<exists>g' s'. pdo_startoutputhandler E g s = Some (0, g', s') \<and> ready s' \<and>
    mem s' = (if nPdOutputSize g > 0 \<and> bEcatLocalError g
              then (mem s)(0x0817 := mem s 0x0817 AND NOT SM_PDIDISABLE) else mem s) \<and>
    nPdOutputSize g' = nPdOutputSize g"
proof -
  obtain s1 where 1: "enable_syncmanchannel E PROCESS_DATA_OUT s = Some s1" "ready s1"
    "mem s1 = (mem s)(0x0817 := mem s 0x0817 AND NOT SM_PDIDISABLE)"
    using enable_total [OF assms, of PROCESS_DATA_OUT] by (auto simp: sm_address_def PROCESS_DATA_OUT_def)
  show ?thesis
    using 1 assms by (cases "nPdOutputSize g > 0"; cases "bEcatLocalError g")
      (simp_all add: pdo_startoutputhandler_def Let_def NOERROR_INWORK_def)
qed

lemma startinput_sizes_total:
  assumes "ready s"
  shows "\<exists>s'. startinput_sizes E g s = Some (g\<lparr>nEscAddrOutputData := word16 (mem s 0x0810) (mem s 0x0811),
      nPdOutputSize := word16 (mem s 0x0812) (mem s 0x0813),
      nEscAddrInputData := word16 (mem s 0x0818) (mem s 0x0819),
      nPdInputSize := word16 (mem s 0x081A) (mem s 0x081B)\<rparr>, s') \<and> ready s' \<and> mem s' = mem s"
proof -
  obtain s1 where 1: "get_sm E PROCESS_DATA_OUT s = Some (\<lparr>sm_physical_addr = word16 (mem s 0x0810) (mem s 0x0811),
      sm_length = word16 (mem s 0x0812) (mem s 0x0813), sm_register_control = mem s 0x0814,
      sm_register_status = mem s 0x0815, sm_register_activate = mem s 0x0816, sm_register_pdictl = mem s 0x0817\<rparr>, s1)"
    "ready s1" "mem s1 = mem s"
    using get_sm_total [OF assms, of PROCESS_DATA_OUT] by (auto simp: sm_address_def PROCESS_DATA_OUT_def)
  obtain s2 where 2: "get_sm E PROCESS_DATA_IN s1 = Some (\<lparr>sm_physical_addr = word16 (mem s 0x0818) (mem s 0x0819),
      sm_length = word16 (mem s 0x081A) (mem s 0x081B), sm_register_control = mem s 0x081C,
      sm_register_status = mem s 0x081D, sm_register_activate = mem s 0x081E, sm_register_pdictl = mem s 0x081F\<rparr>, s2)"
    "ready s2" "mem s2 = mem s"
    using get_sm_total [OF 1(2), of PROCESS_DATA_IN] 1(3) by (auto simp: sm_address_def PROCESS_DATA_IN_def)
  show ?thesis using 1(1) 2 by (simp add: startinput_sizes_def Let_def)
qed

lemma startinput_clock_total:
  assumes "ready s"
  shows "\<exists>m g' s'. startinput_clock E g s = Some (m, g', s') \<and> ready s'"
proof -
  obtain d s1 where 1: "rd8 E 0x0981 s = Some (d, s1)" "ready s1"
    using rd8_law [OF assms, of "0x0981"] by auto
  obtain c s2 where 2: "rd32 E 0x09A0 s1 = Some (c, s2)" "ready s2"
    using rd32_law [OF 1(2), of "0x09A0"] by auto
  show ?thesis
    using 1 2 by (cases "d AND (DC_SYNC0_ACTIVE OR DC_SYNC1_ACTIVE) = 0")
      (simp_all add: startinput_clock_def del: bit.conj_disj_distrib)
qed

lemma startinput_channels_total:
  assumes "ready s"
  shows "\<exists>g' s'. startinput_channels E m g s = Some (g', s') \<and> ready s'"
proof -
  obtain g1 s1 where 1: "(if nPdInputSize g > 0
      then Option.bind (enable_syncmanchannel E PROCESS_DATA_IN s) (\<lambda>s. Some (g\<lparr>m_pdoinrun := True\<rparr>, s))
      else Some (g, s)) = Some (g1, s1)" "ready s1"
    using enable_total [OF assms, of PROCESS_DATA_IN] assms by (cases "nPdInputSize g > 0") auto
  obtain s' where e: "enable_syncmanchannel E PROCESS_DATA_OUT s1 = Some s'" "ready s'"
    using enable_total [OF 1(2)] by blast
  obtain g2 s2 where 2: "(if nPdOutputSize g1 > 0
      then Option.bind (if \<not> bEcatLocalError g1 then enable_syncmanchannel E PROCESS_DATA_OUT s1 else Some s1)
        (\<lambda>s. Some (g1\<lparr>m_pdooutrun := True\<rparr>, s))
      else Some (g1, s1)) = Some (g2, s2)" "ready s2"
    using e 1(2) by (cases "nPdOutputSize g1 > 0"; cases "bEcatLocalError g1") auto
  obtain s3 where 3: "set_intmask E (if nPdOutputSize g \<noteq> 0 then m OR PROCESS_OUTPUT_EVENT
      else m OR PROCESS_INPUT_EVENT) s2 = Some s3" "ready s3"
    using intmask_total(1) [OF 2(2)] by blast
  show ?thesis
    unfolding startinput_channels_def Let_def 1(1) Option.bind.simps prod.case 2(1) 3(1)
    using 3(2) by simp
qed

lemma startinput_total:
  assumes "ready s"
  shows "\<exists>g' s'. pdo_startinputhandler E g s = Some (0, g', s') \<and> ready s' \<and>
    (word16 (mem s 0x081A) (mem s 0x081B) = 0 \<longrightarrow> mem s' = mem s \<and>
       bEcatLocalError g' = bEcatLocalError g)"
proof -
  obtain g1 s1 where 1: "startinput_sizes E g s = Some (g1, s1)" "ready s1" "mem s1 = mem s"
    "nPdInputSize g1 = word16 (mem s 0x081A) (mem s 0x081B)" "bEcatLocalError g1 = bEcatLocalError g"
    using startinput_sizes_total [OF assms, of g] by fastforce
  obtain m g2 s2 where 2: "startinput_clock E g1 s1 = Some (m, g2, s2)" "ready s2"
    using startinput_clock_total [OF 1(2)] by blast
  obtain g3 s3 where 3: "startinput_channels E m g2 s2 = Some (g3, s3)" "ready s3"
    using startinput_channels_total [OF 2(2)] by blast
  show ?thesis
    using 1 2 3 by (cases "nPdInputSize g1 = 0") (simp_all add: pdo_startinputhandler_def)
qed
lemma al_switch_total:
  assumes "ready s"
  shows "\<exists>r g' s'. al_switch E t g s = Some (r, g', s') \<and> ready s'"
proof (cases "al_class t = 0")
  case True
  then consider "t = 0x12" | "t = 0x24" | "t = 0x48" | "t \<in> {0x81, 0x41, 0x21}" | "t \<in> {0x82, 0x42}" | "t = 0x84"
    using al_class_zero by blast
  then show ?thesis
  proof cases
    case 1
    then show ?thesis using mbx_start_total [OF assms, of g] by (auto simp: al_switch_eqs(1))
  next
    case 2
    then show ?thesis using startinput_total [OF assms, of g] by (auto simp: al_switch_eqs(2))
  next
    case 3
    then show ?thesis using startoutput_total [OF assms, of g] by (auto simp: al_switch_eqs(3))
  next
    case 4
    obtain s1 where 1: "mbx_stopmailboxhandler E g s = Some (g\<lparr>m_mbxrunning := False\<rparr>, s1)" "ready s1"
      using mbx_stop_total [OF assms] by blast
    show ?thesis using stop_total [OF 1(2), of "g\<lparr>m_mbxrunning := False\<rparr>"] 1(1) unfolding al_switch_eqs(4) [OF 4] by auto
  next
    case 5
    show ?thesis using stop_total [OF assms, of g] unfolding al_switch_eqs(5) [OF 5] by auto
  next
    case 6
    then show ?thesis using assms by (auto simp: al_switch_eqs(6))
  qed
next
  case False
  then show ?thesis using al_switch_refuses [OF False, of E g s] assms by simp
qed

text \<open>The registers after \<open>al_finish\<close>: status and, unless skipped, its code.\<close>

lemma al_finish_total:
  assumes "ready s" and "nAlStatus g = status_of (a, e)" and "nAlStatusCode g = 0"
  shows "\<exists>g' s'. al_finish E (ucast t) r g s = Some (g', s') \<and> ready s' \<and>
    mem s' 0x0130 = nAlStatus g' \<and> mem s' 0x0131 = 0 \<and>
    (t \<noteq> code_of a \<and> r \<noteq> 0 \<and> r \<noteq> 0xFF \<longrightarrow> mem s' 0x0134 = r \<and> mem s' 0x0135 = 0) \<and>
    (\<forall>x. x \<notin> {0x0130, 0x0131, 0x0134, 0x0135} \<longrightarrow> mem s' x = mem s x) \<and>
    bEcatLocalError g' = bEcatLocalError g \<and> nPdOutputSize g' = nPdOutputSize g"
proof -
  note eqs = al_finish_eqs [OF assms(2,3)]
  have high: "ucast (drop_bit 8 (ucast (x :: u8) :: u16)) = (0 :: u8)" for x
    by (rule bit_word_eqI) (auto simp: bit_simps dest: bit_imp_le_length)
  have ff: "(ucast (r :: u8) :: u16) \<noteq> 0xFF" if "r \<noteq> 0xFF"
    using that by (metis ucast_ucast_u8_u16 ucast_ff)
  consider "t = code_of a" | "t \<noteq> code_of a" "r \<noteq> 0" | "t \<noteq> code_of a" "r = 0" by blast
  then show ?thesis
  proof cases
    case 1
    obtain s1 where "SetAlStatus E (ucast (status_of (a, e))) 0xFF s = Some s1" "ready s1"
      "mem s1 = set16 0x0130 (ucast (status_of (a, e))) (mem s)"
      using SetAlStatus_total [OF assms(1), of "ucast (status_of (a, e))" "0xFF"] by auto
    then show ?thesis unfolding eqs(1) [OF 1] using assms(2) 1 by (simp add: set16_def high)
  next
    case 2
    obtain s1 where "SetAlStatus E (ucast (status_of (a, True))) (ucast r) s = Some s1" "ready s1"
      "mem s1 = (if (ucast r :: u16) \<noteq> 0xFF then set16 0x0134 (ucast r) (set16 0x0130 (ucast (status_of (a, True))) (mem s))
        else set16 0x0130 (ucast (status_of (a, True))) (mem s))"
      using SetAlStatus_total [OF assms(1)] by blast
    then show ?thesis using ff by (simp add: eqs(2) [OF 2] set16_def high)
  next
    case 3
    define skip where "skip \<longleftrightarrow> ucast t \<le> (ucast (nAlStatusFailed g) :: u16)"
    obtain s1 where "SetAlStatus E (ucast t) (if skip then 0xFF else 0) s = Some s1" "ready s1"
      "mem s1 = (if skip then set16 0x0130 (ucast t) (mem s) else set16 0x0134 0 (set16 0x0130 (ucast t) (mem s)))"
      using SetAlStatus_total [OF assms(1), of "ucast t" "if skip then 0xFF else 0"] by (cases skip) auto
    then show ?thesis
      unfolding 3(2) eqs(3) [OF 3(1)] Let_def skip_def [symmetric]
      by (cases skip) (simp_all add: set16_def high)
  qed
qed

lemma al_transition_total:
  assumes "ready s" and "al_inv (a, e) g"
  shows "\<exists>g' s'. al_transition E ctl g s = Some (g', s') \<and> ready s' \<and>
    mem s' 0x0130 = nAlStatus g' \<and> mem s' 0x0131 = 0 \<and> code_written a (ucast ctl AND 0x0F) (mem s')"
proof -
  define t :: u8 where "t = ucast ctl"
  have ac: "ctl AND ucast STATE_MASK = ucast (t AND 0x0F)" unfolding t_def STATE_MASK_def by (rule u16_low_nibble)
  let ?T = "push_bit 4 (status_of (a, e)) + (t AND 0x0F)"
  obtain r g1 s1 where sw: "al_switch E ?T g s = Some (r, g1, s1)" "ready s1"
    using al_switch_total [OF assms(1)] by blast
  note step = switch_step [OF assms(2) sw(1)]
  have r: "r \<noteq> 0xFF" using step by (auto split: option.splits if_splits)
  obtain g' s' where fin: "al_finish E (ucast (t AND 0x0F)) r g1 s1 = Some (g', s')" "ready s'"
      "mem s' 0x0130 = nAlStatus g'" "mem s' 0x0131 = 0"
      "t AND 0x0F \<noteq> code_of a \<Longrightarrow> r \<noteq> 0 \<Longrightarrow> r \<noteq> 0xFF \<Longrightarrow> mem s' 0x0134 = r \<and> mem s' 0x0135 = 0"
    using al_finish_total [OF sw(2), of g1 a e "t AND 0x0F" r] step by auto
  have "al_transition E ctl g s = Some (g', s')"
    using sw(1) fin(1) assms(2) unfolding al_transition_def ac
    by (simp add: Let_def al_check_zero al_inv_def)
  moreover have "code_written a (t AND 0x0F) (mem s')"
  proof (cases "state_of (t AND 0x0F)")
    case None
    then have "t AND 0x0F \<noteq> code_of a" by (metis state_of_code_of option.distinct(1))
    then show ?thesis using fin(5) step r None by (simp add: code_written_def)
  next
    case (Some b)
    then have "b \<noteq> a \<Longrightarrow> t AND 0x0F \<noteq> code_of a" by (metis state_of_code_of option.inject)
    then show ?thesis using fin(5) step r Some by (auto simp: code_written_def)
  qed
  ultimately show ?thesis using fin unfolding t_def by blast
qed

lemma al_statemachine_total:
  assumes "ready s" and "al_inv (a, e) g"
  shows "\<exists>g' s'. al_statemachine E ctl g s = Some (g', s') \<and> ready s' \<and>
    registers_after (snd (al_spec_step (ucast ctl) (a, e))) g' (mem s) (mem s')"
proof -
  note st = STATE_ERRACK_def STATE_ERROR_def STATE_MASK_def
  have g: "nAlStatus g = status_of (a, e)" using assms(2) by (simp add: al_inv_def)
  have reply: "registers_after (case state_of t of None \<Rightarrow> Refused 0x12
      | Some b \<Rightarrow> if b = a then Confirmed else if legal a b then Changed else Refused 0x11) g' (mem s) m'"
    if "m' 0x0130 = nAlStatus g'" "m' 0x0131 = 0" "code_written a t m'" for t g' m'
    using that by (auto simp: registers_after_def code_written_def split: option.splits)
  show ?thesis
  proof (cases "(ucast ctl AND 0x10 :: u8) = 0")
    case False
    have "al_inv (a, False) (g\<lparr>nAlStatus := nAlStatus g AND NOT STATE_ERROR\<rparr>)"
      using assms(2) by (simp add: al_inv_def STATE_ERROR_def status_nibble flags_ok_def base_ok_def)
    then obtain g' s' where "al_transition E ctl (g\<lparr>nAlStatus := nAlStatus g AND NOT STATE_ERROR\<rparr>) s = Some (g', s')"
      "ready s'" "mem s' 0x0130 = nAlStatus g'" "mem s' 0x0131 = 0" "code_written a (ucast ctl AND 0x0F) (mem s')"
      using al_transition_total [OF assms(1)] by blast
    moreover have "snd (al_spec_step (ucast ctl) (a, e)) = (case state_of (ucast ctl AND 0x0F) of None \<Rightarrow> Refused 0x12
      | Some b \<Rightarrow> if b = a then Confirmed else if legal a b then Changed else Refused 0x11)"
      using False by (simp add: al_spec_step_def Let_def split: option.splits)
    ultimately show ?thesis
      using False reply by (simp add: al_statemachine_def STATE_ERRACK_def u16_bit4)
  next
    case ack: True
    show ?thesis
    proof (cases "e \<and> ucast ctl AND 0x0F > code_of a")
      case True
      then have "al_statemachine E ctl g s = Some (g, s)" using ack g
        by (simp add: al_statemachine_def st u16_bit4 status_nibble)
      then show ?thesis using True ack assms(1) by (simp add: al_spec_step_def registers_after_def)
    next
      case False
      then have "al_statemachine E ctl g s = al_transition E ctl g s" using ack g
        by (auto simp: al_statemachine_def st u16_bit4 status_nibble)
      moreover obtain g' s' where "al_transition E ctl g s = Some (g', s')"
        "ready s'" "mem s' 0x0130 = nAlStatus g'" "mem s' 0x0131 = 0" "code_written a (ucast ctl AND 0x0F) (mem s')"
        using al_transition_total [OF assms] by blast
      moreover have "snd (al_spec_step (ucast ctl) (a, e)) = (case state_of (ucast ctl AND 0x0F) of None \<Rightarrow> Refused 0x12
        | Some b \<Rightarrow> if b = a then Confirmed else if legal a b then Changed else Refused 0x11)"
        using ack False by (auto simp: al_spec_step_def Let_def split: option.splits)
      ultimately show ?thesis using reply by simp
    qed
  qed
qed

end

section \<open>Words and bytes\<close>

lemma word32_bytes:
  "ucast (word32 b0 b1 b2 b3) = b0" "ucast (drop_bit 8 (word32 b0 b1 b2 b3)) = b1"
  "ucast (drop_bit 16 (word32 b0 b1 b2 b3)) = b2" "ucast (drop_bit 24 (word32 b0 b1 b2 b3)) = b3"
  by (rule bit_word_eqI; auto simp: word32_def bit_simps dest: bit_imp_le_length)+

lemma word32_id: "word32 b0 b1 b2 b3 = 0x0f080808 \<longleftrightarrow> b0 = 8 \<and> b1 = 8 \<and> b2 = 8 \<and> b3 = 0x0f"
proof
  assume "word32 b0 b1 b2 b3 = 0x0f080808"
  then have "b0 = ucast (0x0f080808 :: u32)" "b1 = ucast (drop_bit 8 0x0f080808 :: u32)"
    "b2 = ucast (drop_bit 16 0x0f080808 :: u32)" "b3 = ucast (drop_bit 24 0x0f080808 :: u32)"
    using word32_bytes [of b0 b1 b2 b3] by metis+
  then show "b0 = 8 \<and> b1 = 8 \<and> b2 = 8 \<and> b3 = 0x0f" by simp
qed (simp add: word32_def)

lemma word32_sum:
  "ucast b0 + push_bit 8 (ucast b1) + push_bit 16 (ucast b2) + push_bit 24 (ucast b3) = word32 b0 b1 b2 b3"
proof -
  have 1: "(ucast b0 :: u32) + push_bit 8 (ucast b1) = ucast b0 OR push_bit 8 (ucast b1)"
    by (rule disjunctive_add) (auto simp: bit_simps dest: bit_imp_le_length)
  have 2: "(ucast b0 OR push_bit 8 (ucast b1) :: u32) + push_bit 16 (ucast b2)
      = ucast b0 OR push_bit 8 (ucast b1) OR push_bit 16 (ucast b2)"
    unfolding or.assoc [symmetric]
    by (rule disjunctive_add) (auto simp: bit_simps dest!: bit_imp_le_length)
  have 3: "(ucast b0 OR push_bit 8 (ucast b1) OR push_bit 16 (ucast b2) :: u32) + push_bit 24 (ucast b3)
      = (ucast b0 OR push_bit 8 (ucast b1) OR push_bit 16 (ucast b2)) OR push_bit 24 (ucast b3)"
    by (rule disjunctive_add) (auto simp: bit_simps dest!: bit_imp_le_length)
  show ?thesis unfolding 1 2 3 by (simp add: word32_def or.commute or.left_commute)
qed

section \<open>Start-up and process data on a working link\<close>

text \<open>The output loop never gets past the end of the array, whatever the link does.\<close>

lemma read_output_overflow:
  "i + n > MAX_PD_OUTPUT_SIZE \<Longrightarrow> i \<le> MAX_PD_OUTPUT_SIZE \<Longrightarrow> read_output_loop E n i address buf s = None"
proof (induction n arbitrary: i address buf s)
  case (Suc n)
  from Suc.prems(1) have "MAX_PD_OUTPUT_SIZE < Suc i + n" by simp
  then show ?case using Suc.IH [of "Suc i"]
    by (cases "rd8 E address s") auto
qed simp

lemma offset_Suc: "(address :: u16) + 1 + of_nat k = address + of_nat (Suc k)"
  by (simp add: add.assoc)

lemma address_next:
  assumes "unat (address :: u16) + Suc n \<le> 0x2000"
  shows "address < 0x2000" and "n = 0 \<or> unat (address + 1) + n \<le> 0x2000"
proof -
  show "address < 0x2000" using assms by (simp add: word_less_nat_alt)
  have "unat (address + 1) = unat address + 1" using assms by (simp add: unat_word_ariths)
  then show "n = 0 \<or> unat (address + 1) + n \<le> 0x2000" using assms by simp
qed

text \<open>The bytes \<open>writeinputdata\<close> sends.\<close>

definition input_pattern :: "nat \<Rightarrow> u8" where
  "input_pattern i = (if i = 0 then 0x11 else if i = 1 then 0x22 else if i = 2 then 0x33
     else if i = 3 then 0x44 else 0)"

text \<open>One exchange of process data, when both areas lie in the controller's memory.\<close>

definition areas_ok :: "ecat \<Rightarrow> bool" where
  "areas_ok g \<longleftrightarrow> (nPdOutputSize g = 0 \<or> unat (nEscAddrOutputData g) + unat (nPdOutputSize g) \<le> 0x2000) \<and>
     (nPdInputSize g = 0 \<or> unat (nEscAddrInputData g) + unat (nPdInputSize g) \<le> 0x2000) \<and>
     unat (nPdOutputSize g) \<le> MAX_PD_OUTPUT_SIZE \<and> length (aPdOutputData g) = MAX_PD_OUTPUT_SIZE"

context esc_port begin

lemma rw_tests:
  assumes "ready s"
  shows "\<exists>s'. rw_test_8 E s = Some s' \<and> ready s' \<and> mem s' = (mem s)(0x0204 := 1)"
    and "\<exists>s'. rw_test_16 E s = Some s' \<and> ready s' \<and> mem s' = set16 0x0204 0x93 (mem s)"
proof -
  obtain s1 where 1: "wr8 E 0x0204 1 s = Some s1" "ready s1" "mem s1 = (mem s)(0x0204 := 1)"
    using wr8_law [OF assms, of "0x0204" 1] by auto
  then obtain s2 where "rd8 E 0x0204 s1 = Some (1, s2)" "ready s2" "mem s2 = mem s1"
    using rd8_law [OF 1(2), of "0x0204"] by auto
  with 1 show "\<exists>s'. rw_test_8 E s = Some s' \<and> ready s' \<and> mem s' = (mem s)(0x0204 := 1)"
    by (subst rw_test_8.simps) simp
  obtain s3 where 3: "wr16 E 0x0204 0x93 s = Some s3" "ready s3" "mem s3 = set16 0x0204 0x93 (mem s)"
    using wr16_law [OF assms, of "0x0204" "0x93"] by (auto simp: set16_def)
  then obtain s4 where "rd16 E 0x0204 s3 = Some (0x93, s4)" "ready s4" "mem s4 = mem s3"
    using rd16_law [OF 3(2), of "0x0204"] by (auto simp: set16_def word16_def)
  with 3 show "\<exists>s'. rw_test_16 E s = Some s' \<and> ready s' \<and> mem s' = set16 0x0204 0x93 (mem s)"
    by (subst rw_test_16.simps) simp
qed

definition chip_id :: "'s \<Rightarrow> u32" where
  "chip_id s = word32 (mem s 4) (mem s 5) (mem s 6) (mem s 7)"

lemma r_test_32_ok:
  assumes "ready s" and "chip_id s = 0x0f080808"
  shows "\<exists>s'. r_test_32 E s = Some s' \<and> ready s' \<and> mem s' = mem s"
proof -
  obtain s1 where "rd32 E 0x0004 s = Some (chip_id s, s1)" "ready s1" "mem s1 = mem s"
    using rd32_law [OF assms(1), of 4] by (auto simp: chip_id_def)
  with assms(2) show ?thesis by (subst r_test_32.simps) simp
qed

lemma r_test_32_hangs:
  assumes "r_test_32 E s = Some s'" and "ready s"
  shows "chip_id s = 0x0f080808"
proof -
  have "E' = E \<longrightarrow> ready t \<longrightarrow> chip_id t = 0x0f080808" if "r_test_32 E' t = Some t'" for E' t t'
  proof (rule r_test_32.raw_induct [OF _ that, of "\<lambda>E' t _. E' = E \<longrightarrow> ready t \<longrightarrow> chip_id t = 0x0f080808"],
      intro impI)
    fix f E' s s'
    assume IH: "\<And>E' s b. f E' s = Some b \<Longrightarrow> E' = E \<longrightarrow> ready s \<longrightarrow> chip_id s = 0x0f080808"
      and body: "Option.bind (rd32 E' 4 s) (\<lambda>(info, s). if info \<noteq> 0x0f080808 then f E' s else Some s) = Some s'"
      and "E' = E" "ready s"
    obtain s1 where s1: "rd32 E 4 s = Some (chip_id s, s1)" "ready s1" "mem s1 = mem s"
      using rd32_law [OF \<open>ready s\<close>, of 4] by (auto simp: chip_id_def)
    show "chip_id s = 0x0f080808"
    proof (rule ccontr)
      assume no: "chip_id s \<noteq> 0x0f080808"
      then have "f E s1 = Some s'" using body s1(1) \<open>E' = E\<close> by simp
      then have "chip_id s1 = 0x0f080808" using IH s1(2) by blast
      with no s1(3) show False by (simp add: chip_id_def)
    qed
  qed
  with assms show ?thesis by blast
qed

lemma rw_test_ok:
  assumes "ready s" and "chip_id s = 0x0f080808"
  shows "\<exists>s'. rw_test E s = Some s' \<and> ready s' \<and> mem s' = set16 0x0204 0x93 (mem s)"
proof -
  obtain s1 where 1: "rw_test_8 E s = Some s1" "ready s1" "mem s1 = (mem s)(0x0204 := 1)"
    using rw_tests(1) [OF assms(1)] by blast
  obtain s2 where 2: "rw_test_16 E s1 = Some s2" "ready s2" "mem s2 = set16 0x0204 0x93 (mem s1)"
    using rw_tests(2) [OF 1(2)] by blast
  have m: "mem s2 = set16 0x0204 0x93 (mem s)" using 2(3) 1(3) by (auto simp: set16_def)
  then have "chip_id s2 = 0x0f080808" using assms(2) by (simp add: chip_id_def set16_def)
  then show ?thesis using r_test_32_ok [OF 2(2)] 1(1) 2(1) m by (auto simp: rw_test_def)
qed

lemma rw_test_needs_id:
  assumes "ready s" and "rw_test E s = Some s'"
  shows "chip_id s = 0x0f080808"
proof -
  obtain s1 where 1: "rw_test_8 E s = Some s1" "ready s1" "mem s1 = (mem s)(0x0204 := 1)"
    using rw_tests(1) [OF assms(1)] by blast
  obtain s2 where 2: "rw_test_16 E s1 = Some s2" "ready s2" "mem s2 = set16 0x0204 0x93 (mem s1)"
    using rw_tests(2) [OF 1(2)] by blast
  have "r_test_32 E s2 = Some s'" using assms(2) 1(1) 2(1) by (simp add: rw_test_def)
  from r_test_32_hangs [OF this 2(2)] show ?thesis using 1(3) 2(3) by (simp add: chip_id_def set16_def)
qed

lemma ECAT_init_ok:
  assumes "ready s" and "chip_id s = 0x0f080808"
  shows "\<exists>s'. ECAT_init E g s = Some (g\<lparr>m_maxsyncman := 8, nAlStatus := STATE_INIT, nPdInputSize := 0,
      nPdOutputSize := 0, bEscIntEnabled := False\<rparr>, s') \<and> ready s' \<and>
    mem s' = set16 0x0134 0 (set16 0x0130 1 (set16 0x0206 0 (set16 0x0204 0 (mem s))))"
proof -
  obtain s1 where 1: "rw_test E s = Some s1" "ready s1" "mem s1 = set16 0x0204 0x93 (mem s)"
    using rw_test_ok [OF assms] by blast
  obtain s2 where 2: "wr16 E 0x0204 0 s1 = Some s2" "ready s2" "mem s2 = set16 0x0204 0 (mem s)"
    using wr16_law [OF 1(2), of "0x0204" 0] 1(3) by (auto simp: set16_def)
  obtain s3 where 3: "wr16 E 0x0206 0 s2 = Some s3" "ready s3" "mem s3 = set16 0x0206 0 (set16 0x0204 0 (mem s))"
    using wr16_law [OF 2(2), of "0x0206" 0] 2(3) by (auto simp: set16_def)
  have "mem s 5 = 8" using assms(2) by (simp add: chip_id_def word32_id)
  then have "mem s3 5 = 8" using 3(3) by (simp add: set16_def)
  then obtain s4 where 4: "rd8 E 5 s3 = Some (8, s4)" "ready s4" "mem s4 = mem s3"
    using rd8_law [OF 3(2), of 5] by auto
  have n: "read_maxsyncman E s3 = Some (8, s4)" using 4(1) by (subst read_maxsyncman.simps) simp
  obtain s5 where 5: "SetAlStatus E 1 0 s4 = Some s5" "ready s5" "mem s5 = set16 0x0134 0 (set16 0x0130 1 (mem s4))"
    using SetAlStatus_total [OF 4(2), of 1 0] by auto
  show ?thesis
    using 1(1) 2(1) 3(1) n 5 4(3) 3(3) by (simp add: ECAT_init_def Let_def STATE_INIT_def)
qed

lemma main_start_iff:
  assumes "ready s"
  shows "main_start E s \<noteq> None \<longleftrightarrow> chip_id s = 0x0f080808"
proof
  assume "main_start E s \<noteq> None"
  then obtain s1 where "rw_test E s = Some s1" by (auto simp: main_start_def ECAT_init_def bind_eq_Some_conv)
  then show "chip_id s = 0x0f080808" by (rule rw_test_needs_id [OF assms])
next
  assume "chip_id s = 0x0f080808"
  then show "main_start E s \<noteq> None" using ECAT_init_ok [OF assms, of ecat_globals] by (auto simp: main_start_def)
qed

lemma read_output_run:
  assumes "ready s" and "i + n \<le> MAX_PD_OUTPUT_SIZE" and "length buf = MAX_PD_OUTPUT_SIZE"
    and "n = 0 \<or> unat address + n \<le> 0x2000"
  shows "\<exists>s'. read_output_loop E n i address buf s =
      Some (take i buf @ map (\<lambda>k. mem s (address + of_nat k)) [0..<n] @ drop (i + n) buf, s') \<and>
    ready s' \<and> mem s' = mem s"
  using assms
proof (induction n arbitrary: i address buf s)
  case (Suc n)
  note adr = address_next [of address n]
  obtain s1 where 1: "rd8 E address s = Some (mem s address, s1)" "ready s1" "mem s1 = mem s"
    using rd8_law [OF Suc.prems(1) adr(1)] Suc.prems(4) by auto
  have i: "i < MAX_PD_OUTPUT_SIZE" "Suc i + n \<le> MAX_PD_OUTPUT_SIZE" using Suc.prems(2) by auto
  obtain s' where 2: "read_output_loop E n (Suc i) (address + 1) (buf[i := mem s address]) s1 =
      Some (take (Suc i) (buf[i := mem s address]) @ map (\<lambda>k. mem s1 (address + 1 + of_nat k)) [0..<n] @
        drop (Suc i + n) (buf[i := mem s address]), s')" "ready s'" "mem s' = mem s1"
    using Suc.IH [OF 1(2) i(2), of "buf[i := mem s address]" "address + 1"] Suc.prems(3,4) adr(2) by auto
  have "take (Suc i) (buf[i := mem s address]) = take i buf @ [mem s address]"
    using i Suc.prems(3) by (simp add: take_Suc_conv_app_nth)
  moreover have "map (\<lambda>k. mem s (address + of_nat k)) [0..<Suc n]
      = mem s address # map (\<lambda>k. mem s (address + 1 + of_nat k)) [0..<n]"
    unfolding offset_Suc by (simp add: upt_conv_Cons map_Suc_upt [symmetric] del: upt_Suc)
  ultimately show ?case using 1 2 i by simp
qed simp

lemma write_input_run:
  assumes "ready s" and "n = 0 \<or> unat address + n \<le> 0x2000"
  shows "\<exists>s'. write_input_loop E n i address s = Some s' \<and> ready s' \<and>
    (\<forall>x. mem s' x = (if unat address \<le> unat x \<and> unat x < unat address + n
      then input_pattern (i + (unat x - unat address)) else mem s x))"
  using assms
proof (induction n arbitrary: i address s)
  case (Suc n)
  note adr = address_next [of address n]
  have lim: "unat address + Suc n \<le> 0x2000" using Suc.prems(2) by simp
  obtain s1 where 1: "wr8 E address (input_pattern i) s = Some s1" "ready s1"
    "mem s1 = (mem s)(address := input_pattern i)"
    using wr8_law [OF Suc.prems(1) adr(1) [OF lim]] by blast
  obtain s' where 2: "write_input_loop E n (Suc i) (address + 1) s1 = Some s'" "ready s'"
    "\<forall>x. mem s' x = (if unat (address + 1) \<le> unat x \<and> unat x < unat (address + 1) + n
      then input_pattern (Suc i + (unat x - unat (address + 1))) else mem s1 x)"
    using Suc.IH [OF 1(2) adr(2) [OF lim]] by blast
  have next1: "unat (address + 1) = unat address + 1" using lim by (simp add: unat_word_ariths)
  have "mem s' x = (if unat address \<le> unat x \<and> unat x < unat address + Suc n
      then input_pattern (i + (unat x - unat address)) else mem s x)" for x
  proof (cases "x = address")
    case True
    then show ?thesis using 2(3) 1(3) next1 by simp
  next
    case False
    then have "unat x \<noteq> unat address" by (simp add: word_unat_eq_iff)
    then show ?thesis using 2(3) 1(3) next1 False by (auto simp: Suc_diff_Suc Suc_le_eq)
  qed
  then show ?case using 1(1) 2(1,2) by (auto simp: input_pattern_def)
qed auto

lemma readoutputdata_run:
  assumes "ready s" and "areas_ok g"
  shows "\<exists>buf s'. readoutputdata E g s = Some (word32 (buf ! 0) (buf ! 1) (buf ! 2) (buf ! 3),
      g\<lparr>aPdOutputData := buf\<rparr>, s') \<and> ready s' \<and> mem s' = mem s \<and>
    buf = map (\<lambda>k. mem s (nEscAddrOutputData g + of_nat k)) [0..<unat (nPdOutputSize g)]
      @ drop (unat (nPdOutputSize g)) (aPdOutputData g)"
proof -
  have "unat (nPdOutputSize g) = 0 \<or> unat (nEscAddrOutputData g) + unat (nPdOutputSize g) \<le> 0x2000"
    "0 + unat (nPdOutputSize g) \<le> MAX_PD_OUTPUT_SIZE" "length (aPdOutputData g) = MAX_PD_OUTPUT_SIZE"
    using assms(2) by (auto simp: areas_ok_def unat_eq_0)
  from read_output_run [OF assms(1) this(2,3,1)] show ?thesis
    by (auto simp: readoutputdata_def Let_def word32_sum)
qed

lemma writeinputdata_run:
  assumes "ready s" and "areas_ok g"
  shows "\<exists>s'. writeinputdata E g s = Some s' \<and> ready s' \<and>
    (\<forall>x. mem s' x = (if unat (nEscAddrInputData g) \<le> unat x \<and>
        unat x < unat (nEscAddrInputData g) + unat (nPdInputSize g)
      then input_pattern (unat x - unat (nEscAddrInputData g)) else mem s x))"
proof -
  have "unat (nPdInputSize g) = 0 \<or> unat (nEscAddrInputData g) + unat (nPdInputSize g) \<le> 0x2000"
    using assms(2) by (auto simp: areas_ok_def unat_eq_0)
  from write_input_run [OF assms(1) this, of 0] show ?thesis
    by (simp only: writeinputdata_def add_0)
qed

lemma free_run_op:
  assumes "ready s" and "areas_ok g" and "output_event g" and "bEcatOutputUpdateRunning g"
    and "4 \<le> unat (nPdOutputSize g)"
  shows "\<exists>g' s'. free_run E g s = Some (g', s') \<and> ready s' \<and>
    dda_log g' = dda_log g @ [word32 (mem s (nEscAddrOutputData g)) (mem s (nEscAddrOutputData g + 1))
      (mem s (nEscAddrOutputData g + 2)) (mem s (nEscAddrOutputData g + 3))] \<and>
    (\<forall>x. mem s' x = (if unat (nEscAddrInputData g) \<le> unat x \<and>
        unat x < unat (nEscAddrInputData g) + unat (nPdInputSize g)
      then input_pattern (unat x - unat (nEscAddrInputData g)) else mem s x))"
proof -
  obtain buf s1 where 1: "readoutputdata E g s = Some (word32 (buf ! 0) (buf ! 1) (buf ! 2) (buf ! 3),
      g\<lparr>aPdOutputData := buf\<rparr>, s1)" "ready s1" "mem s1 = mem s"
    "buf = map (\<lambda>k. mem s (nEscAddrOutputData g + of_nat k)) [0..<unat (nPdOutputSize g)]
      @ drop (unat (nPdOutputSize g)) (aPdOutputData g)"
    using readoutputdata_run [OF assms(1,2)] by blast
  have nth: "buf ! k = mem s (nEscAddrOutputData g + of_nat k)" if "k < 4" for k
    using that assms(5) by (simp add: 1(4) nth_append)
  have len: "length buf = MAX_PD_OUTPUT_SIZE"
    using 1(4) assms(2) by (simp add: areas_ok_def)
  have "areas_ok (g\<lparr>aPdOutputData := buf\<rparr>)" using assms(2) len by (simp add: areas_ok_def)
  from writeinputdata_run [OF 1(2) this] show ?thesis
    using 1(1,3) assms(3,4) nth [of 0] nth [of 1] nth [of 2] nth [of 3]
    by (auto simp: free_run_def exchange_process_data_def dda_out_def)
qed

end

section \<open>Stopping and starting without inputs\<close>

lemma al_step_legal:
  assumes "al_inv (a, False) g" and "legal a b"
  shows "al_statemachine E (ucast (code_of b)) g s =
    do { (r, g1, s1) \<leftarrow> al_switch E (push_bit 4 (code_of a) + code_of b) g s;
         al_finish E (ucast (code_of b)) r g1 s1 }"
proof -
  have b4: "(code_of b AND 0x10 :: u8) = 0" and low: "code_of b AND 0x0F = code_of b" for b
    by (cases b; simp)+
  have ac: "(ucast (code_of b) :: u16) AND ucast STATE_MASK = ucast (code_of b)"
    unfolding STATE_MASK_def u16_low_nibble by (simp add: low)
  show ?thesis
    using assms(1) unfolding al_statemachine_def al_transition_def ac
    by (simp add: STATE_ERRACK_def STATE_ERROR_def u16_bit4 b4 al_inv_def status_nibble Let_def al_check_zero)
qed

context esc_port begin

text \<open>One legal change, with what it does to the memory outside the status registers.\<close>

lemma legal_change:
  assumes "ready s" and "al_inv (a, False) g" and "legal a b"
    and "al_switch E (push_bit 4 (code_of a) + code_of b) g s = Some (0, g1, s1)" and "ready s1"
  shows "\<exists>g' s'. al_statemachine E (ucast (code_of b)) g s = Some (g', s') \<and> ready s' \<and>
    al_inv (b, False) g' \<and> bEcatLocalError g' = bEcatLocalError g1 \<and>
    (\<forall>x. x \<notin> {0x0130, 0x0131, 0x0134, 0x0135} \<longrightarrow> mem s' x = mem s1 x)"
proof -
  have low: "code_of b AND 0x0F = code_of b" "(code_of b AND 0x10 :: u8) = 0" by (cases b; simp)+
  have "nAlStatus g1 = status_of (a, False) \<and> nAlStatusCode g1 = 0"
    using switch_step [OF assms(2), of E "code_of b" s 0 g1 s1] assms(4) low by (simp add: status_nibble)
  then obtain g' s' where fin: "al_finish E (ucast (code_of b)) 0 g1 s1 = Some (g', s')" "ready s'"
    "bEcatLocalError g' = bEcatLocalError g1" "\<forall>x. x \<notin> {0x0130, 0x0131, 0x0134, 0x0135} \<longrightarrow> mem s' x = mem s1 x"
    using al_finish_total [OF assms(5), of g1 a False "code_of b" 0] by blast
  then have run: "al_statemachine E (ucast (code_of b)) g s = Some (g', s')"
    using assms(4) by (simp add: al_step_legal [OF assms(2,3)])
  have "al_inv (fst (al_spec_step (ucast (ucast (code_of b) :: u16)) (a, False))) g'"
    by (rule al_statemachine_refines [OF assms(2) run])
  moreover have "a \<noteq> b" using assms(3) by (cases a) auto
  ultimately have "al_inv (b, False) g'"
    using assms(3) low by (simp add: al_spec_step_def Let_def)
  with run fin show ?thesis by blast
qed

lemma restart_without_inputs:
  assumes "ready s" and "al_inv (Al_OP, False) g" and "\<not> bEcatLocalError g"
    and "mem s 0x081A = 0" and "mem s 0x081B = 0"
  shows "\<exists>g1 s1 g2 s2 g3 s3. al_statemachine E 2 g s = Some (g1, s1) \<and>
    al_statemachine E 4 g1 s1 = Some (g2, s2) \<and> al_statemachine E 8 g2 s2 = Some (g3, s3) \<and>
    al_inv (Al_OP, False) g3 \<and> mem s3 0x0130 = 8 \<and> mem s3 0x0817 = mem s 0x0817 OR SM_PDIDISABLE"
proof -
  obtain sa where a: "stop_input_output E g s =
      Some (0, g\<lparr>bEscIntEnabled := False, m_pdoinrun := False, bEcatOutputUpdateRunning := False\<rparr>, sa)"
    "ready sa" "mem sa 0x0817 = mem s 0x0817 OR SM_PDIDISABLE"
    "\<forall>x. x \<notin> {0x0204, 0x0205, 0x0817, 0x081F} \<longrightarrow> mem sa x = mem s x"
    using stop_total [OF assms(1)] by blast
  obtain g1 s1 where 1: "al_statemachine E 2 g s = Some (g1, s1)" "ready s1" "al_inv (Al_PREOP, False) g1"
    "\<not> bEcatLocalError g1" "mem s1 0x0817 = mem s 0x0817 OR SM_PDIDISABLE" "mem s1 0x081A = 0" "mem s1 0x081B = 0"
    using legal_change [OF assms(1,2), of Al_PREOP _ sa] a assms(3-5) by (auto simp: al_switch_eqs(5))
  obtain gb sb where b: "pdo_startinputhandler E g1 s1 = Some (0, gb, sb)" "ready sb" "mem sb = mem s1"
    "bEcatLocalError gb = bEcatLocalError g1"
    using startinput_total [OF 1(2), of g1] 1(6,7) by (auto simp: word16_def)
  obtain g2 s2 where 2: "al_statemachine E 4 g1 s1 = Some (g2, s2)" "ready s2" "al_inv (Al_SAFEOP, False) g2"
    "\<not> bEcatLocalError g2" "mem s2 0x0817 = mem s 0x0817 OR SM_PDIDISABLE"
    using legal_change [OF 1(2,3), of Al_SAFEOP gb sb] b 1(4,5) by (auto simp: al_switch_eqs(2))
  obtain gc sc where c: "pdo_startoutputhandler E g2 s2 = Some (0, gc, sc)" "ready sc" "mem sc = mem s2"
    using startoutput_total [OF 2(2), of g2] 2(4) by auto
  obtain g3 s3 where 3: "al_statemachine E 8 g2 s2 = Some (g3, s3)" "ready s3" "al_inv (Al_OP, False) g3"
    "mem s3 0x0817 = mem s 0x0817 OR SM_PDIDISABLE"
    using legal_change [OF 2(2,3), of Al_OP gc sc] c 2(5) by (auto simp: al_switch_eqs(3))
  have "registers_after (snd (al_spec_step (ucast (8 :: u16)) (Al_SAFEOP, False))) g3 (mem s2) (mem s3)"
    using al_statemachine_total [OF 2(2,3), of 8] 3(1) by auto
  then have "mem s3 0x0130 = nAlStatus g3"
    by (simp add: registers_after_def al_spec_step_def state_of_def)
  then have "mem s3 0x0130 = 8" using 3(3) by (simp add: al_inv_def status_of_def)
  with 1 2 3 show ?thesis by blast
qed

lemma start_up_facts:
  assumes "ready s"
  shows "(main_start E s \<noteq> None \<longleftrightarrow> mem s 4 = 8 \<and> mem s 5 = 8 \<and> mem s 6 = 8 \<and> mem s 7 = 0x0f) \<and>
    (\<forall>g s'. main_start E s = Some (g, s') \<longrightarrow> m_maxsyncman g = 8 \<and>
       mem s' 0x0130 = 1 \<and> mem s' 0x0134 = 0 \<and> mem s' 0x0204 = 0 \<and> mem s' 0x0205 = 0)"
proof (cases "chip_id s = 0x0f080808")
  case True
  then show ?thesis
    using ECAT_init_ok [OF assms True, of ecat_globals]
    by (auto simp: main_start_def dda_out_def set16_def chip_id_def word32_id)
next
  case False
  then show ?thesis using main_start_iff [OF assms] by (auto simp: chip_id_def word32_id)
qed

end

section \<open>A controller to run on\<close>

definition boot_mem :: "u16 \<Rightarrow> u8" where
  "boot_mem a = (if a = 4 \<or> a = 5 \<or> a = 6 then 8 else if a = 7 then 0x0f
     else if a = 0x0812 then 4 else if a = 0x0811 then 0x10 else 0)"

lemma boot_ready: "sim_ready (sim_power_up boot_mem 3)" "sim_mem (sim_power_up boot_mem 3) = boot_mem"
  by (simp_all add: sim_power_up)

lemma boot_id: "sim.chip_id (sim_power_up boot_mem 3) = 0x0f080808"
  by (simp add: sim.chip_id_def boot_ready(2) boot_mem_def word32_id)

text \<open>The globals in the state \<open>p\<close>.\<close>

definition globals_in :: "al_state \<times> bool \<Rightarrow> ecat" where
  "globals_in p = ecat_globals\<lparr>nAlStatus := status_of p, m_mbxrunning := (fst p \<noteq> Al_INIT),
     bEcatOutputUpdateRunning := (fst p = Al_OP), bEcatLocalError := False\<rparr>"

lemma globals_in_inv: "al_inv p (globals_in p)"
  by (simp add: globals_in_def al_inv_def flags_ok_def base_ok_def ecat_globals_def)

section \<open>Properties\<close>

text \<open>
  C17. A request always gets its answer. On a link that satisfies \<open>esc_port\<close>,
  \<open>al_statemachine\<close> returns in every state and for every control word, reaches the successor
  state of the specification, and unless the request is ignored leaves that status in the
  AL status register, with code 0x0011 for a jump and 0x0012 for an unknown state.
\<close>
theorem al_request_answered:
  assumes "esc_port E mem ready" and "ready s" and "al_inv (a, e) g"
  shows "\<exists>g' s'. al_statemachine E ctl g s = Some (g', s') \<and> ready s' \<and>
    al_inv (fst (al_spec_step (ucast ctl) (a, e))) g' \<and>
    registers_after (snd (al_spec_step (ucast ctl) (a, e))) g' (mem s) (mem s')"
proof -
  obtain g' s' where run: "al_statemachine E ctl g s = Some (g', s')" "ready s'"
    "registers_after (snd (al_spec_step (ucast ctl) (a, e))) g' (mem s) (mem s')"
    using esc_port.al_statemachine_total [OF assms] by blast
  show ?thesis using run al_statemachine_refines [OF assms(3) run(1)] by blast
qed

theorem al_request_answered_witness:
  "\<exists>g' s'. al_statemachine (spi_ops sim_hw) 0x08 (globals_in (Al_INIT, False)) (sim_power_up boot_mem 3) = Some (g', s') \<and>
     nAlStatus g' = 0x11 \<and> sim_mem s' 0x0130 = 0x11 \<and> sim_mem s' 0x0134 = 0x11"
proof -
  have spec: "al_spec_step (ucast (0x08 :: u16)) (Al_INIT, False) = ((Al_INIT, True), Refused 0x11)"
    by (simp add: al_spec_step_def state_of_def)
  show ?thesis
    using al_request_answered [OF sim.esc_port_axioms boot_ready(1) globals_in_inv, where ctl = "0x08" and a = Al_INIT and e = False]
    unfolding spec by (auto simp: registers_after_def al_inv_def status_of_def)
qed

text \<open>
  C18. Start-up. On such a link the program gets past its self test exactly when the four
  bytes from register 4 on are 08 08 08 0F: with any other controller \<open>rw_test\<close> polls for
  ever. When it does, it reports INIT without error, clears the event mask, and has found
  eight sync managers.
\<close>
theorem start_up:
  assumes "esc_port E mem ready" and "ready s"
  shows "(main_start E s \<noteq> None \<longleftrightarrow> mem s 4 = 8 \<and> mem s 5 = 8 \<and> mem s 6 = 8 \<and> mem s 7 = 0x0f) \<and>
    (\<forall>g s'. main_start E s = Some (g, s') \<longrightarrow> al_inv (Al_INIT, False) g \<and> m_maxsyncman g = 8 \<and>
       mem s' 0x0130 = 1 \<and> mem s' 0x0134 = 0 \<and> mem s' 0x0204 = 0 \<and> mem s' 0x0205 = 0)"
  using esc_port.start_up_facts [OF assms] main_start_inv [of E s] by simp

theorem start_up_witness:
  "\<exists>g s'. main_start (spi_ops sim_hw) (sim_power_up boot_mem 3) = Some (g, s') \<and> m_maxsyncman g = 8"
  using start_up [OF sim.esc_port_axioms boot_ready(1)] by (auto simp: boot_ready(2) boot_mem_def)



text \<open>
  Overflow. The size of the output area is whatever the master wrote into the sync
  manager; with more than 64 bytes \<open>readoutputdata\<close> runs past the end of \<open>aPdOutputData\<close>
  (and never completes within it, whatever the controller answers).
\<close>
theorem output_overflow:
  assumes "MAX_PD_OUTPUT_SIZE < unat (nPdOutputSize g)"
  shows "readoutputdata E g s = None"
  using assms by (simp add: readoutputdata_def read_output_overflow)

theorem output_overflow_witness:
  "readoutputdata (spi_ops sim_hw) (ecat_globals\<lparr>nPdOutputSize := 65\<rparr>) (sim_power_up boot_mem 3) = None"
  by (rule output_overflow) (simp add: MAX_PD_OUTPUT_SIZE_def)

text \<open>
  C20. Restart without inputs. With a configuration that has no inputs, a slave that goes
  from OP to PREOP and back to OP through SAFEOP reports OP again, but its output sync
  manager stays disabled for the application: \<open>pdo_stopinputhandler\<close> has set the disable bit,
  \<open>pdo_startinputhandler\<close> returns early because the input length is 0, and
  \<open>pdo_startoutputhandler\<close> enables the channel only after a local error.
\<close>
theorem outputs_stay_disabled:
  assumes "esc_port E mem ready" and "ready s" and "al_inv (Al_OP, False) g" and "\<not> bEcatLocalError g"
    and "mem s 0x081A = 0" and "mem s 0x081B = 0"
  shows "\<exists>g1 s1 g2 s2 g3 s3. al_statemachine E 2 g s = Some (g1, s1) \<and>
    al_statemachine E 4 g1 s1 = Some (g2, s2) \<and> al_statemachine E 8 g2 s2 = Some (g3, s3) \<and>
    al_inv (Al_OP, False) g3 \<and> mem s3 0x0130 = 8 \<and> mem s3 0x0817 = mem s 0x0817 OR SM_PDIDISABLE"
  by (rule esc_port.restart_without_inputs [OF assms])

theorem outputs_stay_disabled_witness:
  "\<exists>g1 s1 g2 s2 g3 s3. al_statemachine (spi_ops sim_hw) 2 (globals_in (Al_OP, False)) (sim_power_up boot_mem 3) = Some (g1, s1) \<and>
    al_statemachine (spi_ops sim_hw) 4 g1 s1 = Some (g2, s2) \<and> al_statemachine (spi_ops sim_hw) 8 g2 s2 = Some (g3, s3) \<and>
    nAlStatus g3 = 8 \<and> sim_mem s3 0x0817 = 1"
proof -
  have "\<not> bEcatLocalError (globals_in (Al_OP, False))" "sim_mem (sim_power_up boot_mem 3) 0x081A = 0"
    "sim_mem (sim_power_up boot_mem 3) 0x081B = 0" "sim_mem (sim_power_up boot_mem 3) 0x0817 = 0"
    by (simp_all add: globals_in_def boot_ready(2) boot_mem_def)
  with outputs_stay_disabled [OF sim.esc_port_axioms boot_ready(1) globals_in_inv this(1-3)] show ?thesis
    by (fastforce simp: al_inv_def status_of_def SM_PDIDISABLE_def)
qed

section \<open>Witnesses of the state machine properties\<close>

theorem al_statemachine_spec_witness:
  "\<exists>g' s'. al_statemachine (spi_ops sim_hw) 0x02 (globals_in (Al_INIT, False)) (sim_power_up boot_mem 3) = Some (g', s') \<and>
     al_inv (Al_PREOP, False) g'"
proof -
  obtain g' s' where "al_statemachine (spi_ops sim_hw) 0x02 (globals_in (Al_INIT, False)) (sim_power_up boot_mem 3) = Some (g', s')"
    using sim.al_statemachine_total [OF boot_ready(1) globals_in_inv, where ctl = "0x02" and a = Al_INIT and e = False] by blast
  with al_statemachine_spec [OF globals_in_inv this] show ?thesis
    by (auto simp: al_spec_step_def state_of_def)
qed


theorem run_flags_never_cleared_witness:
  "\<exists>g' s'. al_statemachine (spi_ops sim_hw) 0x01 ((globals_in (Al_OP, False))\<lparr>m_pdooutrun := True\<rparr>)
     (sim_power_up boot_mem 3) = Some (g', s') \<and> nAlStatus g' = 1 \<and> m_pdooutrun g'"
proof -
  let ?g = "(globals_in (Al_OP, False))\<lparr>m_pdooutrun := True\<rparr>"
  have inv: "al_inv (Al_OP, False) ?g"
    using globals_in_inv [of "(Al_OP, False)"] by (simp add: al_inv_def flags_ok_def base_ok_def)
  obtain g' s' where run: "al_statemachine (spi_ops sim_hw) 0x01 ?g (sim_power_up boot_mem 3) = Some (g', s')"
    using sim.al_statemachine_total [OF boot_ready(1) inv, where ctl = "0x01"] by blast
  have "al_inv (Al_INIT, False) g'"
    using al_statemachine_refines [OF inv run] by (simp add: al_spec_step_def state_of_def)
  with run run_flags_never_cleared [OF run] show ?thesis by (auto simp: al_inv_def status_of_def)
qed

end
