(* ===== verification/Hal_Llist.thy ===== *)
theory Hal_Llist
  imports Cnc_Prelude
begin

text \<open>
  The doubly linked rings of the HAL (\<open>sys/alt_llist.h\<close>) on an explicit store: a pointer is a
  number, and the store gives the two links of every node. A ring with head \<open>l\<close> stands for the
  list of the nodes met from the head on. The interface \<open>ring_store\<close> states what its clients
  (the device, file system, flash and alarm lists) rely on; the code's own operations
  interpret it.
\<close>

section \<open>The operations of the code\<close>

type_synonym ptr = nat

record llist =
  ll_next :: "ptr \<Rightarrow> ptr"
  ll_previous :: "ptr \<Rightarrow> ptr"

definition ALT_LLIST_HEAD :: "ptr \<Rightarrow> llist \<Rightarrow> llist" where
  "ALT_LLIST_HEAD l h = h\<lparr>ll_next := (ll_next h)(l := l), ll_previous := (ll_previous h)(l := l)\<rparr>"

definition alt_llist_insert :: "ptr \<Rightarrow> ptr \<Rightarrow> llist \<Rightarrow> llist" where
  "alt_llist_insert l entry h =
    (let h = h\<lparr>ll_previous := (ll_previous h)(entry := l)\<rparr>;
         h = h\<lparr>ll_next := (ll_next h)(entry := ll_next h l)\<rparr>;
         h = h\<lparr>ll_previous := (ll_previous h)(ll_next h l := entry)\<rparr>
     in h\<lparr>ll_next := (ll_next h)(l := entry)\<rparr>)"

definition alt_llist_remove :: "ptr \<Rightarrow> llist \<Rightarrow> llist" where
  "alt_llist_remove entry h =
    (let h = h\<lparr>ll_previous := (ll_previous h)(ll_next h entry := ll_previous h entry)\<rparr>;
         h = h\<lparr>ll_next := (ll_next h)(ll_previous h entry := ll_next h entry)\<rparr>;
         h = h\<lparr>ll_previous := (ll_previous h)(entry := entry)\<rparr>
     in h\<lparr>ll_next := (ll_next h)(entry := entry)\<rparr>)"

text \<open>
  The loop of \<open>alt_find_dev\<close>, \<open>alt_find_file\<close> and \<open>alt_tick\<close>'s relatives: from a node on,
  until the head comes round again. \<open>None\<close> is a loop that never meets the head, or a test
  that is undefined at a node.
\<close>

partial_function (option) ring_search ::
  "(ptr \<Rightarrow> bool option) \<Rightarrow> llist \<Rightarrow> ptr \<Rightarrow> ptr \<Rightarrow> ptr option option" where
  "ring_search test h l next =
    (if next = l then Some None
     else Option.bind (test next) (\<lambda>found.
       if found then Some (Some next) else ring_search test h l (ll_next h next)))"

declare ring_search.simps [code]

section \<open>Rings as lists\<close>

text \<open>\<open>linked h a xs b\<close>: from \<open>a\<close>, the links lead through \<open>xs\<close> to \<open>b\<close>, in both directions.\<close>

fun linked :: "llist \<Rightarrow> ptr \<Rightarrow> ptr list \<Rightarrow> ptr \<Rightarrow> bool" where
  "linked h a [] b \<longleftrightarrow> ll_next h a = b \<and> ll_previous h b = a"
| "linked h a (x # xs) b \<longleftrightarrow> ll_next h a = x \<and> ll_previous h x = a \<and> linked h x xs b"

definition ring :: "llist \<Rightarrow> ptr \<Rightarrow> ptr list \<Rightarrow> bool" where
  "ring h l xs \<longleftrightarrow> distinct (l # xs) \<and> linked h l xs l"

lemma linked_append: "linked h a (xs @ y # ys) b \<longleftrightarrow> linked h a xs y \<and> linked h y ys b"
  by (induction xs arbitrary: a) auto

text \<open>\<open>linked\<close> looks at the \<open>next\<close> of all nodes but the last, and the \<open>previous\<close> of all but the first.\<close>

lemma linked_cong:
  assumes "\<And>p. p \<in> insert a (set xs) \<Longrightarrow> ll_next h' p = ll_next h p"
    and "\<And>p. p \<in> insert b (set xs) \<Longrightarrow> ll_previous h' p = ll_previous h p"
  shows "linked h' a xs b \<longleftrightarrow> linked h a xs b"
  using assms by (induction xs arbitrary: a) auto

lemma ring_head: "ring (ALT_LLIST_HEAD l h) l []"
  by (simp add: ring_def ALT_LLIST_HEAD_def)

lemma ring_next: "ring h l xs \<Longrightarrow> ll_next h l = (case xs of [] \<Rightarrow> l | x # _ \<Rightarrow> x)"
  by (cases xs) (simp_all add: ring_def)

lemma insert_links:
  assumes "ring h l xs" "e \<notin> set (l # xs)"
  shows "ll_next (alt_llist_insert l e h) = (ll_next h)(e := ll_next h l, l := e)"
    "ll_previous (alt_llist_insert l e h) = (ll_previous h)(e := l, ll_next h l := e)"
  using assms by (auto simp: alt_llist_insert_def Let_def)

lemma ring_insert:
  assumes r: "ring h l xs" and e: "e \<notin> set (l # xs)"
  shows "ring (alt_llist_insert l e h) l (e # xs)"
proof (cases xs)
  case Nil
  then show ?thesis using r e by (simp add: ring_def insert_links [OF assms])
next
  case (Cons x ys)
  have "linked (alt_llist_insert l e h) x ys l \<longleftrightarrow> linked h x ys l"
    using r e Cons by (intro linked_cong) (auto simp: insert_links [OF assms] ring_def)
  then show ?thesis using r e Cons by (auto simp: ring_def insert_links [OF assms])
qed

lemma remove_links:
  assumes "ll_next h e \<noteq> e" "ll_previous h e \<noteq> e"
  shows "ll_next (alt_llist_remove e h) = (ll_next h)(ll_previous h e := ll_next h e, e := e)"
    "ll_previous (alt_llist_remove e h) = (ll_previous h)(ll_next h e := ll_previous h e, e := e)"
  using assms by (auto simp: alt_llist_remove_def Let_def)

lemma linked_ends:
  "linked h a xs b \<Longrightarrow> ll_next h a = hd (xs @ [b]) \<and> ll_previous h b = last (a # xs)"
  by (induction xs arbitrary: a) auto

lemma ring_remove:
  assumes "ring h l (xs @ e # ys)"
  shows "ring (alt_llist_remove e h) l (xs @ ys)" "ll_next (alt_llist_remove e h) e = e"
proof -
  let ?h = "alt_llist_remove e h" and ?p = "last (l # xs)" and ?n = "hd (ys @ [l])"
  have d: "distinct (l # xs @ e # ys)" and links: "linked h l xs e" "linked h e ys l"
    using assms by (simp_all add: ring_def linked_append)
  have p: "ll_previous h e = ?p" and n: "ll_next h e = ?n" using linked_ends links by blast+
  have "?p \<in> set (l # xs)" "?n \<in> set (ys @ [l])" by (rule last_in_set hd_in_set, simp)+
  then have pn: "?p \<noteq> e" "?n \<noteq> e" using d by auto
  note upd = remove_links [of h e, unfolded p n, OF pn(2,1)]
  show "ll_next ?h e = e" by (simp add: upd)
  show "ring ?h l (xs @ ys)"
  proof (cases xs rule: rev_exhaust)
    case Nil
    show ?thesis
    proof (cases ys)
      case (Cons y zs)
      have "linked ?h y zs l \<longleftrightarrow> linked h y zs l" using d Nil Cons by (intro linked_cong) (auto simp: upd)
      then show ?thesis using d links Nil Cons by (simp add: ring_def upd)
    qed (use d Nil in \<open>simp add: ring_def upd\<close>)
  next
    case (snoc ws w)
    have left: "linked ?h l ws w \<longleftrightarrow> linked h l ws w"
      using d snoc by (cases ys) (intro linked_cong; auto simp: upd)+
    show ?thesis
    proof (cases ys)
      case (Cons y zs)
      have "linked ?h y zs l \<longleftrightarrow> linked h y zs l" using d snoc Cons by (intro linked_cong) (auto simp: upd)
      then show ?thesis using d links snoc Cons left by (simp add: ring_def upd linked_append)
    qed (use d links snoc left in \<open>simp add: ring_def upd linked_append\<close>)
  qed
qed

text \<open>Writes to nodes outside a ring leave it alone: rings with different nodes are independent.\<close>

lemma ring_frame:
  assumes "ring h l xs" "\<And>p. p \<in> set (l # xs) \<Longrightarrow> ll_next h' p = ll_next h p \<and> ll_previous h' p = ll_previous h p"
  shows "ring h' l xs"
  using assms(1) linked_cong [of l xs h' h l] assms(2) by (auto simp: ring_def)

lemma ring_insert_other:
  assumes "ring h l xs" "ring h l' ys" "set (l # xs) \<inter> set (l' # ys) = {}" "e \<notin> set (l # xs)" "e \<notin> set (l' # ys)"
  shows "ring (alt_llist_insert l' e h) l xs"
proof (rule ring_frame [OF assms(1)])
  have "ll_next h l' \<in> set (l' # ys)" using ring_next [OF assms(2)] by (cases ys) auto
  then show "ll_next (alt_llist_insert l' e h) p = ll_next h p \<and> ll_previous (alt_llist_insert l' e h) p = ll_previous h p"
    if "p \<in> set (l # xs)" for p
    using that assms(3,4) by (auto simp: insert_links [OF assms(2,5)])
qed

lemma ring_step:
  assumes "ring h l (xs @ x # ys)"
  shows "ll_next h x = (case ys of [] \<Rightarrow> l | y # _ \<Rightarrow> y)" "x \<noteq> l"
  using assms by (auto simp: ring_def linked_append split: list.split)

section \<open>Searching\<close>

text \<open>On a ring the search ends, and finds the first node that passes the test.\<close>

lemma search_from:
  assumes "ring h l (xs @ ys)" and "\<And>x. x \<in> set ys \<Longrightarrow> test x = Some (P x)"
  shows "ring_search test h l (case ys of [] \<Rightarrow> l | y # _ \<Rightarrow> y) = Some (find P ys)"
  using assms
proof (induction ys arbitrary: xs)
  case Nil
  then show ?case by (simp add: ring_search.simps)
next
  case (Cons y ys)
  have "ring_search test h l (ll_next h y) = Some (find P ys)"
    using Cons.IH [of "xs @ [y]"] Cons.prems ring_step(1) [OF Cons.prems(1)] by simp
  then show ?case
    using Cons.prems ring_step(2) [OF Cons.prems(1)] by (simp add: ring_search.simps [of _ _ _ y])
qed

lemma ring_search_find:
  assumes "ring h l xs" and "\<And>x. x \<in> set xs \<Longrightarrow> test x = Some (P x)"
  shows "ring_search test h l (ll_next h l) = Some (find P xs)"
  using search_from [of h l "[]" xs test P] assms ring_next [OF assms(1)] by simp

section \<open>The interface of a registry\<close>

text \<open>
  What the lists of devices, file systems, flash memories and alarms are to their users: a
  sequence of registered nodes, where registering puts a node in front, unregistering takes it
  out, and a search from the first node meets them in order.
\<close>

locale registry =
  fixes insert_node :: "ptr \<Rightarrow> 'h \<Rightarrow> 'h" and remove_node :: "ptr \<Rightarrow> 'h \<Rightarrow> 'h"
    and search :: "(ptr \<Rightarrow> bool option) \<Rightarrow> 'h \<Rightarrow> ptr option option"
    and nodes :: "'h \<Rightarrow> ptr list \<Rightarrow> bool" and outside :: "ptr \<Rightarrow> bool"
  assumes insert_law: "nodes h xs \<Longrightarrow> e \<notin> set xs \<Longrightarrow> \<not> outside e \<Longrightarrow> nodes (insert_node e h) (e # xs)"
    and remove_law: "nodes h (xs @ e # ys) \<Longrightarrow> nodes (remove_node e h) (xs @ ys)"
    and search_law: "nodes h xs \<Longrightarrow> (\<And>x. x \<in> set xs \<Longrightarrow> test x = Some (P x)) \<Longrightarrow> search test h = Some (find P xs)"
    and distinct_law: "nodes h xs \<Longrightarrow> distinct xs"
begin

lemma register_unregister:
  assumes "nodes h xs" "e \<notin> set xs" "\<not> outside e"
  shows "nodes (remove_node e (insert_node e h)) xs"
  using remove_law [of "insert_node e h" "[]" e xs] insert_law [OF assms] by simp

lemma newest_first:
  assumes "nodes h xs" "e \<notin> set xs" "\<not> outside e" "\<And>x. x \<in> set (e # xs) \<Longrightarrow> test x = Some (P x)" "P e"
  shows "search test (insert_node e h) = Some (Some e)"
  using search_law [OF insert_law [OF assms(1-3)] assms(4)] assms(5) by simp

lemma unregistered_not_found:
  assumes "nodes h (xs @ e # ys)" "\<And>x. x \<in> set (xs @ ys) \<Longrightarrow> test x = Some (P x)"
  shows "search test (remove_node e h) \<noteq> Some (Some e)"
proof -
  have "e \<notin> set (xs @ ys)" using distinct_law [OF assms(1)] by auto
  then show ?thesis
    using search_law [OF remove_law [OF assms(1)] assms(2)] by (auto dest: find_in_set)
qed

end

text \<open>Every ring of the store, whatever its head, is such a registry.\<close>

interpretation llist: registry "alt_llist_insert l" alt_llist_remove
  "\<lambda>test h. ring_search test h l (ll_next h l)" "\<lambda>h xs. ring h l xs" "\<lambda>p. p = l" for l
proof unfold_locales
  show "ring (alt_llist_insert l e h) l (e # xs)" if "ring h l xs" "e \<notin> set xs" "e \<noteq> l" for h xs e
    using ring_insert [OF that(1)] that by simp
qed (use ring_remove(1) ring_search_find in \<open>auto simp: ring_def\<close>)

end
