(* ===== verification/Hal_Fd.thy ===== *)
theory Hal_Fd
  imports Hal_Llist "HOL-Library.Monad_Syntax"
begin

text \<open>
  The file descriptor layer of the HAL (\<open>HAL/src/alt_open.c\<close>, \<open>alt_close.c\<close>, \<open>alt_read.c\<close>,
  \<open>alt_write.c\<close>, \<open>alt_lseek.c\<close>, \<open>alt_fcntl.c\<close>, \<open>alt_ioctl.c\<close>, \<open>alt_fstat.c\<close>, \<open>alt_isatty.c\<close> and
  what they call), in the configuration with device structures (\<open>ALT_USE_DIRECT_DRIVERS\<close> not
  defined). The device structures are an argument \<open>D\<close> from pointers to their contents; their
  callbacks get the descriptor they work on and the state \<open>'w\<close> of the drivers. A call has the
  value \<open>None\<close> where the C code does not return, leaves the descriptor array or follows a
  null pointer.
\<close>

unbundle bit_operations_syntax

section \<open>Constants\<close>

text \<open>Error numbers and flags of the C library (newlib).\<close>

definition EIO :: int where "EIO = 5"
definition EWOULDBLOCK :: int where "EWOULDBLOCK = 11"
definition ENOMEM :: int where "ENOMEM = 12"
definition EACCES :: int where "EACCES = 13"
definition ENODEV :: int where "ENODEV = 19"
definition EINVAL :: int where "EINVAL = 22"
definition EMFILE :: int where "EMFILE = 24"
definition ENOTTY :: int where "ENOTTY = 25"
definition EBADFD :: int where "EBADFD = 81"
definition ENOSYS :: int where "ENOSYS = 88"
definition ENOTSUP :: int where "ENOTSUP = 134"

lemmas error_numbers = EIO_def EWOULDBLOCK_def ENOMEM_def EACCES_def ENODEV_def EINVAL_def EMFILE_def
  ENOTTY_def EBADFD_def ENOSYS_def ENOTSUP_def

definition O_RDONLY :: u32 where "O_RDONLY = 0"
definition O_WRONLY :: u32 where "O_WRONLY = 1"
definition O_ACCMODE :: u32 where "O_ACCMODE = 3"
definition O_APPEND :: u32 where "O_APPEND = 8"
definition O_NONBLOCK :: u32 where "O_NONBLOCK = 0x4000"
definition F_GETFL :: int where "F_GETFL = 3"
definition F_SETFL :: int where "F_SETFL = 4"
definition S_IFCHR :: u32 where "S_IFCHR = 0x2000"

definition ALT_MAX_FD :: nat where "ALT_MAX_FD = 32"
definition ALT_FD_EXCL :: u32 where "ALT_FD_EXCL = 0x80000000"
definition ALT_FD_DEV :: u32 where "ALT_FD_DEV = 0x40000000"
definition ALT_FD_FLAGS_MASK :: u32 where "ALT_FD_FLAGS_MASK = ALT_FD_EXCL OR ALT_FD_DEV"
definition ALT_FCNTL_FLAGS_MASK :: u32 where "ALT_FCNTL_FLAGS_MASK = O_APPEND OR O_NONBLOCK"
definition TIOCEXCL :: u32 where "TIOCEXCL = 0x740d"
definition TIOCNXCL :: u32 where "TIOCNXCL = 0x740e"

section \<open>State\<close>

record alt_fd =
  fd_dev :: "ptr option"
  fd_priv :: u32
  fd_flags :: u32

text \<open>A null function pointer is \<open>None\<close>. \<open>fstat\<close> also gives the mode it stores.\<close>

record 'w alt_dev =
  dev_name :: "string option"
  dev_open :: "(alt_fd \<Rightarrow> string \<Rightarrow> u32 \<Rightarrow> u32 \<Rightarrow> 'w \<Rightarrow> (int \<times> alt_fd \<times> 'w) option) option"
  dev_close :: "(alt_fd \<Rightarrow> 'w \<Rightarrow> (int \<times> alt_fd \<times> 'w) option) option"
  dev_read :: "(alt_fd \<Rightarrow> nat \<Rightarrow> 'w \<Rightarrow> ((int \<times> u8 list) \<times> alt_fd \<times> 'w) option) option"
  dev_write :: "(alt_fd \<Rightarrow> u8 list \<Rightarrow> 'w \<Rightarrow> (int \<times> alt_fd \<times> 'w) option) option"
  dev_lseek :: "(alt_fd \<Rightarrow> int \<Rightarrow> int \<Rightarrow> 'w \<Rightarrow> (int \<times> alt_fd \<times> 'w) option) option"
  dev_fstat :: "(alt_fd \<Rightarrow> 'w \<Rightarrow> ((int \<times> u32) \<times> alt_fd \<times> 'w) option) option"
  dev_ioctl :: "(alt_fd \<Rightarrow> u32 \<Rightarrow> u32 \<Rightarrow> 'w \<Rightarrow> (int \<times> alt_fd \<times> 'w) option) option"

record 'w hal =
  alt_fd_list :: "alt_fd list"
  alt_max_fd :: int
  links :: llist
  alt_errno :: int
  world :: 'w

text \<open>The addresses of the two list heads and of \<open>alt_dev_null\<close>.\<close>

definition alt_dev_list :: ptr where "alt_dev_list = 0"
definition alt_fs_list :: ptr where "alt_fs_list = 1"
definition alt_dev_null :: ptr where "alt_dev_null = 2"

definition alt_dev_null_write :: "alt_fd \<Rightarrow> u8 list \<Rightarrow> 'w \<Rightarrow> (int \<times> alt_fd \<times> 'w) option" where
  "alt_dev_null_write fd bytes w = Some (int (length bytes), fd, w)"

definition alt_dev_null_struct :: "'w alt_dev" where
  "alt_dev_null_struct = \<lparr>dev_name = Some ''/dev/null'', dev_open = None, dev_close = None, dev_read = None,
     dev_write = Some alt_dev_null_write, dev_lseek = None, dev_fstat = None, dev_ioctl = None\<rparr>"

definition hal_init :: "'w \<Rightarrow> 'w hal" where
  "hal_init w =
    \<lparr>alt_fd_list = replicate 3 \<lparr>fd_dev = Some alt_dev_null, fd_priv = 0, fd_flags = 0\<rparr> @
       replicate (ALT_MAX_FD - 3) \<lparr>fd_dev = None, fd_priv = 0, fd_flags = 0\<rparr>,
     alt_max_fd = -1,
     links = alt_llist_insert alt_dev_list alt_dev_null
       (ALT_LLIST_HEAD alt_dev_list (ALT_LLIST_HEAD alt_fs_list \<lparr>ll_next = id, ll_previous = id\<rparr>)),
     alt_errno = 0, world = w\<rparr>"

section \<open>Registration\<close>

definition alt_dev_llist_insert :: "(ptr \<Rightarrow> 'w alt_dev) \<Rightarrow> ptr option \<Rightarrow> ptr \<Rightarrow> 'w hal \<Rightarrow> int \<times> 'w hal" where
  "alt_dev_llist_insert D dev l h =
    (case dev of
       None \<Rightarrow> (- EINVAL, h\<lparr>alt_errno := EINVAL\<rparr>)
     | Some d \<Rightarrow>
         if dev_name (D d) = None then (- EINVAL, h\<lparr>alt_errno := EINVAL\<rparr>)
         else (0, h\<lparr>links := alt_llist_insert l d (links h)\<rparr>))"

definition alt_dev_reg :: "(ptr \<Rightarrow> 'w alt_dev) \<Rightarrow> ptr option \<Rightarrow> 'w hal \<Rightarrow> int \<times> 'w hal" where
  "alt_dev_reg D dev h = alt_dev_llist_insert D dev alt_dev_list h"

definition alt_fs_reg :: "(ptr \<Rightarrow> 'w alt_dev) \<Rightarrow> ptr \<Rightarrow> 'w hal \<Rightarrow> int \<times> 'w hal" where
  "alt_fs_reg D dev h =
    (if dev_name (D dev) = None then (- ENODEV, h)
     else (0, h\<lparr>links := alt_llist_insert alt_fs_list dev (links h)\<rparr>))"

section \<open>Searching by name\<close>

text \<open>
  A C string is the characters before its terminator. \<open>memcmp_eq s t n\<close> compares the first \<open>n\<close>
  bytes of two C strings; bytes behind a terminator never decide it, because the other string
  differs at the terminator.
\<close>

definition NUL :: char where "NUL = CHR 0x00"

definition memcmp_eq :: "string \<Rightarrow> string \<Rightarrow> nat \<Rightarrow> bool" where
  "memcmp_eq s t n \<longleftrightarrow> take n (s @ [NUL]) = take n (t @ [NUL])"

definition alt_find_dev :: "(ptr \<Rightarrow> 'w alt_dev) \<Rightarrow> string \<Rightarrow> ptr \<Rightarrow> llist \<Rightarrow> ptr option option" where
  "alt_find_dev D name l h =
    (let len = length name + 1
     in ring_search (\<lambda>next. case dev_name (D next) of
                        None \<Rightarrow> None
                      | Some s \<Rightarrow> Some (memcmp_eq s name len)) h l (ll_next h l))"

text \<open>The test of \<open>alt_find_file\<close>. An empty file system name would be read at index -1.\<close>

definition char_at :: "string \<Rightarrow> nat \<Rightarrow> char" where
  "char_at s i = (if i < length s then s ! i else NUL)"

definition fs_matches :: "string \<Rightarrow> string option \<Rightarrow> bool option" where
  "fs_matches name fs =
    (case fs of
       None \<Rightarrow> None
     | Some s \<Rightarrow>
         if s = [] then None
         else let len = length s;
                  len = (if s ! (len - 1) = CHR ''/'' then len - 1 else len)
              in Some ((char_at name len = CHR ''/'' \<or> char_at name len = NUL) \<and> memcmp_eq s name len))"

definition alt_find_file :: "(ptr \<Rightarrow> 'w alt_dev) \<Rightarrow> string \<Rightarrow> llist \<Rightarrow> ptr option option" where
  "alt_find_file D name h =
    ring_search (\<lambda>next. fs_matches name (dev_name (D next))) h alt_fs_list (ll_next h alt_fs_list)"

section \<open>The descriptor table\<close>

definition set_fd :: "nat \<Rightarrow> alt_fd \<Rightarrow> 'w hal \<Rightarrow> 'w hal" where
  "set_fd i fd h = h\<lparr>alt_fd_list := (alt_fd_list h)[i := fd]\<rparr>"

text \<open>\<open>&alt_fd_list[file]\<close>, for an index inside the array.\<close>

definition fd_at :: "int \<Rightarrow> 'w hal \<Rightarrow> alt_fd option" where
  "fd_at file h = (if 0 \<le> file \<and> nat file < length (alt_fd_list h) then Some (alt_fd_list h ! nat file) else None)"

function get_fd_loop :: "nat \<Rightarrow> ptr \<Rightarrow> 'w hal \<Rightarrow> int \<times> 'w hal" where
  "get_fd_loop i dev h =
    (if i < ALT_MAX_FD then
       if fd_dev (alt_fd_list h ! i) = None
       then (int i, (set_fd i ((alt_fd_list h ! i)\<lparr>fd_dev := Some dev\<rparr>) h)
                      \<lparr>alt_max_fd := if int i > alt_max_fd h then int i else alt_max_fd h\<rparr>)
       else get_fd_loop (i + 1) dev h
     else (- EMFILE, h))"
  by pat_completeness auto
termination by (relation "measure (\<lambda>(i, _). ALT_MAX_FD - i)") auto

declare get_fd_loop.simps [simp del]

definition alt_get_fd :: "ptr \<Rightarrow> 'w hal \<Rightarrow> int \<times> 'w hal" where
  "alt_get_fd dev h = get_fd_loop 0 dev h"

definition alt_release_fd :: "int \<Rightarrow> 'w hal \<Rightarrow> 'w hal" where
  "alt_release_fd fd h =
    (if fd > 2 then set_fd (nat fd) ((alt_fd_list h ! nat fd)\<lparr>fd_flags := 0, fd_dev := None\<rparr>) h else h)"

text \<open>
  The loop of \<open>alt_fd_lock\<close> stops before \<open>alt_max_fd\<close>; the one of \<open>alt_file_locked\<close> includes it,
  and compares it as an unsigned number.
\<close>

function fd_lock_loop :: "nat \<Rightarrow> nat \<Rightarrow> 'w hal \<Rightarrow> int option" where
  "fd_lock_loop i fd h =
    (if int i < alt_max_fd h then
       if i \<ge> length (alt_fd_list h) then None
       else if i \<noteq> fd \<and> fd_dev (alt_fd_list h ! i) = fd_dev (alt_fd_list h ! fd) then Some (- EACCES)
       else fd_lock_loop (i + 1) fd h
     else Some 0)"
  by pat_completeness auto
termination by (relation "measure (\<lambda>(i, _, h). length (alt_fd_list h) - i)") auto

declare fd_lock_loop.simps [simp del]

definition alt_fd_lock :: "nat \<Rightarrow> 'w hal \<Rightarrow> (int \<times> 'w hal) option" where
  "alt_fd_lock fd h =
    do {
      rc \<leftarrow> fd_lock_loop 0 fd h;
      if rc < 0 then Some (rc, h)
      else (let f = alt_fd_list h ! fd in Some (rc, set_fd fd (f\<lparr>fd_flags := fd_flags f OR ALT_FD_EXCL\<rparr>) h))
    }"

definition alt_fd_unlock :: "nat \<Rightarrow> 'w hal \<Rightarrow> int \<times> 'w hal" where
  "alt_fd_unlock fd h =
    (let f = alt_fd_list h ! fd in (0, set_fd fd (f\<lparr>fd_flags := fd_flags f AND NOT ALT_FD_EXCL\<rparr>) h))"

function file_locked_loop :: "nat \<Rightarrow> nat \<Rightarrow> 'w hal \<Rightarrow> int option" where
  "file_locked_loop i fd h =
    (if int i \<le> uint (of_int (alt_max_fd h) :: u32) then
       if i \<ge> length (alt_fd_list h) then None
       else if fd_dev (alt_fd_list h ! i) = fd_dev (alt_fd_list h ! fd) \<and>
               fd_flags (alt_fd_list h ! i) AND ALT_FD_EXCL \<noteq> 0 \<and> i \<noteq> fd
       then Some (- EACCES)
       else file_locked_loop (i + 1) fd h
     else Some 0)"
  by pat_completeness auto
termination by (relation "measure (\<lambda>(i, _, h). length (alt_fd_list h) - i)") auto

declare file_locked_loop.simps [simp del]

definition alt_file_locked :: "nat \<Rightarrow> 'w hal \<Rightarrow> (int \<times> 'w hal) option" where
  "alt_file_locked fd h =
    (let f = alt_fd_list h ! fd;
         h = set_fd fd (f\<lparr>fd_flags := fd_flags f OR ALT_FD_DEV\<rparr>) h
     in do { rc \<leftarrow> file_locked_loop 0 fd h; Some (rc, h) })"

section \<open>System calls\<close>

definition open_failed :: "int \<Rightarrow> int \<Rightarrow> 'w hal \<Rightarrow> int \<times> 'w hal" where
  "open_failed index status h = (-1, (alt_release_fd index h)\<lparr>alt_errno := - status\<rparr>)"

text \<open>The search of \<open>alt_open\<close>: devices first, then file systems.\<close>

definition open_search :: "(ptr \<Rightarrow> 'w alt_dev) \<Rightarrow> string \<Rightarrow> 'w hal \<Rightarrow> (ptr option \<times> bool) option" where
  "open_search D file h =
    do {
      dev \<leftarrow> alt_find_dev D file alt_dev_list (links h);
      if dev \<noteq> None then Some (dev, False)
      else do { dev \<leftarrow> alt_find_file D file (links h); Some (dev, True) }
    }"

text \<open>The device's own \<open>open\<close>, if it has one.\<close>

definition open_callback ::
  "(ptr \<Rightarrow> 'w alt_dev) \<Rightarrow> ptr \<Rightarrow> nat \<Rightarrow> string \<Rightarrow> u32 \<Rightarrow> u32 \<Rightarrow> 'w hal \<Rightarrow> (int \<times> 'w hal) option" where
  "open_callback D d i file flags mode h =
    (case dev_open (D d) of
       None \<Rightarrow> Some (0, h)
     | Some f \<Rightarrow> do {
         (status, fd, w) \<leftarrow> f (alt_fd_list h ! i) file flags mode (world h);
         Some (status, (set_fd i fd h)\<lparr>world := w\<rparr>)
       })"

definition alt_open :: "(ptr \<Rightarrow> 'w alt_dev) \<Rightarrow> string \<Rightarrow> u32 \<Rightarrow> u32 \<Rightarrow> 'w hal \<Rightarrow> (int \<times> 'w hal) option" where
  "alt_open D file flags mode h =
    do {
      (dev, isafs) \<leftarrow> open_search D file h;
      case dev of
        None \<Rightarrow> Some (open_failed (-1) (- ENODEV) h)
      | Some d \<Rightarrow>
          (case alt_get_fd d h of (index, h) \<Rightarrow>
             if index < 0 then Some (open_failed index index h)
             else do {
               let i = nat index;
               let h = set_fd i ((alt_fd_list h ! i)\<lparr>fd_flags := flags AND NOT ALT_FD_FLAGS_MASK\<rparr>) h;
               (status, h) \<leftarrow> (if isafs then Some (0, h) else alt_file_locked i h);
               (status, h) \<leftarrow>
                 (if status \<ge> 0 then open_callback D d i file flags mode h else Some (status, h));
               Some (if status < 0 then open_failed index status h else (index, h))
             })
    }"

definition alt_close :: "(ptr \<Rightarrow> 'w alt_dev) \<Rightarrow> int \<Rightarrow> 'w hal \<Rightarrow> (int \<times> 'w hal) option" where
  "alt_close D fildes h =
    (if fildes < 0 then Some (-1, h\<lparr>alt_errno := EBADFD\<rparr>)
     else do {
       fd \<leftarrow> fd_at fildes h;
       d \<leftarrow> fd_dev fd;
       (rval, h) \<leftarrow>
         (case dev_close (D d) of
            None \<Rightarrow> Some (0, h)
          | Some f \<Rightarrow> do { (rval, fd, w) \<leftarrow> f fd (world h); Some (rval, (set_fd (nat fildes) fd h)\<lparr>world := w\<rparr>) });
       let h = alt_release_fd fildes h;
       Some (if rval < 0 then (-1, h\<lparr>alt_errno := - rval\<rparr>) else (0, h))
     })"

text \<open>What \<open>alt_read\<close>, \<open>alt_write\<close> and \<open>alt_lseek\<close> return: a negative result of the driver
  becomes the error number.\<close>

definition driver_result :: "int \<Rightarrow> 'w hal \<Rightarrow> int \<times> 'w hal" where
  "driver_result rval h = (if rval < 0 then (-1, h\<lparr>alt_errno := - rval\<rparr>) else (rval, h))"

definition alt_read :: "(ptr \<Rightarrow> 'w alt_dev) \<Rightarrow> int \<Rightarrow> nat \<Rightarrow> 'w hal \<Rightarrow> ((int \<times> 'w hal) \<times> u8 list) option" where
  "alt_read D file len h =
    (if file < 0 then Some ((-1, h\<lparr>alt_errno := EBADFD\<rparr>), [])
     else do {
       fd \<leftarrow> fd_at file h;
       if fd_flags fd AND O_ACCMODE = O_WRONLY then Some ((-1, h\<lparr>alt_errno := EACCES\<rparr>), [])
       else do {
         d \<leftarrow> fd_dev fd;
         case dev_read (D d) of
           None \<Rightarrow> Some ((-1, h\<lparr>alt_errno := EACCES\<rparr>), [])
         | Some f \<Rightarrow> do {
             ((rval, bytes), fd, w) \<leftarrow> f fd len (world h);
             Some (driver_result rval ((set_fd (nat file) fd h)\<lparr>world := w\<rparr>), bytes)
           }
       }
     })"

definition alt_write :: "(ptr \<Rightarrow> 'w alt_dev) \<Rightarrow> int \<Rightarrow> u8 list \<Rightarrow> 'w hal \<Rightarrow> (int \<times> 'w hal) option" where
  "alt_write D file bytes h =
    (if file < 0 then Some (-1, h\<lparr>alt_errno := EBADFD\<rparr>)
     else do {
       fd \<leftarrow> fd_at file h;
       if fd_flags fd AND O_ACCMODE = O_RDONLY then Some (-1, h\<lparr>alt_errno := EACCES\<rparr>)
       else do {
         d \<leftarrow> fd_dev fd;
         case dev_write (D d) of
           None \<Rightarrow> Some (-1, h\<lparr>alt_errno := EACCES\<rparr>)
         | Some f \<Rightarrow> do {
             (rval, fd, w) \<leftarrow> f fd bytes (world h);
             Some (driver_result rval ((set_fd (nat file) fd h)\<lparr>world := w\<rparr>))
           }
       }
     })"

definition alt_lseek :: "(ptr \<Rightarrow> 'w alt_dev) \<Rightarrow> int \<Rightarrow> int \<Rightarrow> int \<Rightarrow> 'w hal \<Rightarrow> (int \<times> 'w hal) option" where
  "alt_lseek D file ptr dir h =
    (if file < 0 then Some (driver_result (- EBADFD) h)
     else do {
       fd \<leftarrow> fd_at file h;
       d \<leftarrow> fd_dev fd;
       case dev_lseek (D d) of
         None \<Rightarrow> Some (driver_result (- ENOTSUP) h)
       | Some f \<Rightarrow> do {
           (rc, fd, w) \<leftarrow> f fd ptr dir (world h);
           Some (driver_result rc ((set_fd (nat file) fd h)\<lparr>world := w\<rparr>))
         }
     })"

definition alt_fcntl :: "int \<Rightarrow> int \<Rightarrow> u32 \<Rightarrow> 'w hal \<Rightarrow> (int \<times> 'w hal) option" where
  "alt_fcntl file cmd arg h =
    (if file < 0 then Some (-1, h\<lparr>alt_errno := EBADFD\<rparr>)
     else do {
       fd \<leftarrow> fd_at file h;
       Some (if cmd = F_GETFL then (sint (fd_flags fd AND NOT ALT_FD_FLAGS_MASK), h)
             else if cmd = F_SETFL
             then (0, set_fd (nat file)
                        (fd\<lparr>fd_flags := (fd_flags fd AND NOT ALT_FCNTL_FLAGS_MASK) OR (arg AND ALT_FCNTL_FLAGS_MASK)\<rparr>) h)
             else (-1, h\<lparr>alt_errno := EINVAL\<rparr>))
     })"

definition ioctl_done :: "int \<Rightarrow> 'w hal \<Rightarrow> int \<times> 'w hal" where
  "ioctl_done rc h = (rc, if rc < 0 then h\<lparr>alt_errno := - rc\<rparr> else h)"

definition alt_ioctl :: "(ptr \<Rightarrow> 'w alt_dev) \<Rightarrow> int \<Rightarrow> u32 \<Rightarrow> u32 \<Rightarrow> 'w hal \<Rightarrow> (int \<times> 'w hal) option" where
  "alt_ioctl D file req arg h =
    (if file < 0 then Some (ioctl_done (- EBADFD) h)
     else do {
       fd \<leftarrow> fd_at file h;
       if fd_flags fd AND ALT_FD_DEV \<noteq> 0 \<and> req = TIOCEXCL
       then do { (rc, h) \<leftarrow> alt_fd_lock (nat file) h; Some (ioctl_done rc h) }
       else if fd_flags fd AND ALT_FD_DEV \<noteq> 0 \<and> req = TIOCNXCL
       then (case alt_fd_unlock (nat file) h of (rc, h) \<Rightarrow> Some (ioctl_done rc h))
       else do {
         d \<leftarrow> fd_dev fd;
         case dev_ioctl (D d) of
           None \<Rightarrow> Some (ioctl_done (- ENOTTY) h)
         | Some f \<Rightarrow> do {
             (rc, fd, w) \<leftarrow> f fd req arg (world h);
             Some (ioctl_done rc ((set_fd (nat file) fd h)\<lparr>world := w\<rparr>))
           }
       }
     })"

definition alt_fstat :: "(ptr \<Rightarrow> 'w alt_dev) \<Rightarrow> int \<Rightarrow> 'w hal \<Rightarrow> ((int \<times> u32) \<times> 'w hal) option" where
  "alt_fstat D file h =
    (if file < 0 then Some ((-1, 0), h\<lparr>alt_errno := EBADFD\<rparr>)
     else do {
       fd \<leftarrow> fd_at file h;
       d \<leftarrow> fd_dev fd;
       case dev_fstat (D d) of
         None \<Rightarrow> Some ((0, S_IFCHR), h)
       | Some f \<Rightarrow> do { (r, fd, w) \<leftarrow> f fd (world h); Some (r, (set_fd (nat file) fd h)\<lparr>world := w\<rparr>) }
     })"

definition alt_isatty :: "(ptr \<Rightarrow> 'w alt_dev) \<Rightarrow> int \<Rightarrow> 'w hal \<Rightarrow> (int \<times> 'w hal) option" where
  "alt_isatty D file h =
    (if file < 0 then Some (0, h\<lparr>alt_errno := EBADFD\<rparr>)
     else do {
       fd \<leftarrow> fd_at file h;
       d \<leftarrow> fd_dev fd;
       if dev_fstat (D d) = None then Some (1, h)
       else do { ((rc, st_mode), h) \<leftarrow> alt_fstat D file h; Some (if st_mode = S_IFCHR then 1 else 0, h) }
     })"

text \<open>Redirection of the standard streams at start-up.\<close>

definition alt_open_fd :: "(ptr \<Rightarrow> 'w alt_dev) \<Rightarrow> nat \<Rightarrow> string \<Rightarrow> u32 \<Rightarrow> u32 \<Rightarrow> 'w hal \<Rightarrow> 'w hal option" where
  "alt_open_fd D fd name flags mode h =
    do {
      (old, h) \<leftarrow> alt_open D name flags mode h;
      Some (if old \<ge> 0
            then alt_release_fd old (set_fd fd (alt_fd_list h ! nat old) h)
            else h)
    }"

definition alt_io_redirect :: "(ptr \<Rightarrow> 'w alt_dev) \<Rightarrow> string \<Rightarrow> string \<Rightarrow> string \<Rightarrow> 'w hal \<Rightarrow> 'w hal option" where
  "alt_io_redirect D stdout_dev stdin_dev stderr_dev h =
    do {
      h \<leftarrow> alt_open_fd D 1 stdout_dev O_WRONLY 0x1FF h;
      h \<leftarrow> alt_open_fd D 0 stdin_dev O_RDONLY 0x1FF h;
      alt_open_fd D 2 stderr_dev O_WRONLY 0x1FF h
    }"

end
