(* ===== verification/Hal_Fd_Proofs.thy ===== *)
theory Hal_Fd_Proofs
  imports Hal_Fd "HOL-Library.Sublist"
begin

text \<open>
  What the loops of the descriptor layer compute, the invariant of the descriptor table, and
  the contracts of \<open>open\<close>, \<open>close\<close> and the exclusive lock.
\<close>

section \<open>Names\<close>

lemma memcmp_eq_name:
  assumes "NUL \<notin> set s" "NUL \<notin> set name"
  shows "memcmp_eq s name (length name + 1) \<longleftrightarrow> s = name"
proof
  assume "memcmp_eq s name (length name + 1)"
  then have *: "take (length name + 1) (s @ [NUL]) = name @ [NUL]" by (simp add: memcmp_eq_def)
  have "length s \<le> length name"
  proof (rule ccontr)
    assume "\<not> length s \<le> length name"
    then have "take (length name + 1) s = name @ [NUL]" using * by simp
    then have "NUL \<in> set s" by (metis in_set_takeD in_set_conv_decomp)
    then show False using assms by simp
  qed
  then show "s = name" using * by simp
qed (simp add: memcmp_eq_def)

text \<open>A file system owns its mount point and what is below it.\<close>

definition mount_point :: "string \<Rightarrow> string" where
  "mount_point s = (if last s = CHR ''/'' then butlast s else s)"

definition owns :: "string \<Rightarrow> string \<Rightarrow> bool" where
  "owns s name \<longleftrightarrow> name = mount_point s \<or> prefix (mount_point s @ ''/'') name"

lemma owns_take:
  "owns s name \<longleftrightarrow> length (mount_point s) \<le> length name \<and> take (length (mount_point s)) name = mount_point s \<and>
     (length (mount_point s) < length name \<longrightarrow> name ! length (mount_point s) = CHR ''/'')"
  (is "_ \<longleftrightarrow> ?r")
proof
  show "owns s name \<Longrightarrow> ?r" by (auto simp: owns_def prefix_def nth_append)
next
  assume r: ?r
  show "owns s name"
  proof (cases "length (mount_point s) < length name")
    case True
    then have "name = mount_point s @ ''/'' @ drop (Suc (length (mount_point s))) name"
      using r id_take_nth_drop [OF True] by simp
    then show ?thesis unfolding owns_def prefix_def by (metis append_assoc)
  next
    case False
    then have "name = mount_point s" using r by (metis linorder_not_less take_all)
    then show ?thesis unfolding owns_def by blast
  qed
qed

lemma fs_matches_owns:
  assumes "NUL \<notin> set s" "NUL \<notin> set name" "s \<noteq> []"
  shows "fs_matches name (Some s) = Some (owns s name)"
proof -
  let ?m = "mount_point s" and ?len = "if s ! (length s - 1) = CHR ''/'' then length s - 1 else length s"
  have len: "?len = length ?m" and m: "take ?len s = ?m"
    using assms(3) by (auto simp: mount_point_def last_conv_nth butlast_conv_take)
  have tk: "take ?len (s @ [NUL]) = ?m" using m by (auto split: if_splits)
  have nul: "NUL \<notin> set ?m" using assms(1) m by (metis in_set_takeD)
  have "(char_at name (length ?m) = CHR ''/'' \<or> char_at name (length ?m) = NUL) \<and>
        ?m = take (length ?m) (name @ [NUL]) \<longleftrightarrow> owns s name"
  proof (cases "length ?m \<le> length name")
    case True
    have "length ?m < length name \<Longrightarrow> name ! length ?m \<noteq> NUL" using assms(2) nth_mem by metis
    then show ?thesis using True by (auto simp: owns_take char_at_def)
  next
    case False
    then have "NUL \<in> set (take (length ?m) (name @ [NUL]))" by simp
    then show ?thesis using False nul by (metis owns_take)
  qed
  then show ?thesis using assms(3) tk by (simp only: fs_matches_def Let_def memcmp_eq_def option.case len if_False)
qed

section \<open>What the loops compute\<close>

lemma ex_ge_step: "(\<exists>j \<ge> i. P j) \<longleftrightarrow> P i \<or> (\<exists>j \<ge> i + (1 :: nat). P j)"
  by (metis Suc_eq_plus1 Suc_leD le_antisym not_less_eq_eq order_refl)

definition free_fd :: "'w hal \<Rightarrow> nat option" where
  "free_fd h = find (\<lambda>i. fd_dev (alt_fd_list h ! i) = None) [0..<ALT_MAX_FD]"

lemma get_fd_loop_find:
  "get_fd_loop i dev h =
    (case find (\<lambda>j. fd_dev (alt_fd_list h ! j) = None) [i..<ALT_MAX_FD] of
       None \<Rightarrow> (- EMFILE, h)
     | Some j \<Rightarrow> (int j, (set_fd j ((alt_fd_list h ! j)\<lparr>fd_dev := Some dev\<rparr>) h)
                            \<lparr>alt_max_fd := max (int j) (alt_max_fd h)\<rparr>))"
proof (induction i dev h rule: get_fd_loop.induct)
  case (1 i dev h)
  show ?case
  proof (cases "i < ALT_MAX_FD")
    case True
    then show ?thesis
      using 1 by (subst get_fd_loop.simps) (auto simp: upt_conv_Cons max_def set_fd_def)
  qed (simp add: get_fd_loop.simps)
qed

lemma alt_get_fd_find:
  "alt_get_fd dev h =
    (case free_fd h of
       None \<Rightarrow> (- EMFILE, h)
     | Some j \<Rightarrow> (int j, (set_fd j ((alt_fd_list h ! j)\<lparr>fd_dev := Some dev\<rparr>) h)
                            \<lparr>alt_max_fd := max (int j) (alt_max_fd h)\<rparr>))"
  by (simp add: alt_get_fd_def free_fd_def get_fd_loop_find)

lemma u32_of_fd: "0 \<le> m \<Longrightarrow> m < 32 \<Longrightarrow> uint (of_int m :: u32) = m"
  by (simp add: unsigned_of_int take_bit_eq_mod)

lemma file_locked_loop_ex:
  assumes "0 \<le> alt_max_fd h" "alt_max_fd h < 32" "length (alt_fd_list h) = 32"
  shows "file_locked_loop i fd h =
    Some (if \<exists>j \<ge> i. j < 32 \<and> int j \<le> alt_max_fd h \<and> fd_dev (alt_fd_list h ! j) = fd_dev (alt_fd_list h ! fd) \<and>
               fd_flags (alt_fd_list h ! j) AND ALT_FD_EXCL \<noteq> 0 \<and> j \<noteq> fd
          then - EACCES else 0)"
  using assms
proof (induction i fd h rule: file_locked_loop.induct)
  case (1 i fd h)
  let ?hit = "\<lambda>j. j < 32 \<and> int j \<le> alt_max_fd h \<and> fd_dev (alt_fd_list h ! j) = fd_dev (alt_fd_list h ! fd) \<and>
               fd_flags (alt_fd_list h ! j) AND ALT_FD_EXCL \<noteq> 0 \<and> j \<noteq> fd"
  show ?case
  proof (cases "int i \<le> alt_max_fd h")
    case True
    then have i: "i < 32" using 1(3) by simp
    have step: "(\<exists>j \<ge> i. ?hit j) \<longleftrightarrow> ?hit i \<or> (\<exists>j \<ge> i + 1. ?hit j)" by (rule ex_ge_step)
    show ?thesis
      unfolding step using 1 True i by (subst file_locked_loop.simps) (cases "?hit i"; auto simp: u32_of_fd)
  next
    case False
    then show ?thesis using 1 by (subst file_locked_loop.simps) (auto simp: u32_of_fd)
  qed
qed

lemma fd_lock_loop_ex:
  assumes "alt_max_fd h < 32" "length (alt_fd_list h) = 32"
  shows "fd_lock_loop i fd h =
    Some (if \<exists>j \<ge> i. int j < alt_max_fd h \<and> j \<noteq> fd \<and> fd_dev (alt_fd_list h ! j) = fd_dev (alt_fd_list h ! fd)
          then - EACCES else 0)"
  using assms
proof (induction i fd h rule: fd_lock_loop.induct)
  case (1 i fd h)
  let ?hit = "\<lambda>j. int j < alt_max_fd h \<and> j \<noteq> fd \<and> fd_dev (alt_fd_list h ! j) = fd_dev (alt_fd_list h ! fd)"
  show ?case
  proof (cases "int i < alt_max_fd h")
    case True
    then have i: "i < 32" using 1(2) by simp
    have step: "(\<exists>j \<ge> i. ?hit j) \<longleftrightarrow> ?hit i \<or> (\<exists>j \<ge> i + 1. ?hit j)" by (rule ex_ge_step)
    show ?thesis unfolding step using 1 True i by (subst fd_lock_loop.simps) (cases "?hit i"; auto)
  next
    case False
    then show ?thesis by (subst fd_lock_loop.simps) auto
  qed
qed

section \<open>The descriptor table\<close>

text \<open>
  The standard streams always have a device, free descriptors carry neither the lock nor
  the device flag, and
  \<open>alt_max_fd\<close> is an upper bound for the descriptors that \<open>open\<close> hands out.
\<close>

definition table_ok :: "'w hal \<Rightarrow> bool" where
  "table_ok h \<longleftrightarrow> length (alt_fd_list h) = ALT_MAX_FD \<and> -1 \<le> alt_max_fd h \<and> alt_max_fd h < int ALT_MAX_FD \<and>
     (\<forall>i < 3. fd_dev (alt_fd_list h ! i) \<noteq> None) \<and>
     (\<forall>i < ALT_MAX_FD. fd_dev (alt_fd_list h ! i) = None \<longrightarrow> fd_flags (alt_fd_list h ! i) AND ALT_FD_FLAGS_MASK = 0) \<and>
     (\<forall>i < ALT_MAX_FD. 3 \<le> i \<longrightarrow> fd_dev (alt_fd_list h ! i) \<noteq> None \<longrightarrow> int i \<le> alt_max_fd h)"

lemma table_okD:
  assumes "table_ok h"
  shows "length (alt_fd_list h) = 32" "-1 \<le> alt_max_fd h" "alt_max_fd h < 32"
    "i < 3 \<Longrightarrow> fd_dev (alt_fd_list h ! i) \<noteq> None"
    "i < 32 \<Longrightarrow> fd_dev (alt_fd_list h ! i) = None \<Longrightarrow> fd_flags (alt_fd_list h ! i) AND ALT_FD_FLAGS_MASK = 0"
    "i < 32 \<Longrightarrow> 3 \<le> i \<Longrightarrow> fd_dev (alt_fd_list h ! i) \<noteq> None \<Longrightarrow> int i \<le> alt_max_fd h"
  using assms by (auto simp: table_ok_def ALT_MAX_FD_def)

lemma table_ok_init: "table_ok (hal_init w)"
  by (auto simp: table_ok_def hal_init_def ALT_MAX_FD_def nth_append nth_Cons')

lemma table_ok_cong [simp]:
  "table_ok (h\<lparr>alt_errno := x\<rparr>) = table_ok h" "table_ok (h\<lparr>world := w\<rparr>) = table_ok h"
  "table_ok (h\<lparr>links := l\<rparr>) = table_ok h"
  by (simp_all add: table_ok_def)

lemma table_ok_set_fd:
  assumes "table_ok h" "i < 32" "fd_dev fd = fd_dev (alt_fd_list h ! i)" "fd_dev fd = None \<Longrightarrow> fd_flags fd AND ALT_FD_FLAGS_MASK = 0"
  shows "table_ok (set_fd i fd h)"
  using assms by (auto simp: table_ok_def set_fd_def ALT_MAX_FD_def nth_list_update)

lemma table_ok_release: "table_ok h \<Longrightarrow> fd < 32 \<Longrightarrow> table_ok (alt_release_fd fd h)"
  by (auto simp: table_ok_def alt_release_fd_def set_fd_def ALT_MAX_FD_def nth_list_update)

lemma free_fdD:
  assumes "free_fd h = Some i" "table_ok h"
  shows "i < 32" "3 \<le> i" "fd_dev (alt_fd_list h ! i) = None"
proof -
  have i: "i \<in> set [0..<ALT_MAX_FD]" "fd_dev (alt_fd_list h ! i) = None"
    using find_in_set [OF assms(1) [unfolded free_fd_def]] by auto
  then show "i < 32" "fd_dev (alt_fd_list h ! i) = None" by (simp_all add: ALT_MAX_FD_def)
  then show "3 \<le> i" using table_okD(4) [OF assms(2), of i] by (auto simp: not_less [symmetric])
qed

lemma alt_fd_list_set_fd [simp]:
  "alt_fd_list (set_fd i fd h) = (alt_fd_list h)[i := fd]" "alt_max_fd (set_fd i fd h) = alt_max_fd h"
  "links (set_fd i fd h) = links h" "alt_errno (set_fd i fd h) = alt_errno h" "world (set_fd i fd h) = world h"
  by (simp_all add: set_fd_def)

lemma set_fd_set_fd [simp]: "set_fd i x (set_fd i y h) = set_fd i x h"
  by (simp add: set_fd_def)

lemma set_fd_max [simp]: "set_fd i x (h\<lparr>alt_max_fd := m\<rparr>) = (set_fd i x h)\<lparr>alt_max_fd := m\<rparr>"
  "set_fd i x (h\<lparr>world := w\<rparr>) = (set_fd i x h)\<lparr>world := w\<rparr>" "set_fd i x (h\<lparr>alt_errno := e\<rparr>) = (set_fd i x h)\<lparr>alt_errno := e\<rparr>"
  by (simp_all add: set_fd_def)

section \<open>\<open>open\<close>\<close>

text \<open>
  The registered devices and file systems, newest first, with proper C strings as names.
\<close>

definition registered :: "(ptr \<Rightarrow> 'w alt_dev) \<Rightarrow> ptr list \<Rightarrow> ptr list \<Rightarrow> 'w hal \<Rightarrow> bool" where
  "registered D devs fss h \<longleftrightarrow> ring (links h) alt_dev_list devs \<and> ring (links h) alt_fs_list fss \<and>
     (\<forall>d \<in> set devs. \<exists>s. dev_name (D d) = Some s \<and> NUL \<notin> set s) \<and>
     (\<forall>d \<in> set fss. \<exists>s. dev_name (D d) = Some s \<and> NUL \<notin> set s \<and> s \<noteq> [])"

definition open_target :: "(ptr \<Rightarrow> 'w alt_dev) \<Rightarrow> ptr list \<Rightarrow> ptr list \<Rightarrow> string \<Rightarrow> (ptr \<times> bool) option" where
  "open_target D devs fss name =
    (case find (\<lambda>d. dev_name (D d) = Some name) devs of
       Some d \<Rightarrow> Some (d, False)
     | None \<Rightarrow> map_option (\<lambda>d. (d, True)) (find (\<lambda>d. owns (the (dev_name (D d))) name) fss))"

definition locked_by_other :: "nat \<Rightarrow> ptr \<Rightarrow> 'w hal \<Rightarrow> bool" where
  "locked_by_other i d h \<longleftrightarrow>
     (\<exists>j < ALT_MAX_FD. j \<noteq> i \<and> fd_dev (alt_fd_list h ! j) = Some d \<and> fd_flags (alt_fd_list h ! j) AND ALT_FD_EXCL \<noteq> 0)"

definition new_fd :: "ptr \<Rightarrow> bool \<Rightarrow> nat \<Rightarrow> u32 \<Rightarrow> 'w hal \<Rightarrow> alt_fd" where
  "new_fd d isfs i flags h =
    \<lparr>fd_dev = Some d, fd_priv = fd_priv (alt_fd_list h ! i),
     fd_flags = (flags AND NOT ALT_FD_FLAGS_MASK) OR (if isfs then 0 else ALT_FD_DEV)\<rparr>"

definition open_spec ::
  "(ptr \<Rightarrow> 'w alt_dev) \<Rightarrow> ptr list \<Rightarrow> ptr list \<Rightarrow> string \<Rightarrow> u32 \<Rightarrow> u32 \<Rightarrow> 'w hal \<Rightarrow> (int \<times> 'w hal) option" where
  "open_spec D devs fss name flags mode h =
    (case open_target D devs fss name of
       None \<Rightarrow> Some (-1, h\<lparr>alt_errno := ENODEV\<rparr>)
     | Some (d, isfs) \<Rightarrow>
       (case free_fd h of
          None \<Rightarrow> Some (-1, h\<lparr>alt_errno := EMFILE\<rparr>)
        | Some i \<Rightarrow>
          (let h = h\<lparr>alt_max_fd := max (int i) (alt_max_fd h)\<rparr>
           in if \<not> isfs \<and> locked_by_other i d h
              then Some (-1, (set_fd i ((alt_fd_list h ! i)\<lparr>fd_flags := 0\<rparr>) h)\<lparr>alt_errno := EACCES\<rparr>)
              else case dev_open (D d) of
                None \<Rightarrow> Some (int i, set_fd i (new_fd d isfs i flags h) h)
              | Some f \<Rightarrow>
                  map_option (\<lambda>(status, fd, w).
                      if status < 0
                      then (-1, (set_fd i (fd\<lparr>fd_flags := 0, fd_dev := None\<rparr>) h)\<lparr>world := w, alt_errno := - status\<rparr>)
                      else (int i, (set_fd i fd h)\<lparr>world := w\<rparr>))
                    (f (new_fd d isfs i flags h) name flags mode (world h)))))"

lemma find_dev_registered:
  assumes "registered D devs fss h" "NUL \<notin> set name"
  shows "alt_find_dev D name alt_dev_list (links h) = Some (find (\<lambda>d. dev_name (D d) = Some name) devs)"
  unfolding alt_find_dev_def Let_def
  using assms memcmp_eq_name [OF _ assms(2)]
  by (intro ring_search_find) (auto simp: registered_def dest!: bspec)

lemma find_file_registered:
  assumes "registered D devs fss h" "NUL \<notin> set name"
  shows "alt_find_file D name (links h) = Some (find (\<lambda>d. owns (the (dev_name (D d))) name) fss)"
  unfolding alt_find_file_def
  using assms fs_matches_owns [OF _ assms(2)]
  by (intro ring_search_find) (auto simp: registered_def dest!: bspec)

lemma file_locked_in_open:
  assumes "table_ok h" "i < 32" "3 \<le> i" "fd_dev fd = Some d"
  shows "file_locked_loop 0 i ((set_fd i fd h)\<lparr>alt_max_fd := max (int i) (alt_max_fd h)\<rparr>) =
    Some (if locked_by_other i d h then - EACCES else 0)"
proof -
  let ?h = "(set_fd i fd h)\<lparr>alt_max_fd := max (int i) (alt_max_fd h)\<rparr>"
  have below: "int j \<le> max (int i) (alt_max_fd h)" if "j < 32" "fd_dev (alt_fd_list h ! j) = Some d" for j
    using that assms(3) table_okD(6) [OF assms(1) that(1)] by (cases "j < 3") auto
  have "file_locked_loop 0 i ?h = Some (if \<exists>j \<ge> 0. j < 32 \<and> int j \<le> alt_max_fd ?h \<and>
      fd_dev (alt_fd_list ?h ! j) = fd_dev (alt_fd_list ?h ! i) \<and>
      fd_flags (alt_fd_list ?h ! j) AND ALT_FD_EXCL \<noteq> 0 \<and> j \<noteq> i then - EACCES else 0)"
    using assms(2) table_okD(1,3) [OF assms(1)] by (intro file_locked_loop_ex) auto
  also have "(\<exists>j \<ge> 0. j < 32 \<and> int j \<le> alt_max_fd ?h \<and>
      fd_dev (alt_fd_list ?h ! j) = fd_dev (alt_fd_list ?h ! i) \<and>
      fd_flags (alt_fd_list ?h ! j) AND ALT_FD_EXCL \<noteq> 0 \<and> j \<noteq> i) \<longleftrightarrow> locked_by_other i d h"
    using assms(2,4) below table_okD(1) [OF assms(1)]
    by (auto simp: locked_by_other_def ALT_MAX_FD_def nth_list_update) (metis below)
  finally show ?thesis .
qed

lemma new_slot:
  assumes "free_fd h = Some i" "table_ok h"
  shows "fd_dev (alt_fd_list h ! i) = None" "i < length (alt_fd_list h)"
  using free_fdD [OF assms] table_okD(1) [OF assms(2)] by simp_all

lemma locked_by_other_max [simp]: "locked_by_other i d (h\<lparr>alt_max_fd := m\<rparr>) = locked_by_other i d h"
  by (simp add: locked_by_other_def)

lemma fd_updates:
  "(f :: alt_fd)\<lparr>fd_dev := d, fd_flags := x\<rparr> = \<lparr>fd_dev = d, fd_priv = fd_priv f, fd_flags = x\<rparr>"
  "fd_dev f = None \<Longrightarrow> f\<lparr>fd_flags := x\<rparr> = \<lparr>fd_dev = None, fd_priv = fd_priv f, fd_flags = x\<rparr>"
  by (cases f; simp)+

lemma open_search_found:
  assumes "registered D devs fss h" "NUL \<notin> set name"
  shows "open_search D name h =
    Some (case open_target D devs fss name of None \<Rightarrow> (None, True) | Some (d, isfs) \<Rightarrow> (Some d, isfs))"
  by (auto simp: open_search_def open_target_def find_dev_registered [OF assms]
      find_file_registered [OF assms] split: option.splits)

lemma alt_open_spec:
  assumes reg: "registered D devs fss h" and ok: "table_ok h" and name: "NUL \<notin> set name"
  shows "alt_open D name flags mode h = open_spec D devs fss name flags mode h"
proof (cases "open_target D devs fss name")
  case None
  then show ?thesis
    by (simp add: alt_open_def open_spec_def open_search_found [OF reg name] open_failed_def alt_release_fd_def)
next
  case (Some t)
  obtain d isfs where t: "t = (d, isfs)" by fastforce
  have found: "open_search D name h = Some (Some d, isfs)"
    using Some t by (auto simp: open_search_found [OF reg name])
  show ?thesis
  proof (cases "free_fd h")
    case None
    then show ?thesis
      using Some t by (simp add: alt_open_def found open_spec_def alt_get_fd_find open_failed_def
          alt_release_fd_def EMFILE_def)
  next
    case (Some i)
    note slot = new_slot [OF Some ok] and i = free_fdD [OF Some ok]
    let ?h = "h\<lparr>alt_max_fd := max (int i) (alt_max_fd h)\<rparr>"
    let ?f = "\<lparr>fd_dev = Some d, fd_priv = fd_priv (alt_fd_list h ! i), fd_flags = flags AND NOT ALT_FD_FLAGS_MASK\<rparr>"
    have get: "alt_get_fd d h = (int i, set_fd i ((alt_fd_list h ! i)\<lparr>fd_dev := Some d\<rparr>) ?h)"
      by (simp add: alt_get_fd_find Some)
    have lock: "alt_file_locked i ((set_fd i ?f h)\<lparr>alt_max_fd := max (int i) (alt_max_fd h)\<rparr>) =
        Some (if locked_by_other i d h then - EACCES else 0, set_fd i (new_fd d False i flags h) ?h)"
      using file_locked_in_open [OF ok i(1,2), of "new_fd d False i flags h" d] slot(2)
      by (simp add: alt_file_locked_def new_fd_def Let_def fd_updates(1))
    show ?thesis
      using \<open>open_target D devs fss name = Some t\<close> t Some i(2) slot
      by (cases isfs)
        (auto simp: alt_open_def open_callback_def found open_spec_def get lock open_failed_def alt_release_fd_def
          EACCES_def new_fd_def Let_def fd_updates map_option_case split: option.splits)
  qed
qed

section \<open>Calls and reachable tables\<close>

text \<open>The callbacks of a device may change everything but the device of the descriptor.\<close>

definition drivers_ok :: "(ptr \<Rightarrow> 'w alt_dev) \<Rightarrow> bool" where
  "drivers_ok D \<longleftrightarrow> (\<forall>d fd fd' w w' r.
     (\<forall>f name flags mode. dev_open (D d) = Some f \<longrightarrow> f fd name flags mode w = Some (r, fd', w') \<longrightarrow> fd_dev fd' = fd_dev fd) \<and>
     (\<forall>f. dev_close (D d) = Some f \<longrightarrow> f fd w = Some (r, fd', w') \<longrightarrow> fd_dev fd' = fd_dev fd) \<and>
     (\<forall>f n b. dev_read (D d) = Some f \<longrightarrow> f fd n w = Some ((r, b), fd', w') \<longrightarrow> fd_dev fd' = fd_dev fd) \<and>
     (\<forall>f b. dev_write (D d) = Some f \<longrightarrow> f fd b w = Some (r, fd', w') \<longrightarrow> fd_dev fd' = fd_dev fd) \<and>
     (\<forall>f p dir. dev_lseek (D d) = Some f \<longrightarrow> f fd p dir w = Some (r, fd', w') \<longrightarrow> fd_dev fd' = fd_dev fd) \<and>
     (\<forall>f m. dev_fstat (D d) = Some f \<longrightarrow> f fd w = Some ((r, m), fd', w') \<longrightarrow> fd_dev fd' = fd_dev fd) \<and>
     (\<forall>f req arg. dev_ioctl (D d) = Some f \<longrightarrow> f fd req arg w = Some (r, fd', w') \<longrightarrow> fd_dev fd' = fd_dev fd))"

datatype fd_call =
    Open string u32 u32
  | Close int
  | Read int nat
  | Write int "u8 list"
  | Lseek int int int
  | Fcntl int int u32
  | Ioctl int u32 u32
  | Fstat int
  | Isatty int
  | Redirect string string string
  | Dev_reg "ptr option"
  | Fs_reg ptr

fun fd_step :: "(ptr \<Rightarrow> 'w alt_dev) \<Rightarrow> fd_call \<Rightarrow> 'w hal \<Rightarrow> 'w hal option" where
  "fd_step D (Open name flags mode) h = map_option snd (alt_open D name flags mode h)"
| "fd_step D (Close file) h = map_option snd (alt_close D file h)"
| "fd_step D (Read file n) h = map_option (snd \<circ> fst) (alt_read D file n h)"
| "fd_step D (Write file b) h = map_option snd (alt_write D file b h)"
| "fd_step D (Lseek file p dir) h = map_option snd (alt_lseek D file p dir h)"
| "fd_step D (Fcntl file cmd arg) h = map_option snd (alt_fcntl file cmd arg h)"
| "fd_step D (Ioctl file req arg) h = map_option snd (alt_ioctl D file req arg h)"
| "fd_step D (Fstat file) h = map_option snd (alt_fstat D file h)"
| "fd_step D (Isatty file) h = map_option snd (alt_isatty D file h)"
| "fd_step D (Redirect out inp err) h = alt_io_redirect D out inp err h"
| "fd_step D (Dev_reg d) h = Some (snd (alt_dev_reg D d h))"
| "fd_step D (Fs_reg d) h = Some (snd (alt_fs_reg D d h))"

inductive fd_reach :: "(ptr \<Rightarrow> 'w alt_dev) \<Rightarrow> 'w hal \<Rightarrow> bool" for D where
  fd_start: "fd_reach D (hal_init w)"
| fd_call: "fd_reach D h \<Longrightarrow> fd_step D c h = Some h' \<Longrightarrow> fd_reach D h'"

lemma bind_SomeE:
  assumes "Option.bind x f = Some y"
  obtains v where "x = Some v" "f v = Some y"
  using assms by (cases x) auto

lemma table_ok_put:
  assumes "table_ok h" "fd_at file h = Some fd" "fd_dev fd = Some d" "fd_dev fd' = fd_dev fd"
  shows "table_ok (set_fd (nat file) fd' h)"
  using assms table_okD(1) [OF assms(1)]
  by (intro table_ok_set_fd) (auto simp: fd_at_def split: if_splits)

lemma table_ok_results [simp]:
  "table_ok (snd (driver_result r h)) = table_ok h" "table_ok (snd (ioctl_done r h)) = table_ok h"
  by (simp_all add: driver_result_def ioctl_done_def)

lemma get_fd_ok:
  assumes "alt_get_fd d h = (index, h')" "table_ok h"
  shows "index < 0 \<longrightarrow> h' = h" "0 \<le> index \<longrightarrow> 3 \<le> index \<and> index < 32 \<and> table_ok h' \<and> fd_dev (alt_fd_list h' ! nat index) = Some d"
proof -
  show "index < 0 \<longrightarrow> h' = h" using assms by (auto simp: alt_get_fd_find split: option.splits)
  show "0 \<le> index \<longrightarrow> 3 \<le> index \<and> index < 32 \<and> table_ok h' \<and> fd_dev (alt_fd_list h' ! nat index) = Some d"
  proof (cases "free_fd h")
    case None
    then show ?thesis using assms by (auto simp: alt_get_fd_find EMFILE_def)
  next
    case (Some i)
    then show ?thesis
      using assms free_fdD [OF Some assms(2)]
      by (auto simp: alt_get_fd_find table_ok_def ALT_MAX_FD_def nth_list_update le_max_iff_disj split: if_splits)
  qed
qed

lemma file_locked_ok:
  assumes "alt_file_locked i h = Some (rc, h')" "table_ok h" "i < 32" "fd_dev (alt_fd_list h ! i) = Some d"
  shows "table_ok h' \<and> fd_dev (alt_fd_list h' ! i) = Some d"
  using assms table_okD(1) [OF assms(2)]
  by (auto simp: alt_file_locked_def Let_def elim!: bind_SomeE intro!: table_ok_set_fd)

lemma open_failed_ok: "open_failed index status h = (r, h') \<Longrightarrow> table_ok h \<Longrightarrow> index < 32 \<Longrightarrow> table_ok h' \<and> r = -1"
  by (auto simp: open_failed_def table_ok_release)

lemma open_callback_ok:
  assumes "open_callback D d i name flags mode h = Some (r, h')" "table_ok h" "drivers_ok D" "i < 32"
    and "fd_dev (alt_fd_list h ! i) = Some d"
  shows "table_ok h' \<and> fd_dev (alt_fd_list h' ! i) = Some d"
proof (cases "dev_open (D d)")
  case (Some f)
  then obtain fd w where f: "h' = (set_fd i fd h)\<lparr>world := w\<rparr>"
    "f (alt_fd_list h ! i) name flags mode (world h) = Some (r, fd, w)"
    using assms(1) by (auto simp: open_callback_def elim!: bind_SomeE)
  then have "fd_dev fd = Some d" using Some assms(3,5) unfolding drivers_ok_def by metis
  then show ?thesis using f(1) assms(2,4,5) table_okD(1) [OF assms(2)] by (auto intro!: table_ok_set_fd)
qed (use assms in \<open>simp add: open_callback_def\<close>)

lemma open_ok:
  assumes "alt_open D name flags mode h = Some (r, h')" "table_ok h" "drivers_ok D"
  shows "table_ok h' \<and> (0 \<le> r \<longrightarrow> 3 \<le> r \<and> r < 32 \<and> fd_dev (alt_fd_list h' ! nat r) \<noteq> None)"
proof -
  obtain dev isfs where search: "open_search D name h = Some (dev, isfs)"
    using assms(1) by (auto simp: alt_open_def elim!: bind_SomeE)
  show ?thesis
  proof (cases dev)
    case None
    then show ?thesis
      using assms(1,2) search by (auto simp: alt_open_def dest!: open_failed_ok)
  next
    case (Some d)
    obtain index h1 where get: "alt_get_fd d h = (index, h1)" by fastforce
    show ?thesis
    proof (cases "index < 0")
      case True
      then show ?thesis
        using assms(1,2) search Some get get_fd_ok(1) [OF get assms(2)]
        by (auto simp: alt_open_def dest!: open_failed_ok)
    next
      case False
      define i where "i = nat index"
      have i: "3 \<le> index" "index < 32" "i < 32" "table_ok h1" "fd_dev (alt_fd_list h1 ! i) = Some d" "index = int i"
        using get_fd_ok(2) [OF get assms(2)] False by (auto simp: i_def)
      define h2 where "h2 = set_fd i ((alt_fd_list h1 ! i)\<lparr>fd_flags := flags AND NOT ALT_FD_FLAGS_MASK\<rparr>) h1"
      have h2: "table_ok h2" "fd_dev (alt_fd_list h2 ! i) = Some d"
        using i table_okD(1) [OF i(4)] by (auto simp: h2_def intro!: table_ok_set_fd)
      obtain status h3 status' h4 where
        s3: "(if isfs then Some (0, h2) else alt_file_locked i h2) = Some (status, h3)" and
        s4: "(if status \<ge> 0 then open_callback D d i name flags mode h3 else Some (status, h3)) = Some (status', h4)" and
        res: "(r, h') = (if status' < 0 then open_failed index status' h4 else (index, h4))"
        using assms(1) search Some get False unfolding alt_open_def h2_def i_def
        by (auto simp: Let_def elim!: bind_SomeE split del: if_split)
      have h3: "table_ok h3" "fd_dev (alt_fd_list h3 ! i) = Some d"
        using s3 h2 file_locked_ok [of i h2 status h3 d] i(3) by (auto split: if_splits)
      have h4: "table_ok h4 \<and> fd_dev (alt_fd_list h4 ! i) = Some d"
        using s4 h3 open_callback_ok [OF _ h3(1) assms(3) i(3) h3(2)] by (auto split: if_splits)
      show ?thesis
        using res h4 i(1,2) open_failed_ok [of index status' h4 r h'] unfolding i_def
        by (cases "status' < 0") simp_all
    qed
  qed
qed

lemma open_fd_ok:
  assumes "alt_open_fd D fd name flags mode h = Some h'" "table_ok h" "drivers_ok D" "fd < 3"
  shows "table_ok h'"
proof -
  obtain old h1 where o: "alt_open D name flags mode h = Some (old, h1)"
    and h': "h' = (if old \<ge> 0 then alt_release_fd old (set_fd fd (alt_fd_list h1 ! nat old) h1) else h1)"
    using assms(1) by (auto simp: alt_open_fd_def elim!: bind_SomeE)
  note ok = open_ok [OF o assms(2,3)]
  have "table_ok (set_fd fd (alt_fd_list h1 ! nat old) h1)" if "0 \<le> old"
    using ok that assms(4) table_okD(1) [of h1] by (auto simp: table_ok_def set_fd_def ALT_MAX_FD_def nth_list_update)
  then show ?thesis using ok h' by (auto intro: table_ok_release)
qed

lemma driver_call_ok:
  assumes "table_ok h" "drivers_ok D" "fd_at file h = Some fd" "fd_dev fd = Some d"
  shows "dev_close (D d) = Some f1 \<Longrightarrow> f1 fd w = Some (r, fd', w') \<Longrightarrow> table_ok (set_fd (nat file) fd' h)"
    "dev_read (D d) = Some f2 \<Longrightarrow> f2 fd n w = Some ((r, b), fd', w') \<Longrightarrow> table_ok (set_fd (nat file) fd' h)"
    "dev_write (D d) = Some f3 \<Longrightarrow> f3 fd b' w = Some (r, fd', w') \<Longrightarrow> table_ok (set_fd (nat file) fd' h)"
    "dev_lseek (D d) = Some f4 \<Longrightarrow> f4 fd p dir w = Some (r, fd', w') \<Longrightarrow> table_ok (set_fd (nat file) fd' h)"
    "dev_fstat (D d) = Some f5 \<Longrightarrow> f5 fd w = Some ((r, m), fd', w') \<Longrightarrow> table_ok (set_fd (nat file) fd' h)"
    "dev_ioctl (D d) = Some f6 \<Longrightarrow> f6 fd req arg w = Some (r, fd', w') \<Longrightarrow> table_ok (set_fd (nat file) fd' h)"
  using table_ok_put [OF assms(1,3,4)] assms(2) unfolding drivers_ok_def by metis+

lemma fd_at_below: "table_ok h \<Longrightarrow> fd_at file h = Some fd \<Longrightarrow> file < 32"
  using table_okD(1) by (fastforce simp: fd_at_def split: if_splits)

lemma simple_calls_ok:
  assumes "table_ok h" "drivers_ok D"
  shows "alt_close D file h = Some (r, h') \<Longrightarrow> table_ok h'"
    "alt_read D file n h = Some ((r, h'), b) \<Longrightarrow> table_ok h'"
    "alt_write D file bytes h = Some (r, h') \<Longrightarrow> table_ok h'"
    "alt_lseek D file p dir h = Some (r, h') \<Longrightarrow> table_ok h'"
    "alt_fstat D file h = Some (m, h') \<Longrightarrow> table_ok h'"
proof -
  note call = driver_call_ok [OF assms]
  have res: "driver_result x h1 = (r, h') \<Longrightarrow> table_ok h1 \<Longrightarrow> table_ok h'" for x h1
    using table_ok_results(1) [of x h1] by simp
  show "alt_close D file h = Some (r, h') \<Longrightarrow> table_ok h'"
    using assms(1) by (auto simp: alt_close_def Let_def elim!: bind_SomeE split: option.splits if_splits
        intro!: table_ok_release; metis call(1) fd_at_below [OF assms(1)])
  show "alt_read D file n h = Some ((r, h'), b) \<Longrightarrow> table_ok h'"
    using assms(1) by (auto simp: alt_read_def elim!: bind_SomeE split: option.splits if_splits
        dest!: res; metis call(2))
  show "alt_write D file bytes h = Some (r, h') \<Longrightarrow> table_ok h'"
    using assms(1) by (auto simp: alt_write_def elim!: bind_SomeE split: option.splits if_splits
        dest!: res; metis call(3))
  show "alt_lseek D file p dir h = Some (r, h') \<Longrightarrow> table_ok h'"
    using assms(1) by (auto simp: alt_lseek_def elim!: bind_SomeE split: option.splits if_splits
        dest!: res; metis call(4))
  show "alt_fstat D file h = Some (m, h') \<Longrightarrow> table_ok h'"
    using assms(1) by (auto simp: alt_fstat_def elim!: bind_SomeE split: option.splits if_splits; metis call(5))
qed

lemma flags_only_ok:
  assumes "table_ok h" "fd_at file h = Some fd"
  shows "fd_dev fd \<noteq> None \<or> x AND ALT_FD_FLAGS_MASK = 0 \<Longrightarrow> table_ok (set_fd (nat file) (fd\<lparr>fd_flags := x\<rparr>) h)"
  using assms table_okD(1) [OF assms(1)]
  by (auto simp: fd_at_def split: if_splits intro!: table_ok_set_fd)

lemma lock_calls_ok:
  assumes "table_ok h" "fd_at file h = Some fd" "fd_dev fd \<noteq> None"
  shows "alt_fd_lock (nat file) h = Some (rc, h') \<Longrightarrow> table_ok h'"
    "alt_fd_unlock (nat file) h = (rc, h') \<Longrightarrow> table_ok h'"
  using assms(1) flags_only_ok [OF assms(1,2)] assms(2,3)
  by (auto simp: alt_fd_lock_def alt_fd_unlock_def Let_def fd_at_def elim!: bind_SomeE split: if_splits)

lemma fcntl_mask:
  "((x AND NOT ALT_FCNTL_FLAGS_MASK) OR (y AND ALT_FCNTL_FLAGS_MASK)) AND ALT_FD_FLAGS_MASK = x AND ALT_FD_FLAGS_MASK"
proof -
  have m: "ALT_FCNTL_FLAGS_MASK = 0x4008" "ALT_FD_FLAGS_MASK = 0xC0000000"
    by (simp_all add: ALT_FCNTL_FLAGS_MASK_def ALT_FD_FLAGS_MASK_def O_APPEND_def O_NONBLOCK_def ALT_FD_EXCL_def ALT_FD_DEV_def)
  have "ALT_FCNTL_FLAGS_MASK AND ALT_FD_FLAGS_MASK = 0" "NOT ALT_FCNTL_FLAGS_MASK AND ALT_FD_FLAGS_MASK = ALT_FD_FLAGS_MASK"
    by (simp_all add: m)
  then show ?thesis by (simp add: and.assoc bit.conj_disj_distrib2)
qed

lemma fcntl_ok: "table_ok h \<Longrightarrow> alt_fcntl file cmd arg h = Some (r, h') \<Longrightarrow> table_ok h'"
  using fcntl_mask
  by (auto simp: alt_fcntl_def fd_at_def table_okD(1) elim!: bind_SomeE split: if_splits
      intro!: table_ok_set_fd dest: table_okD(5))

lemma ioctl_ok:
  assumes "table_ok h" "drivers_ok D" "alt_ioctl D file req arg h = Some (r, h')"
  shows "table_ok h'"
proof -
  have fin: "ioctl_done x h1 = (r, h') \<Longrightarrow> table_ok h1 \<Longrightarrow> table_ok h'" for x h1
    using table_ok_results(2) [of x h1] by simp
  have dev: "fd_dev fd \<noteq> None" if "fd_at file h = Some fd" "fd_flags fd AND ALT_FD_DEV \<noteq> 0" for fd
  proof
    assume "fd_dev fd = None"
    then have "fd_flags fd AND ALT_FD_FLAGS_MASK AND ALT_FD_DEV = 0"
      using that(1) table_okD(1,5) [OF assms(1)] by (auto simp: fd_at_def and.assoc [symmetric] split: if_splits)
    then show False using that(2) by (simp add: ALT_FD_FLAGS_MASK_def ALT_FD_EXCL_def ALT_FD_DEV_def)
  qed
  show ?thesis
  proof (cases "file < 0")
    case True
    then show ?thesis using assms(1,3) by (auto simp: alt_ioctl_def dest!: fin)
  next
    case False
    then obtain fd where fd: "fd_at file h = Some fd" using assms(3) by (auto simp: alt_ioctl_def elim!: bind_SomeE)
    note dev = dev [OF fd]
    consider "fd_flags fd AND ALT_FD_DEV \<noteq> 0" "req = TIOCEXCL" | "fd_flags fd AND ALT_FD_DEV \<noteq> 0" "req = TIOCNXCL" "req \<noteq> TIOCEXCL"
      | "fd_flags fd AND ALT_FD_DEV = 0 \<or> req \<noteq> TIOCEXCL \<and> req \<noteq> TIOCNXCL" by blast
    then show ?thesis
    proof cases
      case 1
      then show ?thesis
        using assms(3) False fd lock_calls_ok(1) [OF assms(1) fd dev]
        by (auto simp: alt_ioctl_def elim!: bind_SomeE dest!: fin)
    next
      case 2
      then show ?thesis
        using assms(3) False fd lock_calls_ok(2) [OF assms(1) fd dev]
        by (auto simp: alt_ioctl_def split: prod.splits dest!: fin)
    next
      case 3
      then have "Option.bind (fd_dev fd) (\<lambda>d. case dev_ioctl (D d) of
           None \<Rightarrow> Some (ioctl_done (- ENOTTY) h)
         | Some f \<Rightarrow> do {
             (rc, fd, w) \<leftarrow> f fd req arg (world h);
             Some (ioctl_done rc ((set_fd (nat file) fd h)\<lparr>world := w\<rparr>)) }) = Some (r, h')"
        using assms(3) False fd by (auto simp: alt_ioctl_def)
      then show ?thesis
        using assms(1) driver_call_ok(6) [OF assms(1,2) fd]
        by (auto elim!: bind_SomeE split: option.splits dest!: fin)
    qed
  qed
qed

lemma fd_step_ok:
  assumes "fd_step D c h = Some h'" "table_ok h" "drivers_ok D"
  shows "table_ok h'"
proof (cases c)
  case (Open name flags mode)
  then show ?thesis using assms open_ok by fastforce
next
  case (Redirect out inp err)
  then show ?thesis
    using assms by (auto simp: alt_io_redirect_def elim!: bind_SomeE dest!: open_fd_ok)
next
  case (Isatty n)
  then show ?thesis
    using assms simple_calls_ok(5) [OF assms(2,3)]
    by (auto simp: alt_isatty_def elim!: bind_SomeE split: if_splits)
next
  case (Dev_reg d)
  then show ?thesis
    using assms by (auto simp: alt_dev_reg_def alt_dev_llist_insert_def split: option.splits if_splits)
qed (use assms simple_calls_ok [OF assms(2,3)] ioctl_ok fcntl_ok in
      \<open>fastforce simp: alt_fs_reg_def split: if_splits\<close>)+

lemma reachable_table: "fd_reach D h \<Longrightarrow> drivers_ok D \<Longrightarrow> table_ok h"
  by (induction rule: fd_reach.induct) (auto intro: table_ok_init fd_step_ok)

section \<open>An example system\<close>

text \<open>One device without callbacks at address 10, and the table with descriptors 3 and 4 open on it.\<close>

definition example_devices :: "ptr \<Rightarrow> unit alt_dev" where
  "example_devices p =
     (if p = alt_dev_null then alt_dev_null_struct
      else \<lparr>dev_name = Some ''/dev/uart'', dev_open = None, dev_close = None, dev_read = None, dev_write = None,
            dev_lseek = None, dev_fstat = None, dev_ioctl = None\<rparr>)"

definition example_start :: "unit hal" where
  "example_start = snd (alt_dev_reg example_devices (Some 10) (hal_init ()))"

definition two_open :: "unit hal" where
  "two_open = example_start
     \<lparr>alt_fd_list := (alt_fd_list example_start)[3 := \<lparr>fd_dev = Some 10, fd_priv = 0, fd_flags = ALT_FD_DEV\<rparr>,
                                                4 := \<lparr>fd_dev = Some 10, fd_priv = 0, fd_flags = ALT_FD_DEV\<rparr>],
      alt_max_fd := 4\<rparr>"

lemma init_rings: "ring (links (hal_init w)) alt_dev_list [alt_dev_null]" "ring (links (hal_init w)) alt_fs_list []"
proof -
  let ?a = "ALT_LLIST_HEAD alt_fs_list \<lparr>ll_next = id, ll_previous = id\<rparr>"
  let ?b = "ALT_LLIST_HEAD alt_dev_list ?a"
  have "ring ?b alt_fs_list []"
    by (rule ring_frame [OF ring_head]) (simp add: ALT_LLIST_HEAD_def alt_dev_list_def alt_fs_list_def)
  moreover have "ring ?b alt_dev_list []" by (rule ring_head)
  ultimately show "ring (links (hal_init w)) alt_dev_list [alt_dev_null]" "ring (links (hal_init w)) alt_fs_list []"
    by (simp_all add: hal_init_def alt_dev_list_def alt_fs_list_def alt_dev_null_def ring_insert
        ring_insert_other [of _ "Suc 0" "[]" 0 "[]"])
qed

lemma example_links: "links example_start = alt_llist_insert alt_dev_list 10 (links (hal_init ()))"
  by (simp add: example_start_def alt_dev_reg_def alt_dev_llist_insert_def example_devices_def alt_dev_null_def)

lemma example_registered:
  "registered example_devices [10, alt_dev_null] [] example_start" "table_ok example_start"
  "registered example_devices [10, alt_dev_null] [] two_open" "table_ok two_open"
proof -
  have "ring (links example_start) alt_dev_list [10, alt_dev_null]"
    unfolding example_links by (rule ring_insert [OF init_rings(1)]) (simp add: alt_dev_list_def alt_dev_null_def)
  moreover have "ring (links example_start) alt_fs_list []"
    unfolding example_links
    by (rule ring_insert_other [OF init_rings(2,1)]) (simp_all add: alt_dev_list_def alt_dev_null_def alt_fs_list_def)
  ultimately show *: "registered example_devices [10, alt_dev_null] [] example_start"
    by (auto simp: registered_def example_devices_def alt_dev_null_def alt_dev_null_struct_def NUL_def)
  show t: "table_ok example_start"
    using table_ok_init [of "()"] by (simp add: example_start_def alt_dev_reg_def alt_dev_llist_insert_def
        example_devices_def alt_dev_null_def)
  show "registered example_devices [10, alt_dev_null] [] two_open" using * by (simp add: registered_def two_open_def)
  have m: "alt_max_fd example_start = -1"
    by (simp add: example_start_def alt_dev_reg_def alt_dev_llist_insert_def example_devices_def alt_dev_null_def hal_init_def)
  show "table_ok two_open"
    using t m by (auto simp: two_open_def table_ok_def ALT_MAX_FD_def nth_list_update split: if_splits)
qed

lemma example_table:
  "alt_fd_list example_start = alt_fd_list (hal_init ())"
  "j < 3 \<Longrightarrow> fd_dev (alt_fd_list (hal_init ()) ! j) = Some alt_dev_null"
  by (simp_all add: example_start_def alt_dev_reg_def alt_dev_llist_insert_def example_devices_def
      alt_dev_null_def hal_init_def nth_append)

lemma example_callbacks:
  "dev_open (example_devices p) = None" "dev_close (example_devices p) = None" "dev_read (example_devices p) = None"
  "dev_write (example_devices p) = (if p = alt_dev_null then Some alt_dev_null_write else None)"
  "dev_lseek (example_devices p) = None" "dev_fstat (example_devices p) = None" "dev_ioctl (example_devices p) = None"
  by (simp_all add: example_devices_def alt_dev_null_struct_def)

lemma example_drivers: "drivers_ok example_devices"
  unfolding drivers_ok_def
  by (intro allI conjI, simp_all only: example_callbacks option.distinct simp_thms)
    (auto simp: alt_dev_null_write_def split: if_splits)

section \<open>Properties\<close>

text \<open>
  C21. The descriptor table. Whatever calls are made, in any order and with any arguments, and
  whatever the devices do (short of replacing the device of a descriptor), the table keeps 32
  entries, the standard streams keep a device, every descriptor \<open>open\<close> has handed out is at
  most \<open>alt_max_fd\<close>, and a free descriptor never holds a lock.
\<close>
theorem fd_table_invariant:
  assumes "fd_reach D h" and "drivers_ok D"
  shows "length (alt_fd_list h) = 32 \<and> alt_max_fd h < 32 \<and> (\<forall>i < 3. fd_dev (alt_fd_list h ! i) \<noteq> None) \<and>
    (\<forall>i. 3 \<le> i \<and> i < 32 \<and> fd_dev (alt_fd_list h ! i) \<noteq> None \<longrightarrow> int i \<le> alt_max_fd h) \<and>
    (\<forall>i < 32. fd_dev (alt_fd_list h ! i) = None \<longrightarrow> fd_flags (alt_fd_list h ! i) AND ALT_FD_FLAGS_MASK = 0)"
  using table_okD [OF reachable_table [OF assms]] by blast

theorem fd_table_invariant_witness:
  "\<exists>h. fd_reach example_devices h \<and> length (alt_fd_list h) = 32 \<and> fd_dev (alt_fd_list h ! 1) \<noteq> None"
proof -
  have r: "fd_reach example_devices example_start"
    by (rule fd_call [OF fd_start, of _ "Dev_reg (Some 10)"]) (simp add: example_start_def)
  have "length (alt_fd_list example_start) = 32" "\<forall>i < 3. fd_dev (alt_fd_list example_start ! i) \<noteq> None"
    using fd_table_invariant [OF r example_drivers] by blast+
  then show ?thesis using r by (intro exI [of _ example_start]) simp
qed

text \<open>
  C22. \<open>open\<close>. On registered devices and file systems, \<open>alt_open\<close> does exactly what
  \<open>open_spec\<close> says: the newest device with that very name, else the newest file system whose
  mount point owns the name; the lowest free descriptor; \<open>ENODEV\<close>, \<open>EMFILE\<close> or, when another
  descriptor holds the device's lock, \<open>EACCES\<close>, and then the descriptor is free again; else
  what the device's own \<open>open\<close> answers.
\<close>
theorem open_contract:
  assumes "registered D devs fss h" and "table_ok h" and "NUL \<notin> set name"
  shows "alt_open D name flags mode h = open_spec D devs fss name flags mode h"
  by (rule alt_open_spec [OF assms])

theorem open_contract_witness:
  "alt_open example_devices ''/dev/none'' 0 0 example_start =
    open_spec example_devices [10, alt_dev_null] [] ''/dev/none'' 0 0 example_start"
  by (rule open_contract [OF example_registered(1,2)]) (simp add: NUL_def)



text \<open>
  \<open>open\<close> and \<open>close\<close>. For a device without callbacks, closing what \<open>open\<close> returned
  succeeds, frees that descriptor with all its flags, a lock included, leaves every other
  descriptor as it was before the \<open>open\<close>, and the same number is the next to be handed out.
\<close>
theorem open_close:
  assumes "registered D devs fss h" and "table_ok h" and "NUL \<notin> set name"
    and "open_target D devs fss name = Some (d, isfs)" and "dev_open (D d) = None" and "dev_close (D d) = None"
    and "alt_open D name flags mode h = Some (r, h1)" and "0 \<le> r"
  shows "\<exists>h2. alt_close D r h1 = Some (0, h2) \<and> fd_dev (alt_fd_list h2 ! nat r) = None \<and>
    fd_flags (alt_fd_list h2 ! nat r) = 0 \<and> (\<forall>j. j \<noteq> nat r \<longrightarrow> alt_fd_list h2 ! j = alt_fd_list h ! j) \<and>
    free_fd h2 = Some (nat r)"
proof -
  obtain i where i: "free_fd h = Some i" "r = int i"
    "h1 = set_fd i (new_fd d isfs i flags (h\<lparr>alt_max_fd := max (int i) (alt_max_fd h)\<rparr>))
            (h\<lparr>alt_max_fd := max (int i) (alt_max_fd h)\<rparr>)"
    using assms(4-8) alt_open_spec [OF assms(1-3)]
    by (auto simp: open_spec_def Let_def split: option.splits if_splits)
  note f = free_fdD [OF i(1) assms(2)] and len = table_okD(1) [OF assms(2)]
  have "find (\<lambda>j. fd_dev ((alt_fd_list h)[i := x] ! j) = None) [0..<ALT_MAX_FD] = Some i" if "fd_dev x = None" for x
  proof -
    have "fd_dev ((alt_fd_list h)[i := x] ! j) = None \<longleftrightarrow> fd_dev (alt_fd_list h ! j) = None" for j
      using that f len by (cases "j = i") auto
    then show ?thesis using i(1) by (simp add: free_fd_def)
  qed
  then show ?thesis
    using i(2,3) f len assms(6) by (simp add: alt_close_def fd_at_def new_fd_def alt_release_fd_def free_fd_def Let_def)
qed

theorem open_close_witness:
  "\<exists>r h1 h2. alt_open example_devices ''/dev/uart'' 0 0 example_start = Some (r, h1) \<and> 0 \<le> r \<and>
     alt_close example_devices r h1 = Some (0, h2) \<and> free_fd h2 = Some (nat r)"
proof -
  have nul: "NUL \<notin> set ''/dev/uart''" by (simp add: NUL_def)
  have t: "open_target example_devices [10, alt_dev_null] [] ''/dev/uart'' = Some (10, False)"
    "dev_open (example_devices 10) = None" "dev_close (example_devices 10) = None"
    by (simp_all add: open_target_def example_devices_def alt_dev_null_def alt_dev_null_struct_def)
  have free: "free_fd example_start = Some 3"
    by (simp add: free_fd_def example_start_def alt_dev_reg_def alt_dev_llist_insert_def example_devices_def
        alt_dev_null_def hal_init_def ALT_MAX_FD_def upt_conv_Cons nth_append)
  have "\<not> locked_by_other 3 10 example_start"
    by (auto simp: locked_by_other_def example_start_def alt_dev_reg_def alt_dev_llist_insert_def
        example_devices_def alt_dev_null_def hal_init_def nth_append nth_Cons' ALT_MAX_FD_def split: if_splits)
  then obtain h1 where o: "alt_open example_devices ''/dev/uart'' 0 0 example_start = Some (3, h1)"
    using alt_open_spec [OF example_registered(1,2) nul, of 0 0] t free by (simp add: open_spec_def Let_def)
  show ?thesis using open_close [OF example_registered(1,2) nul t o] o by auto
qed

end
