(* ===== verification/Flash_Epcs.thy ===== *)
theory Flash_Epcs
  imports Spi_Link Hal_Fd
begin

text \<open>
  The driver of the serial configuration flash: the commands of the chip
  (\<open>drivers/src/epcs_commands.c\<close>) over \<open>alt_avalon_spi_command\<close>, the flash device on top of them
  (\<open>altera_avalon_epcs_flash_controller.c\<close>), and its registration
  (\<open>HAL/src/alt_flash_dev.c\<close>). \<open>cmd\<close> is \<open>alt_avalon_spi_command\<close> on the controller's base
  and slave 0: the bytes to write, how many to read, and the flags.
\<close>

unbundle bit_operations_syntax

type_synonym 's command = "u8 list \<Rightarrow> nat \<Rightarrow> u32 \<Rightarrow> 's \<Rightarrow> (u8 list \<times> 's) option"

definition spi_command :: "'h spi_hw \<Rightarrow> 'h command" where
  "spi_command hw = alt_avalon_spi_command hw 0"

section \<open>Commands of the chip\<close>

definition epcs_read :: u8 where "epcs_read = 0x03"
definition epcs_pp :: u8 where "epcs_pp = 0x02"
definition epcs_wren :: u8 where "epcs_wren = 0x06"
definition epcs_rdsr :: u8 where "epcs_rdsr = 0x05"
definition epcs_wrsr :: u8 where "epcs_wrsr = 0x01"
definition epcs_se :: u8 where "epcs_se = 0xD8"
definition epcs_res :: u8 where "epcs_res = 0xAB"
definition epcs_rdid :: u8 where "epcs_rdid = 0x9F"
definition epcs_en4b :: u8 where "epcs_en4b = 0xB7"
definition epcs_dis4b :: u8 where "epcs_dis4b = 0xE9"

lemmas epcs_codes = epcs_read_def epcs_pp_def epcs_wren_def epcs_rdsr_def epcs_wrsr_def epcs_se_def
  epcs_res_def epcs_rdid_def epcs_en4b_def epcs_dis4b_def

text \<open>Reading one byte: the buffer gets the first byte of the answer.\<close>

definition epcs_read_status_register :: "'s command \<Rightarrow> 's \<Rightarrow> (u8 \<times> 's) option" where
  "epcs_read_status_register cmd s =
    do { (r, s) \<leftarrow> cmd [epcs_rdsr] 1 0 s; Some (r ! 0, s) }"

definition epcs_test_wip :: "'s command \<Rightarrow> 's \<Rightarrow> (u8 \<times> 's) option" where
  "epcs_test_wip cmd s = do { (r, s) \<leftarrow> epcs_read_status_register cmd s; Some (r AND 1, s) }"

partial_function (option) epcs_await_wip_released :: "'s command \<Rightarrow> 's \<Rightarrow> 's option" where
  "epcs_await_wip_released cmd s =
    Option.bind (epcs_test_wip cmd s) (\<lambda>(wip, s).
      if wip \<noteq> 0 then epcs_await_wip_released cmd s else Some s)"

declare epcs_await_wip_released.simps [code]

definition epcs_write_enable :: "'s command \<Rightarrow> 's \<Rightarrow> 's option" where
  "epcs_write_enable cmd s = do { (_, s) \<leftarrow> cmd [epcs_wren] 0 0 s; Some s }"

definition epcs_enter_4_bytes_mode :: "'s command \<Rightarrow> 's \<Rightarrow> 's option" where
  "epcs_enter_4_bytes_mode cmd s =
    do { s \<leftarrow> epcs_write_enable cmd s; (_, s) \<leftarrow> cmd [epcs_en4b] 0 0 s; Some s }"

definition epcs_exit_4_bytes_mode :: "'s command \<Rightarrow> 's \<Rightarrow> 's option" where
  "epcs_exit_4_bytes_mode cmd s =
    do { s \<leftarrow> epcs_write_enable cmd s; (_, s) \<leftarrow> cmd [epcs_dis4b] 0 0 s; Some s }"

text \<open>A command with the 3 or 4 bytes of an address, the high byte first.\<close>

definition with_address :: "u8 \<Rightarrow> u32 \<Rightarrow> u32 \<Rightarrow> u8 list" where
  "with_address code offset four_bytes_mode =
    (if four_bytes_mode \<noteq> 0
     then [code, ucast (drop_bit 24 offset), ucast (drop_bit 16 offset), ucast (drop_bit 8 offset), ucast offset]
     else [code, ucast (drop_bit 16 offset), ucast (drop_bit 8 offset), ucast offset])"

definition epcs_sector_erase :: "'s command \<Rightarrow> u32 \<Rightarrow> u32 \<Rightarrow> 's \<Rightarrow> 's option" where
  "epcs_sector_erase cmd offset four_bytes_mode s =
    do {
      let se = with_address epcs_se offset four_bytes_mode;
      s \<leftarrow> (if four_bytes_mode \<noteq> 0 then epcs_enter_4_bytes_mode cmd s else Some s);
      s \<leftarrow> epcs_write_enable cmd s;
      (_, s) \<leftarrow> cmd se 0 0 s;
      s \<leftarrow> epcs_await_wip_released cmd s;
      if four_bytes_mode \<noteq> 0 then epcs_exit_4_bytes_mode cmd s else Some s
    }"

definition epcs_read_buffer :: "'s command \<Rightarrow> u32 \<Rightarrow> nat \<Rightarrow> u32 \<Rightarrow> 's \<Rightarrow> (int \<times> u8 list \<times> 's) option" where
  "epcs_read_buffer cmd offset len four_bytes_mode s =
    do {
      let read_command = with_address epcs_read offset four_bytes_mode;
      s \<leftarrow> (if four_bytes_mode \<noteq> 0 then epcs_enter_4_bytes_mode cmd s else Some s);
      s \<leftarrow> epcs_await_wip_released cmd s;
      (dest, s) \<leftarrow> cmd read_command len 0 s;
      s \<leftarrow> (if four_bytes_mode \<noteq> 0 then epcs_exit_4_bytes_mode cmd s else Some s);
      Some (int len, dest, s)
    }"

definition epcs_write_status_register :: "'s command \<Rightarrow> u8 \<Rightarrow> 's \<Rightarrow> 's option" where
  "epcs_write_status_register cmd v s =
    do { (_, s) \<leftarrow> cmd [epcs_wrsr, v] 0 0 s; epcs_await_wip_released cmd s }"

definition epcs_write_buffer :: "'s command \<Rightarrow> u32 \<Rightarrow> u8 list \<Rightarrow> u32 \<Rightarrow> 's \<Rightarrow> (int \<times> 's) option" where
  "epcs_write_buffer cmd offset src four_bytes_mode s =
    do {
      let pp = with_address epcs_pp offset four_bytes_mode;
      s \<leftarrow> (if four_bytes_mode \<noteq> 0 then epcs_enter_4_bytes_mode cmd s else Some s);
      s \<leftarrow> epcs_write_enable cmd s;
      (_, s) \<leftarrow> cmd pp 0 COMMAND_MERGE s;
      (_, s) \<leftarrow> cmd src 0 0 s;
      s \<leftarrow> epcs_await_wip_released cmd s;
      s \<leftarrow> (if four_bytes_mode \<noteq> 0 then epcs_exit_4_bytes_mode cmd s else Some s);
      Some (int (length src), s)
    }"

definition epcs_read_electronic_signature :: "'s command \<Rightarrow> 's \<Rightarrow> (u8 \<times> 's) option" where
  "epcs_read_electronic_signature cmd s =
    do { (res, s) \<leftarrow> cmd [epcs_res, 0, 0, 0] 1 0 s; Some (res ! 0, s) }"

definition epcs_read_device_id :: "'s command \<Rightarrow> 's \<Rightarrow> (u32 \<times> 's) option" where
  "epcs_read_device_id cmd s =
    do {
      (id, s) \<leftarrow> cmd [epcs_rdid] 3 0 s;
      Some (push_bit 16 (ucast (id ! 0)) OR push_bit 8 (ucast (id ! 1)) OR ucast (id ! 2), s)
    }"

section \<open>The flash device\<close>

record flash_region =
  region_offset :: int
  region_size :: int
  number_of_blocks :: int
  block_size :: int

record flash_dev =
  number_of_regions :: int
  region_info :: "flash_region list"
  size_in_bytes :: u32
  silicon_id :: u32
  page_size :: u32
  four_bytes_mode :: u32

definition ALT_MAX_NUMBER_OF_FLASH_REGIONS :: int where "ALT_MAX_NUMBER_OF_FLASH_REGIONS = 8"

text \<open>\<open>flash->dev.region_info[0]\<close>: size, number of blocks and block size.\<close>

definition set_region :: "int \<Rightarrow> int \<Rightarrow> int \<Rightarrow> flash_dev \<Rightarrow> flash_dev" where
  "set_region sz blocks bsize f =
    f\<lparr>region_info := (region_info f)
        [0 := (region_info f ! 0)\<lparr>region_size := sz, number_of_blocks := blocks, block_size := bsize\<rparr>]\<rparr>"

definition alt_epcs_flash_query :: "'s command \<Rightarrow> flash_dev \<Rightarrow> 's \<Rightarrow> (int \<times> flash_dev \<times> 's) option" where
  "alt_epcs_flash_query cmd f s =
    do {
      let f = f\<lparr>four_bytes_mode := 0\<rparr>;
      (sig, s) \<leftarrow> epcs_read_electronic_signature cmd s;
      let f = f\<lparr>silicon_id := ucast sig\<rparr>;
      (ret_code, f, s) \<leftarrow>
        (if silicon_id f = 0x16 then Some (0, set_region (64 * 1024 * 1024 div 8) 128 65536 f, s)
         else if silicon_id f = 0x14 then Some (0, set_region (16 * 1024 * 1024 div 8) 32 65536 f, s)
         else if silicon_id f = 0x13 then Some (0, set_region (8 * 1024 * 1024 div 8) 16 65536 f, s)
         else if silicon_id f = 0x12 then Some (0, set_region (4 * 1024 * 1024 div 8) 8 65536 f, s)
         else if silicon_id f = 0x10 then Some (0, set_region (1 * 1024 * 1024 div 8) 4 32768 f, s)
         else do {
           (id, s) \<leftarrow> epcs_read_device_id cmd s;
           let f = f\<lparr>silicon_id := id\<rparr>;
           Some (if silicon_id f AND 0xFFFFFF = 0x20BA18
                 then (0, set_region (128 * 1024 * 1024 div 8) 256 65536 f, s)
                 else if silicon_id f AND 0xFF = 0x18
                 then (0, set_region (128 * 1024 * 1024 div 8) 64 262144 f, s)
                 else if silicon_id f AND 0xFF = 0x19
                 then (0, (set_region (256 * 1024 * 1024 div 8) 512 65536 f)\<lparr>four_bytes_mode := 1\<rparr>, s)
                 else (- ENODEV, f, s))
         });
      let f = f\<lparr>size_in_bytes := of_int (region_size (region_info f ! 0)), number_of_regions := 1,
                region_info := (region_info f)[0 := (region_info f ! 0)\<lparr>region_offset := 0\<rparr>], page_size := 256\<rparr>;
      Some (ret_code, f, s)
    }"

text \<open>The list of flash devices; \<open>alt_epcs_flash_init\<close> registers the device that answered.\<close>

definition alt_flash_dev_list :: ptr where "alt_flash_dev_list = 3"

definition alt_flash_device_register :: "(ptr \<Rightarrow> 'w alt_dev) \<Rightarrow> ptr option \<Rightarrow> 'w hal \<Rightarrow> int \<times> 'w hal" where
  "alt_flash_device_register D fd h = alt_dev_llist_insert D fd alt_flash_dev_list h"

definition alt_flash_open_dev ::
  "(ptr \<Rightarrow> (ptr \<Rightarrow> string \<Rightarrow> ptr option) option) \<Rightarrow> (ptr \<Rightarrow> 'w alt_dev) \<Rightarrow> string \<Rightarrow> 'w hal \<Rightarrow> ptr option option" where
  "alt_flash_open_dev open_op D name h =
    do {
      dev \<leftarrow> alt_find_dev D name alt_flash_dev_list (links h);
      Some (case dev of
              None \<Rightarrow> None
            | Some d \<Rightarrow> (case open_op d of None \<Rightarrow> Some d | Some f \<Rightarrow> f d name))
    }"

definition alt_flash_close_dev :: "(ptr \<Rightarrow> (ptr \<Rightarrow> 'w \<Rightarrow> int \<times> 'w) option) \<Rightarrow> ptr option \<Rightarrow> 'w \<Rightarrow> 'w" where
  "alt_flash_close_dev close_op fd w =
    (case fd of
       None \<Rightarrow> w
     | Some d \<Rightarrow> (case close_op d of None \<Rightarrow> w | Some f \<Rightarrow> snd (f d w)))"

definition alt_epcs_flash_init ::
  "'s command \<Rightarrow> (ptr \<Rightarrow> 'w alt_dev) \<Rightarrow> ptr \<Rightarrow> flash_dev \<Rightarrow> 's \<Rightarrow> 'w hal \<Rightarrow> (int \<times> flash_dev \<times> 's \<times> 'w hal) option" where
  "alt_epcs_flash_init cmd D flash f s h =
    do {
      (ret_code, f, s) \<leftarrow> alt_epcs_flash_query cmd f s;
      Some (if ret_code = 0
            then (case alt_flash_device_register D (Some flash) h of (rc, h) \<Rightarrow> (rc, f, s, h))
            else (ret_code, f, s, h))
    }"

text \<open>The range check compares as unsigned numbers.\<close>

definition alt_epcs_test_address :: "flash_dev \<Rightarrow> int \<Rightarrow> int" where
  "alt_epcs_test_address f offset =
    (let r = region_info f ! nat (number_of_regions f - 1);
         last_device_address = of_int (-1 + region_offset r + region_size r) :: u32
     in if (of_int offset :: u32) > last_device_address then - EIO else 0)"

definition alt_epcs_flash_read :: "'s command \<Rightarrow> flash_dev \<Rightarrow> int \<Rightarrow> nat \<Rightarrow> 's \<Rightarrow> (int \<times> u8 list \<times> 's) option" where
  "alt_epcs_flash_read cmd f offset len s =
    (let ret_code = alt_epcs_test_address f offset
     in if ret_code \<ge> 0
        then do {
          (ret_code, dest, s) \<leftarrow> epcs_read_buffer cmd (of_int offset) len (four_bytes_mode f) s;
          Some (if ret_code = int len then 0 else ret_code, dest, s)
        }
        else Some (ret_code, [], s))"

definition alt_epcs_flash_erase_block :: "'s command \<Rightarrow> flash_dev \<Rightarrow> int \<Rightarrow> 's \<Rightarrow> (int \<times> 's) option" where
  "alt_epcs_flash_erase_block cmd f block_offset s =
    (let ret_code = alt_epcs_test_address f block_offset
     in if ret_code \<ge> 0
        then do { s \<leftarrow> epcs_sector_erase cmd (of_int block_offset) (four_bytes_mode f) s; Some (ret_code, s) }
        else Some (ret_code, s))"

text \<open>The loop of \<open>alt_epcs_flash_write_block\<close>: page by page. \<open>data\<close> is what is left of the buffer.\<close>

partial_function (option) write_pages ::
  "'s command \<Rightarrow> flash_dev \<Rightarrow> int \<Rightarrow> u8 list \<Rightarrow> int \<Rightarrow> 's \<Rightarrow> 's option" where
  "write_pages cmd f data_offset data len s =
    (if len = 0 then Some s
     else let next_page_start = sint ((of_int data_offset + page_size f) AND NOT (page_size f - 1) :: u32);
              current = min len (next_page_start - data_offset)
          in Option.bind (epcs_write_buffer cmd (of_int data_offset) (take (nat current) data) (four_bytes_mode f) s)
               (\<lambda>(_, s). write_pages cmd f next_page_start (drop (nat current) data) (len - current) s))"

declare write_pages.simps [code]

definition alt_epcs_flash_write_block ::
  "'s command \<Rightarrow> flash_dev \<Rightarrow> int \<Rightarrow> int \<Rightarrow> u8 list \<Rightarrow> int \<Rightarrow> 's \<Rightarrow> (int \<times> 's) option" where
  "alt_epcs_flash_write_block cmd f block_offset data_offset data len s =
    (let ret_code = alt_epcs_test_address f data_offset
     in if ret_code \<ge> 0 then do { s \<leftarrow> write_pages cmd f data_offset data len s; Some (ret_code, s) }
        else Some (ret_code, s))"

text \<open>\<open>memcmp\<close> of two blocks: the sign of the first difference.\<close>

fun memcmp :: "u8 list \<Rightarrow> u8 list \<Rightarrow> int" where
  "memcmp (a # as) (b # bs) = (if a = b then memcmp as bs else if a < b then -1 else 1)"
| "memcmp _ _ = 0"

text \<open>The loop of \<open>alt_epcs_flash_memcmp\<close>: \<open>n\<close> bytes in chunks of 32.\<close>

function flash_memcmp_loop ::
  "'s command \<Rightarrow> flash_dev \<Rightarrow> u8 list \<Rightarrow> int \<Rightarrow> nat \<Rightarrow> nat \<Rightarrow> 's \<Rightarrow> (int \<times> 's) option" where
  "flash_memcmp_loop cmd f src offset current_offset n s =
    (if n > 0 then
       let this_chunk_size = (if n > 32 then 32 else n)
       in Option.bind (alt_epcs_flash_read cmd f (offset + int current_offset) this_chunk_size s)
            (\<lambda>(rc, chunk, s).
              if rc < 0 then Some (-1, s)
              else let this_chunk_cmp = memcmp (take this_chunk_size (drop current_offset src)) chunk
                   in if this_chunk_cmp \<noteq> 0 then Some (this_chunk_cmp, s)
                      else flash_memcmp_loop cmd f src offset (current_offset + this_chunk_size) (n - this_chunk_size) s)
     else Some (0, s))"
  by pat_completeness auto
termination by (relation "measure (\<lambda>(_, _, _, _, _, n, _). n)") auto

declare flash_memcmp_loop.simps [simp del]

definition alt_epcs_flash_memcmp :: "'s command \<Rightarrow> flash_dev \<Rightarrow> u8 list \<Rightarrow> int \<Rightarrow> nat \<Rightarrow> 's \<Rightarrow> (int \<times> 's) option" where
  "alt_epcs_flash_memcmp cmd f src offset n s = flash_memcmp_loop cmd f src offset 0 n s"

text \<open>
  \<open>alt_epcs_flash_write\<close>: the variables of its two loops, the body for one block, and the loops.
\<close>

record write_job =
  job_offset :: int
  job_src :: "u8 list"
  job_length :: int
  job_ret :: int
  job_finished :: bool

text \<open>The bytes for one block: compared, and if they differ the block is erased and written.\<close>

definition flash_update_block ::
  "'s command \<Rightarrow> flash_dev \<Rightarrow> int \<Rightarrow> int \<Rightarrow> u8 list \<Rightarrow> int \<Rightarrow> int \<Rightarrow> 's \<Rightarrow> (int \<times> 's) option" where
  "flash_update_block cmd f current_offset offset src data_to_write ret_code s =
    do {
      (differs, s) \<leftarrow> alt_epcs_flash_memcmp cmd f src offset (unat (of_int data_to_write :: u32)) s;
      if differs \<noteq> 0 then
        do {
          (ret_code, s) \<leftarrow> alt_epcs_flash_erase_block cmd f current_offset s;
          if ret_code = 0
          then alt_epcs_flash_write_block cmd f current_offset offset src data_to_write s
          else Some (ret_code, s)
        }
      else Some (ret_code, s)
    }"

definition flash_write_block_body ::
  "'s command \<Rightarrow> flash_dev \<Rightarrow> flash_region \<Rightarrow> int \<Rightarrow> write_job \<Rightarrow> 's \<Rightarrow> (write_job \<times> 's) option" where
  "flash_write_block_body cmd f r current_offset j s =
    (if job_offset j \<ge> current_offset \<and> job_offset j < current_offset + block_size r then
       do {
         let data_to_write = min (current_offset + block_size r - job_offset j) (job_length j);
         (ret_code, s) \<leftarrow> flash_update_block cmd f current_offset (job_offset j) (job_src j) data_to_write (job_ret j) s;
         let j = j\<lparr>job_ret := ret_code\<rparr>;
         Some (if job_length j = data_to_write \<or> ret_code \<noteq> 0 then (j\<lparr>job_finished := True\<rparr>, s)
               else (j\<lparr>job_length := job_length j - data_to_write, job_offset := current_offset + block_size r,
                       job_src := drop (nat data_to_write) (job_src j)\<rparr>, s))
       }
     else Some (j, s))"

primrec flash_write_blocks ::
  "'s command \<Rightarrow> flash_dev \<Rightarrow> flash_region \<Rightarrow> nat \<Rightarrow> int \<Rightarrow> write_job \<Rightarrow> 's \<Rightarrow> (write_job \<times> 's) option" where
  "flash_write_blocks cmd f r 0 current_offset j s = Some (j, s)"
| "flash_write_blocks cmd f r (Suc n) current_offset j s =
     do {
       (j, s) \<leftarrow> flash_write_block_body cmd f r current_offset j s;
       if job_finished j then Some (j, s) else flash_write_blocks cmd f r n (current_offset + block_size r) j s
     }"

fun flash_write_regions ::
  "'s command \<Rightarrow> flash_dev \<Rightarrow> flash_region list \<Rightarrow> write_job \<Rightarrow> 's \<Rightarrow> (write_job \<times> 's) option" where
  "flash_write_regions cmd f [] j s = Some (j, s)"
| "flash_write_regions cmd f (r # rs) j s =
     do {
       (j, s) \<leftarrow> (if job_offset j \<ge> region_offset r \<and> job_offset j < region_offset r + region_size r
                  then flash_write_blocks cmd f r (nat (number_of_blocks r)) (region_offset r) j s
                  else Some (j, s));
       if job_finished j then Some (j, s) else flash_write_regions cmd f rs j s
     }"

definition alt_epcs_flash_write :: "'s command \<Rightarrow> flash_dev \<Rightarrow> int \<Rightarrow> u8 list \<Rightarrow> 's \<Rightarrow> (int \<times> 's) option" where
  "alt_epcs_flash_write cmd f offset src s =
    do {
      (j, s) \<leftarrow> flash_write_regions cmd f (take (nat (number_of_regions f)) (region_info f))
        \<lparr>job_offset = offset, job_src = src, job_length = int (length src), job_ret = 0, job_finished = False\<rparr> s;
      Some (job_ret j, s)
    }"

definition alt_epcs_flash_get_info :: "flash_dev \<Rightarrow> int \<times> flash_region list option \<times> int" where
  "alt_epcs_flash_get_info f =
    (if number_of_regions f = 0 then (- EIO, None, number_of_regions f)
     else if number_of_regions f > ALT_MAX_NUMBER_OF_FLASH_REGIONS then (- ENOMEM, None, number_of_regions f)
     else (0, Some (region_info f), number_of_regions f))"

end
