(* ===== verification/Flash_Port.thy ===== *)
theory Flash_Port
  imports Flash_Epcs
begin

text \<open>
  What the flash device relies on: the interface \<open>serial_flash\<close> of a chip behind the commands
  of \<open>epcs_commands.c\<close>, and, proved once inside it, what the page loop, the comparison and
  the two loops of \<open>alt_epcs_flash_write\<close> make of the memory of the chip.
\<close>

section \<open>Arithmetic of addresses\<close>

lemma u32_of_nat: "a < 2 ^ 32 \<Longrightarrow> unat (of_nat a :: u32) = a"
  by (simp add: unat_of_nat take_bit_eq_mod)

lemma u32_of_int_nat: "(of_int (int a) :: u32) = of_nat a" by simp

text \<open>The start of the next page, as the code computes it.\<close>

lemma next_page:
  assumes "a < 2 ^ 30"
  shows "sint ((of_int (int a) + 256 :: u32) AND NOT (256 - 1)) = int ((a div 256 + 1) * 256)"
proof -
  let ?w = "of_nat (a + 256) :: u32" and ?n = "(a div 256 + 1) * 256"
  have n: "?n < 2 ^ 31" "a + 256 < 2 ^ 32" using assms by auto
  have "?w AND NOT (256 - 1) = ?w AND NOT (mask 8)" by (simp add: mask_eq_exp_minus_1)
  also have "\<dots> = push_bit 8 (drop_bit 8 ?w)" by (rule bit_word_eqI) (auto simp: bit_simps)
  finally have "unat (?w AND NOT (256 - 1)) = unat (push_bit 8 (drop_bit 8 ?w))" by simp
  also have "\<dots> = take_bit 32 (push_bit 8 (drop_bit 8 (take_bit 32 (unat ?w))))"
    by (simp only: unsigned_push_bit_eq unsigned_drop_bit_eq) simp
  also have "\<dots> = ?n"
  proof -
    have "(a + 256) mod 2 ^ 32 = a + 256" using n(2) by simp
    moreover have "(a + 256) div 2 ^ 8 = a div 256 + 1" using div_add_self2 [of 256 a] by simp
    moreover have "(a div 256 + 1) * 2 ^ 8 mod 2 ^ 32 = ?n" using n(1) by simp
    ultimately show ?thesis
      by (simp only: u32_of_nat [OF n(2)] drop_bit_eq_div push_bit_eq_mult take_bit_eq_mod)
  qed
  finally have "unat (?w AND NOT (256 - 1)) = ?n" .
  moreover have "unat (of_nat ?n :: u32) = ?n" using n(1) by (intro u32_of_nat) simp
  ultimately have "?w AND NOT (256 - 1) = of_nat ?n" by (metis word_unat_eq_iff)
  then have w: "(of_int (int a) + 256 :: u32) AND NOT (256 - 1) = word_of_int (int ?n)" by simp
  have "int ?n + 2 ^ 31 < 2 ^ 32" using n(1) by simp
  then show ?thesis by (subst w, subst int_word_sint) simp
qed

lemma next_page_gap: "(a div 256 + 1) * 256 = a + (256 - a mod 256 :: nat)"
proof -
  have r: "a mod 256 \<le> 256" by (simp add: less_imp_le)
  have "a + (256 - a mod 256) = (a div 256 * 256 + a mod 256) + (256 - a mod 256)" by (simp only: div_mult_mod_eq)
  also have "\<dots> = a div 256 * 256 + 256" using r by (simp only: add.assoc le_add_diff_inverse)
  finally show ?thesis by (simp only: distrib_right mult_1)
qed

section \<open>What writing leaves in the memory\<close>

text \<open>
  Programming can only clear bits. Writing through \<open>alt_epcs_flash_write\<close> erases every block
  of which some byte differs: what the data does not cover there reads 0xFF afterwards.
\<close>

definition programmed :: "nat \<Rightarrow> u8 list \<Rightarrow> (nat \<Rightarrow> u8) \<Rightarrow> nat \<Rightarrow> u8" where
  "programmed a bs m x = (if a \<le> x \<and> x < a + length bs then m x AND bs ! (x - a) else m x)"

definition erased :: "nat \<Rightarrow> nat \<Rightarrow> (nat \<Rightarrow> u8) \<Rightarrow> nat \<Rightarrow> u8" where
  "erased blk a m x = (if x div blk = a div blk then 0xFF else m x)"

definition differs :: "nat \<Rightarrow> u8 list \<Rightarrow> (nat \<Rightarrow> u8) \<Rightarrow> nat \<Rightarrow> bool" where
  "differs a bs m x \<longleftrightarrow> a \<le> x \<and> x < a + length bs \<and> bs ! (x - a) \<noteq> m x"

definition written :: "nat \<Rightarrow> nat \<Rightarrow> u8 list \<Rightarrow> (nat \<Rightarrow> u8) \<Rightarrow> nat \<Rightarrow> u8" where
  "written blk a bs m x =
    (if a \<le> x \<and> x < a + length bs then bs ! (x - a)
     else if \<exists>y. differs a bs m y \<and> y div blk = x div blk then 0xFF
     else m x)"

lemma memcmp_zero: "length xs = length ys \<Longrightarrow> memcmp xs ys = 0 \<longleftrightarrow> xs = ys"
  by (induction xs ys rule: memcmp.induct) auto

lemma programmed_append:
  "programmed (a + length xs) ys (programmed a xs m) = programmed a (xs @ ys) m"
  by (rule ext) (auto simp: programmed_def nth_append diff_diff_add not_less)

lemma programmed_nil [simp]: "programmed a [] m = m"
  by (rule ext) (auto simp: programmed_def)

lemma all_less_split:
  assumes "k \<le> (n :: nat)"
  shows "(\<forall>i < n. P i) \<longleftrightarrow> (\<forall>i < k. P i) \<and> (\<forall>i < n - k. P (k + i))"
proof (intro iffI conjI allI impI)
  fix i assume "(\<forall>i < k. P i) \<and> (\<forall>i < n - k. P (k + i))" "i < n"
  then show "P i" by (metis diff_less_mono le_add_diff_inverse linorder_not_less)
qed (use assms in auto)

lemma written_nil [simp]: "written blk a [] m = m"
  by (rule ext) (auto simp: written_def differs_def)

text \<open>Inside one block: nothing, or the block is erased and programmed.\<close>

lemma written_same:
  "(\<forall>i < length bs. bs ! i = m (a + i)) \<Longrightarrow> written blk a bs m = m"
  by (rule ext) (auto simp: written_def differs_def dest: spec [of _ "_ - a"])

lemma written_erased:
  assumes "\<exists>i < length bs. bs ! i \<noteq> m (a + i)" and "\<And>x. a \<le> x \<Longrightarrow> x < a + length bs \<Longrightarrow> x div blk = c div blk"
  shows "written blk a bs m = programmed a bs (erased blk c m)"
proof (rule ext)
  fix x
  obtain i where i: "i < length bs" "bs ! i \<noteq> m (a + i)" using assms(1) by blast
  then have d: "differs a bs m (a + i)" by (simp add: differs_def)
  have "(\<exists>y. differs a bs m y \<and> y div blk = x div blk) \<longleftrightarrow> x div blk = c div blk"
    using d assms(2) i(1) by (metis differs_def le_add1 nat_add_left_cancel_less)
  moreover have "0xFF AND v = v" for v :: u8
  proof -
    have "(0xFF :: u8) = - 1" by simp
    then show ?thesis by (simp only: and.left_neutral)
  qed
  ultimately show "written blk a bs m x = programmed a bs (erased blk c m) x"
    using assms(2) [of x] by (auto simp: written_def programmed_def erased_def)
qed

lemma written_split:
  assumes "k \<le> length bs" "blk dvd a + k" "0 < blk"
  shows "written blk (a + k) (drop k bs) (written blk a (take k bs) m) = written blk a bs m"
proof (rule ext)
  fix x
  let ?m = "written blk a (take k bs) m"
  have blocks: "y div blk \<noteq> z div blk" if "y < a + k" "a + k \<le> z" for y z
  proof -
    obtain q where q: "a + k = blk * q" using assms(2) by blast
    have "y div blk < q" using that(1) q assms(3) by (simp add: less_mult_imp_div_less mult.commute)
    moreover have "q \<le> z div blk" using that(2) q assms(3) by (simp add: less_eq_div_iff_mult_less_eq mult.commute)
    ultimately show ?thesis by simp
  qed
  have later: "?m y = m y" if "a + k \<le> y" for y
    using that blocks assms(1) by (auto simp: written_def differs_def)
  have low: "differs a bs m y \<longleftrightarrow> differs a (take k bs) m y" "\<not> differs (a + k) (drop k bs) ?m y" if "y < a + k" for y
    using that assms(1) by (auto simp: differs_def)
  have high: "differs a bs m y \<longleftrightarrow> differs (a + k) (drop k bs) ?m y" "\<not> differs a (take k bs) m y" if "a + k \<le> y" for y
    using that later [OF that] assms(1) by (auto simp: differs_def)
  show "written blk (a + k) (drop k bs) ?m x = written blk a bs m x"
  proof (cases "x < a + k")
    case True
    have "(\<exists>y. differs a bs m y \<and> y div blk = x div blk) \<longleftrightarrow> (\<exists>y. differs a (take k bs) m y \<and> y div blk = x div blk)"
      using low(1) high(2) blocks [OF True] by (metis not_le)
    then have "?m x = written blk a bs m x" using True assms(1) by (simp add: written_def)
    moreover have "\<not> (\<exists>y. differs (a + k) (drop k bs) ?m y \<and> y div blk = x div blk)"
      using low(2) blocks [OF True] by (metis not_le)
    then have "written blk (a + k) (drop k bs) ?m x = ?m x" using True by (subst written_def) auto
    ultimately show ?thesis by simp
  next
    case False
    have "(\<exists>y. differs a bs m y \<and> y div blk = x div blk) \<longleftrightarrow> (\<exists>y. differs (a + k) (drop k bs) ?m y \<and> y div blk = x div blk)"
      using low(2) high(1) blocks [of _ x] False by (metis not_le)
    then show ?thesis using False later [of x] assms(1) by (auto simp: written_def)
  qed
qed

lemma div_in_block:
  assumes "blk dvd c" "0 < blk" "c \<le> x" "x < c + blk"
  shows "x div blk = (c div blk :: nat)"
proof -
  obtain q where "c = blk * q" using assms(1) by blast
  then show ?thesis using assms by (metis div_mult_self1_is_m div_nat_eqI mult.commute mult_Suc_right add.commute)
qed

text \<open>The geometry the driver has read from the chip.\<close>

definition geometry :: "flash_dev \<Rightarrow> nat \<Rightarrow> nat \<Rightarrow> bool" where
  "geometry f cap blk \<longleftrightarrow> number_of_regions f = 1 \<and> page_size f = 256 \<and> region_info f \<noteq> [] \<and>
     region_offset (region_info f ! 0) = 0 \<and> region_size (region_info f ! 0) = int cap \<and>
     number_of_blocks (region_info f ! 0) = int (cap div blk) \<and> block_size (region_info f ! 0) = int blk"

locale serial_flash =
  fixes cmd :: "'s command" and f :: flash_dev and cap blk :: nat
    and mem :: "'s \<Rightarrow> nat \<Rightarrow> u8" and ready :: "'s \<Rightarrow> bool"
  assumes read_law: "ready s \<Longrightarrow> a < cap \<Longrightarrow> a + n \<le> cap \<Longrightarrow>
      \<exists>s'. epcs_read_buffer cmd (of_nat a) n (four_bytes_mode f) s = Some (int n, map (\<lambda>i. mem s (a + i)) [0..<n], s') \<and>
        ready s' \<and> mem s' = mem s"
    and write_law: "ready s \<Longrightarrow> a < cap \<Longrightarrow> bs \<noteq> [] \<Longrightarrow> a mod 256 + length bs \<le> 256 \<Longrightarrow>
      \<exists>s'. epcs_write_buffer cmd (of_nat a) bs (four_bytes_mode f) s = Some (int (length bs), s') \<and>
        ready s' \<and> mem s' = programmed a bs (mem s)"
    and erase_law: "ready s \<Longrightarrow> a < cap \<Longrightarrow>
      \<exists>s'. epcs_sector_erase cmd (of_nat a) (four_bytes_mode f) s = Some s' \<and>
        ready s' \<and> mem s' = erased blk a (mem s)"
    and geometry: "geometry f cap blk" and cap_pos: "0 < cap" and cap_bound: "cap \<le> 2 ^ 30"
    and block_pos: "0 < blk" and block_dvd: "blk dvd cap"
begin

lemma test_address:
  "a < 2 ^ 31 \<Longrightarrow> alt_epcs_test_address f (int a) = (if a < cap then 0 else - EIO)"
proof -
  assume a: "a < 2 ^ 31"
  have "alt_epcs_test_address f (int a) =
      (if (of_nat a :: u32) > of_int (int cap - 1) then - EIO else 0)"
    using geometry by (simp add: alt_epcs_test_address_def geometry_def)
  also obtain k where k: "cap = Suc k" using cap_pos by (cases cap) auto
  then have "(of_int (int cap - 1) :: u32) = of_nat k" by simp
  also have "(of_nat a :: u32) > of_nat k \<longleftrightarrow> \<not> a < cap"
    using a cap_bound k by (simp add: word_less_nat_alt u32_of_nat not_less Suc_le_eq)
  finally show ?thesis by simp
qed

lemma read_total:
  assumes "ready s" "a + n \<le> cap" "a < cap"
  shows "\<exists>s'. alt_epcs_flash_read cmd f (int a) n s = Some (0, map (\<lambda>i. mem s (a + i)) [0..<n], s') \<and>
    ready s' \<and> mem s' = mem s"
  using read_law [OF assms(1,3,2)] assms(3) cap_bound by (auto simp: alt_epcs_flash_read_def test_address)

text \<open>The comparison reads nothing but the bytes in question and tells whether they differ.\<close>

lemma memcmp_loop_total:
  assumes "ready s" "off + cur + n \<le> cap" "cur + n \<le> length src"
  shows "\<exists>rc s'. flash_memcmp_loop cmd f src (int off) cur n s = Some (rc, s') \<and> ready s' \<and> mem s' = mem s \<and>
    (rc = 0 \<longleftrightarrow> (\<forall>i < n. src ! (cur + i) = mem s (off + cur + i)))"
  using assms
proof (induction n arbitrary: cur s rule: less_induct)
  case (less n)
  show ?case
  proof (cases "n = 0")
    case True
    then show ?thesis using less.prems by (simp add: flash_memcmp_loop.simps)
  next
    case False
    define k where "k = (if n > 32 then 32 else n)"
    have k: "0 < k" "k \<le> n" using False by (simp_all add: k_def)
    obtain s1 where s1: "alt_epcs_flash_read cmd f (int (off + cur)) k s =
        Some (0, map (\<lambda>i. mem s (off + cur + i)) [0..<k], s1)" "ready s1" "mem s1 = mem s"
      using read_total [OF less.prems(1), of "off + cur" k] less.prems(2) k by auto
    let ?c = "memcmp (take k (drop cur src)) (map (\<lambda>i. mem s (off + cur + i)) [0..<k])"
    have c: "?c = 0 \<longleftrightarrow> (\<forall>i < k. src ! (cur + i) = mem s (off + cur + i))"
      using less.prems(3) k by (subst memcmp_zero) (auto simp: list_eq_iff_nth_eq)
    have step: "flash_memcmp_loop cmd f src (int off) cur n s =
        (if ?c \<noteq> 0 then Some (?c, s1) else flash_memcmp_loop cmd f src (int off) (cur + k) (n - k) s1)"
      using False s1(1) by (subst flash_memcmp_loop.simps) (simp add: Let_def k_def [symmetric])
    show ?thesis
    proof (cases "?c = 0")
      case False
      then show ?thesis using step s1 c k(2) by (metis less_le_trans)
    next
      case True
      obtain rc s' where ih: "flash_memcmp_loop cmd f src (int off) (cur + k) (n - k) s1 = Some (rc, s')" "ready s'"
        "mem s' = mem s1" "rc = 0 \<longleftrightarrow> (\<forall>i < n - k. src ! (cur + k + i) = mem s1 (off + (cur + k) + i))"
        using less.IH [of "n - k" s1 "cur + k"] k False less.prems s1(2) by auto
      have "(\<forall>i < n. src ! (cur + i) = mem s (off + cur + i)) \<longleftrightarrow>
          (\<forall>i < n - k. src ! (cur + k + i) = mem s (off + cur + k + i))"
        using c True all_less_split [OF k(2), of "\<lambda>i. src ! (cur + i) = mem s (off + cur + i)"] by (simp add: add.assoc)
      then show ?thesis using ih s1(3) True step by (simp add: add.assoc)
    qed
  qed
qed

text \<open>The pages of a block write.\<close>

lemma write_pages_total:
  assumes "ready s" "off + n \<le> cap" "n \<le> length data"
  shows "\<exists>s'. write_pages cmd f (int off) data (int n) s = Some s' \<and> ready s' \<and>
    mem s' = programmed off (take n data) (mem s)"
  using assms
proof (induction n arbitrary: off data s rule: less_induct)
  case (less n)
  show ?case
  proof (cases "n = 0")
    case True
    then show ?thesis using less.prems by (simp add: write_pages.simps)
  next
    case False
    define next_off where "next_off = (off div 256 + 1) * 256"
    define k where "k = min n (next_off - off)"
    have off: "off < cap" using less.prems(2) False by simp
    then have nx: "sint ((of_int (int off) + page_size f) AND NOT (page_size f - 1) :: u32) = int next_off"
      using next_page [of off] geometry cap_bound by (simp add: geometry_def next_off_def)
    have r: "off mod 256 < 256" by simp
    have gap: "next_off = off + (256 - off mod 256)" unfolding next_off_def by (rule next_page_gap)
    have "off < next_off" using gap r by linarith
    then have k: "0 < k" "k \<le> n" "min (int n) (int next_off - int off) = int k" "off mod 256 + k \<le> 256"
      using False gap r by (auto simp: k_def)
    have filled: "data \<noteq> []" using k less.prems(3) by auto
    obtain s1 where s1: "epcs_write_buffer cmd (of_nat off) (take k data) (four_bytes_mode f) s = Some (int k, s1)"
      "ready s1" "mem s1 = programmed off (take k data) (mem s)"
      using write_law [OF less.prems(1) off, of "take k data"] k less.prems(3) filled by auto
    have step: "write_pages cmd f (int off) data (int n) s =
        write_pages cmd f (int next_off) (drop k data) (int (n - k)) s1"
      using False nx k s1(1) by (subst write_pages.simps) (simp add: Let_def of_nat_diff)
    show ?thesis
    proof (cases "k = n")
      case True
      then show ?thesis using step s1 by (simp add: write_pages.simps)
    next
      case False
      then have nxt: "next_off = off + k" using k by (auto simp: k_def)
      obtain s' where s': "write_pages cmd f (int next_off) (drop k data) (int (n - k)) s1 = Some s'"
        "ready s'" "mem s' = programmed next_off (take (n - k) (drop k data)) (mem s1)"
        using less.IH [of "n - k" s1 next_off "drop k data"] less.prems k s1(2) nxt
          diff_le_mono [OF less.prems(3), of k] by auto
      have "take k data @ take (n - k) (drop k data) = take n data"
        using k(2) by (metis le_add_diff_inverse take_add)
      then show ?thesis
        using step s1(3) s' k(2) less.prems(3) nxt
          programmed_append [of off "take k data" "take (n - k) (drop k data)" "mem s"] by simp
    qed
  qed
qed

text \<open>One block, then all of them, then the call.\<close>

lemma update_block_total:
  assumes s: "ready s" and c: "blk dvd c" "c + blk \<le> cap" and off: "c \<le> off" "off + d \<le> c + blk" "off < c + blk"
    and d: "d \<le> length src"
  shows "\<exists>s'. flash_update_block cmd f (int c) (int off) src (int d) 0 s = Some (0, s') \<and> ready s' \<and>
    mem s' = written blk off (take d src) (mem s)"
proof -
  have "d < 2 ^ 32" using c off cap_bound by simp
  then have n: "unat (of_int (int d) :: u32) = d" by (simp add: u32_of_nat)
  obtain rc s1 where cmp: "alt_epcs_flash_memcmp cmd f src (int off) d s = Some (rc, s1)" "ready s1" "mem s1 = mem s"
    "rc = 0 \<longleftrightarrow> (\<forall>i < d. src ! i = mem s (off + i))"
    using memcmp_loop_total [OF s, of off 0 d src] c(2) off d by (auto simp: alt_epcs_flash_memcmp_def)
  show ?thesis
  proof (cases "rc = 0")
    case True
    then have "written blk off (take d src) (mem s) = mem s" using cmp(4) d by (intro written_same) simp
    then show ?thesis using True cmp n by (simp add: flash_update_block_def)
  next
    case False
    have bounds: "c < 2 ^ 31" "off < 2 ^ 31" "c < cap" "off < cap" using c off block_pos cap_bound by auto
    then obtain s2 where s2: "alt_epcs_flash_erase_block cmd f (int c) s1 = Some (0, s2)" "ready s2"
      "mem s2 = erased blk c (mem s)"
      using erase_law [OF cmp(2), of c] cmp(3) by (auto simp: alt_epcs_flash_erase_block_def test_address)
    obtain s3 where s3: "alt_epcs_flash_write_block cmd f (int c) (int off) src (int d) s2 = Some (0, s3)" "ready s3"
      "mem s3 = programmed off (take d src) (mem s2)"
      using write_pages_total [OF s2(2), of off d src] c(2) off d bounds
      by (auto simp: alt_epcs_flash_write_block_def test_address)
    have "x div blk = c div blk" if "off \<le> x" "x < off + length (take d src)" for x
      using that off d c(1) block_pos by (intro div_in_block) auto
    then have "written blk off (take d src) (mem s) = programmed off (take d src) (erased blk c (mem s))"
      using False cmp(4) d by (intro written_erased) auto
    then show ?thesis using s2 s3 False cmp n by (simp add: flash_update_block_def)
  qed
qed

abbreviation job :: "nat \<Rightarrow> u8 list \<Rightarrow> bool \<Rightarrow> write_job" where
  "job off src fin \<equiv> \<lparr>job_offset = int off, job_src = src, job_length = int (length src), job_ret = 0, job_finished = fin\<rparr>"

lemma block_body_total:
  assumes s: "ready s" and blk: "block_size r = int blk" and c: "blk dvd c" "c + blk \<le> cap"
    and off: "c \<le> off" "off < c + blk" and d: "d = min (c + blk - off) (length src)"
  shows "\<exists>s'. flash_write_block_body cmd f r (int c) (job off src False) s =
      Some (if length src = d then job off src True else job (c + blk) (drop d src) False, s') \<and>
    ready s' \<and> mem s' = written blk off (take d src) (mem s)"
proof -
  have d': "d \<le> length src" "off + d \<le> c + blk" using d off by auto
  have dw: "min (int c + int blk - int off) (int (length src)) = int d" using off d by auto
  show ?thesis
    using update_block_total [OF s c off(1) d'(2) off(2) d'(1)] off d'(1) blk dw
    by (auto simp: flash_write_block_body_def Let_def of_nat_diff)
qed

lemma skip_block:
  "c + blk \<le> off \<Longrightarrow> block_size r = int blk \<Longrightarrow> flash_write_block_body cmd f r (int c) (job off src False) s = Some (job off src False, s)"
  by (simp add: flash_write_block_body_def)

text \<open>From block \<open>k\<close> on, with the offset not before it; \<open>n\<close> blocks are left.\<close>

lemma blocks_total:
  assumes "ready s" "block_size r = int blk" "(k + n) * blk = cap" "k * blk \<le> off" "off \<le> cap"
  shows "\<exists>j s'. flash_write_blocks cmd f r n (int (k * blk)) (job off src False) s = Some (j, s') \<and> job_ret j = 0 \<and>
    ready s' \<and> mem s' = written blk off (take (cap - off) src) (mem s)"
  using assms
proof (induction n arbitrary: k off src s)
  case 0
  then show ?case by simp
next
  case (Suc n)
  have cap: "(k + 1 + n) * blk = cap" "k * blk + blk = (k + 1) * blk" using Suc.prems(3) by simp_all
  then have le: "k * blk + blk \<le> cap" by (metis le_add1 mult_le_mono1)
  define e where "e = (k + 1) * blk"
  then have e: "e = (k + 1) * blk" "k * blk + blk = e" "(k + 1 + n) * blk = cap" using cap by simp_all
  have next_c: "int (k * blk) + block_size r = int e" using Suc.prems(2) e(2) by (metis of_nat_add)
  show ?case
  proof (cases "k * blk + blk \<le> off")
    case True
    then show ?thesis
      using Suc.IH [OF Suc.prems(1,2) cap(1), folded e(1), of off src] Suc.prems(5) e(2)
      unfolding flash_write_blocks.simps next_c skip_block [OF True Suc.prems(2)] by simp
  next
    case False
    define d where "d = min (k * blk + blk - off) (length src)"
    obtain s1 where s1: "flash_write_block_body cmd f r (int (k * blk)) (job off src False) s =
        Some (if length src = d then job off src True else job (k * blk + blk) (drop d src) False, s1)"
      "ready s1" "mem s1 = written blk off (take d src) (mem s)"
      using block_body_total [OF Suc.prems(1,2) _ le Suc.prems(4) _ d_def] False by auto
    show ?thesis
    proof (cases "length src = d")
      case True
      then have "length src \<le> cap - off" using d_def le by linarith
      then show ?thesis using s1 True by simp
    next
      case False
      then have d: "off + d = e" "d < length src" using d_def \<open>\<not> k * blk + blk \<le> off\<close> e by auto
      let ?all = "take (cap - off) src"
      obtain j s' where s': "flash_write_blocks cmd f r n (int e) (job e (drop d src) False) s1 = Some (j, s')"
        "job_ret j = 0" "ready s'" "mem s' = written blk e (take (cap - e) (drop d src)) (mem s1)"
        using Suc.IH [OF s1(2) Suc.prems(2) e(3), of e "drop d src"] le e by auto
      have rest: "take (cap - e) (drop d src) = drop d ?all" using d(1) by (simp add: drop_take)
      have this_block: "take d src = take d ?all" "d \<le> length ?all" using d le e(2) by auto
      have "blk dvd off + d" using d(1) e(1) by simp
      then have "written blk off ?all (mem s) = mem s'"
        using written_split [OF this_block(2) _ block_pos, of off "mem s"] s1(3) s'(4) d(1) this_block(1) rest by simp
      then show ?thesis
        using s1(1) s' False unfolding flash_write_blocks.simps next_c e(2) by simp
    qed
  qed
qed

lemma flash_write_total:
  assumes "ready s" "off < cap"
  shows "\<exists>s'. alt_epcs_flash_write cmd f (int off) src s = Some (0, s') \<and> ready s' \<and>
    mem s' = written blk off (take (cap - off) src) (mem s)"
proof -
  let ?r = "region_info f ! 0"
  have g: "take (nat (number_of_regions f)) (region_info f) = [?r]" "region_offset ?r = 0" "region_size ?r = int cap"
    "nat (number_of_blocks ?r) = cap div blk" "block_size ?r = int blk"
    using geometry by (cases "region_info f"; auto simp: geometry_def)+
  obtain j s' where js: "flash_write_blocks cmd f ?r (cap div blk) (int (0 * blk)) (job off src False) s = Some (j, s')"
    "job_ret j = 0" "ready s'" "mem s' = written blk off (take (cap - off) src) (mem s)"
    using blocks_total [OF assms(1) g(5), of 0 "cap div blk" off src] assms(2) block_dvd by auto
  then show ?thesis using g assms(2) by (simp add: alt_epcs_flash_write_def)
qed

lemma flash_write_outside:
  assumes "cap \<le> off"
  shows "alt_epcs_flash_write cmd f (int off) src s = Some (0, s)"
proof -
  let ?r = "region_info f ! 0"
  have g: "take (nat (number_of_regions f)) (region_info f) = [?r]" "region_offset ?r = 0" "region_size ?r = int cap"
    using geometry by (cases "region_info f"; auto simp: geometry_def)+
  then show ?thesis using assms by (simp add: alt_epcs_flash_write_def)
qed

end

end
