(* ===== verification/Flash_Proofs.thy ===== *)
theory Flash_Proofs
  imports Flash_Port
begin

text \<open>
  From the documented commands of the chip (the interface \<open>epcs_chip\<close>: what each command code
  does to the memory, the write enable latch, the write-in-progress bit and the address mode) to
  the interface \<open>serial_flash\<close> of the device: the sequences of \<open>epcs_commands.c\<close> enable every
  write, wait for its end, and enter and leave the 4-byte mode around every command.
\<close>

unbundle bit_operations_syntax

section \<open>Addresses on the wire\<close>

definition address_of :: "u8 list \<Rightarrow> nat" where
  "address_of bs = foldl (\<lambda>a b. a * 256 + unat b) 0 bs"

lemma byte_of_word: "unat (ucast (drop_bit n (of_nat a :: u32)) :: u8) = a mod 2 ^ 32 div 2 ^ n mod 256"
  by (simp add: unsigned_ucast_eq unsigned_drop_bit_eq unat_of_nat take_bit_eq_mod drop_bit_eq_div unat_div_distrib flip: drop_bit_eq_div)

lemma byte_of_word_0: "unat (ucast (of_nat a :: u32) :: u8) = a mod 2 ^ 32 mod 256"
  by (simp add: unsigned_ucast_eq unat_of_nat take_bit_eq_mod)

text \<open>The digits of a number in base 256.\<close>

lemma base_256:
  "a div 65536 * 65536 + a div 256 mod 256 * 256 + a mod 256 = (a :: nat)"
  "a div 16777216 * 16777216 + a div 65536 mod 256 * 65536 + a div 256 mod 256 * 256 + a mod 256 = a"
proof -
  define p q where "p = a div 256" and "q = a div 65536"
  have q: "q = p div 256" "a div 16777216 = q div 256" by (simp_all add: p_def q_def div_mult2_eq [symmetric])
  have *: "p * 256 + a mod 256 = a" "q * 256 + p mod 256 = p" "q div 256 * 256 + q mod 256 = q"
    by (simp_all add: p_def q(1) del: q_def)
  show "a div 65536 * 65536 + a div 256 mod 256 * 256 + a mod 256 = a"
    unfolding p_def [symmetric] q_def [symmetric] using *(1,2) by linarith
  show "a div 16777216 * 16777216 + a div 65536 mod 256 * 65536 + a div 256 mod 256 * 256 + a mod 256 = a"
    unfolding q(2) p_def [symmetric] q_def [symmetric] using * by linarith
qed

lemma with_address_decode:
  assumes "a < (if m \<noteq> 0 then 2 ^ 32 else 2 ^ 24)"
  obtains adr where "with_address c (of_nat a) m = c # adr" "length adr = (if m \<noteq> 0 then 4 else 3)" "address_of adr = a"
proof
  let ?adr = "tl (with_address c (of_nat a) m)"
  show "with_address c (of_nat a) m = c # ?adr" "length ?adr = (if m \<noteq> 0 then 4 else 3)"
    by (simp_all add: with_address_def)
  have "a < 2 ^ 32" using assms by (auto split: if_splits)
  then show "address_of ?adr = a"
    using assms base_256 [of a]
    by (auto simp: with_address_def address_of_def byte_of_word byte_of_word_0 algebra_simps less_mult_imp_div_less)
qed

section \<open>The chip\<close>

locale epcs_chip =
  fixes cmd :: "'s command" and cap blk :: nat and mem :: "'s \<Rightarrow> nat \<Rightarrow> u8"
    and quiet :: "'s \<Rightarrow> bool" and busy :: "'s \<Rightarrow> nat" and wel four :: "'s \<Rightarrow> bool"
  assumes rdsr_law: "quiet s \<Longrightarrow>
      \<exists>r s'. cmd [epcs_rdsr] 1 0 s = Some ([r], s') \<and> quiet s' \<and> mem s' = mem s \<and> four s' = four s \<and>
        (r AND 1 = 0 \<longleftrightarrow> busy s = 0) \<and> (busy s' < busy s \<or> busy s = 0 \<and> busy s' = 0)"
    and wren_law: "quiet s \<Longrightarrow> busy s = 0 \<Longrightarrow>
      \<exists>s'. cmd [epcs_wren] 0 0 s = Some ([], s') \<and> quiet s' \<and> busy s' = 0 \<and> wel s' \<and> mem s' = mem s \<and> four s' = four s"
    and en4b_law: "quiet s \<Longrightarrow> busy s = 0 \<Longrightarrow> wel s \<Longrightarrow>
      \<exists>s'. cmd [epcs_en4b] 0 0 s = Some ([], s') \<and> quiet s' \<and> busy s' = 0 \<and> mem s' = mem s \<and> four s'"
    and dis4b_law: "quiet s \<Longrightarrow> busy s = 0 \<Longrightarrow> wel s \<Longrightarrow>
      \<exists>s'. cmd [epcs_dis4b] 0 0 s = Some ([], s') \<and> quiet s' \<and> busy s' = 0 \<and> mem s' = mem s \<and> \<not> four s'"
    and read_data_law: "quiet s \<Longrightarrow> busy s = 0 \<Longrightarrow> length adr = (if four s then 4 else 3) \<Longrightarrow>
      address_of adr + n \<le> cap \<Longrightarrow>
      \<exists>s'. cmd (epcs_read # adr) n 0 s = Some (map (\<lambda>i. mem s (address_of adr + i)) [0..<n], s') \<and>
        quiet s' \<and> busy s' = 0 \<and> mem s' = mem s \<and> four s' = four s"
    and se_law: "quiet s \<Longrightarrow> busy s = 0 \<Longrightarrow> wel s \<Longrightarrow> length adr = (if four s then 4 else 3) \<Longrightarrow>
      address_of adr < cap \<Longrightarrow>
      \<exists>s'. cmd (epcs_se # adr) 0 0 s = Some ([], s') \<and> quiet s' \<and> four s' = four s \<and>
        mem s' = erased blk (address_of adr) (mem s)"
    and pp_law: "quiet s \<Longrightarrow> busy s = 0 \<Longrightarrow> wel s \<Longrightarrow> length adr = (if four s then 4 else 3) \<Longrightarrow>
      address_of adr < cap \<Longrightarrow> bs \<noteq> [] \<Longrightarrow> address_of adr mod 256 + length bs \<le> 256 \<Longrightarrow>
      \<exists>s1 s2. cmd (epcs_pp # adr) 0 COMMAND_MERGE s = Some ([], s1) \<and> cmd bs 0 0 s1 = Some ([], s2) \<and>
        quiet s2 \<and> four s2 = four s \<and> mem s2 = programmed (address_of adr) bs (mem s)"
begin

lemma await_total:
  "quiet s \<Longrightarrow> \<exists>s'. epcs_await_wip_released cmd s = Some s' \<and> quiet s' \<and> busy s' = 0 \<and> mem s' = mem s \<and> four s' = four s"
proof (induction "busy s" arbitrary: s rule: less_induct)
  case less
  obtain r s1 where r: "cmd [epcs_rdsr] 1 0 s = Some ([r], s1)" "quiet s1" "mem s1 = mem s" "four s1 = four s"
    "r AND 1 = 0 \<longleftrightarrow> busy s = 0" "busy s1 < busy s \<or> busy s = 0 \<and> busy s1 = 0"
    using rdsr_law [OF less.prems] by (elim exE conjE) rule
  have step: "epcs_await_wip_released cmd s = (if busy s \<noteq> 0 then epcs_await_wip_released cmd s1 else Some s1)"
    using r(1,5) by (subst epcs_await_wip_released.simps) (simp add: epcs_test_wip_def epcs_read_status_register_def)
  show ?case
  proof (cases "busy s = 0")
    case True
    then show ?thesis using step r by simp
  next
    case False
    then have "busy s1 < busy s" using r(6) by simp
    then show ?thesis using step r less.hyps [of s1] False by auto
  qed
qed

lemma write_enable_total:
  "quiet s \<Longrightarrow> busy s = 0 \<Longrightarrow>
    \<exists>s'. epcs_write_enable cmd s = Some s' \<and> quiet s' \<and> busy s' = 0 \<and> wel s' \<and> mem s' = mem s \<and> four s' = four s"
  using wren_law [of s] by (auto simp: epcs_write_enable_def)

lemma enter_total:
  "quiet s \<Longrightarrow> busy s = 0 \<Longrightarrow> \<exists>s'. epcs_enter_4_bytes_mode cmd s = Some s' \<and> quiet s' \<and> busy s' = 0 \<and> mem s' = mem s \<and> four s'"
  using write_enable_total [of s] en4b_law by (fastforce simp: epcs_enter_4_bytes_mode_def)

lemma exit_total:
  "quiet s \<Longrightarrow> busy s = 0 \<Longrightarrow> \<exists>s'. epcs_exit_4_bytes_mode cmd s = Some s' \<and> quiet s' \<and> busy s' = 0 \<and> mem s' = mem s \<and> \<not> four s'"
  using write_enable_total [of s] dis4b_law by (fastforce simp: epcs_exit_4_bytes_mode_def)

text \<open>Between the calls of the driver the chip is idle and takes 3-byte addresses.\<close>

definition at_rest :: "'s \<Rightarrow> bool" where
  "at_rest s \<longleftrightarrow> quiet s \<and> busy s = 0 \<and> \<not> four s"

text \<open>The brackets around every command, for a device of either address mode.\<close>

lemma open_mode:
  "at_rest s \<Longrightarrow> \<exists>s'. (if m \<noteq> 0 then epcs_enter_4_bytes_mode cmd s else Some s) = Some s' \<and>
    quiet s' \<and> busy s' = 0 \<and> mem s' = mem s \<and> (four s' \<longleftrightarrow> m \<noteq> (0 :: u32))"
  using enter_total [of s] by (auto simp: at_rest_def)

lemma close_mode:
  "quiet s \<Longrightarrow> busy s = 0 \<Longrightarrow> (four s \<longleftrightarrow> m \<noteq> (0 :: u32)) \<Longrightarrow>
    \<exists>s'. (if m \<noteq> 0 then epcs_exit_4_bytes_mode cmd s else Some s) = Some s' \<and> at_rest s' \<and> mem s' = mem s"
  using exit_total [of s] by (auto simp: at_rest_def)

lemma read_buffer_total:
  assumes s: "at_rest s" and a: "a + n \<le> cap" "a < (if m \<noteq> 0 then 2 ^ 32 else 2 ^ 24)"
  shows "\<exists>s'. epcs_read_buffer cmd (of_nat a) n m s = Some (int n, map (\<lambda>i. mem s (a + i)) [0..<n], s') \<and>
    at_rest s' \<and> mem s' = mem s"
proof -
  obtain adr where adr: "with_address epcs_read (of_nat a) m = epcs_read # adr"
    "length adr = (if m \<noteq> 0 then 4 else 3)" "address_of adr = a" using with_address_decode [OF a(2)] .
  obtain s1 where s1: "(if m \<noteq> 0 then epcs_enter_4_bytes_mode cmd s else Some s) = Some s1"
    "quiet s1" "busy s1 = 0" "mem s1 = mem s" "four s1 \<longleftrightarrow> m \<noteq> 0" using open_mode [OF s] by blast
  obtain s2 where s2: "epcs_await_wip_released cmd s1 = Some s2" "quiet s2" "busy s2 = 0" "mem s2 = mem s1" "four s2 = four s1"
    using await_total [OF s1(2)] by blast
  obtain s3 where s3: "cmd (epcs_read # adr) n 0 s2 = Some (map (\<lambda>i. mem s2 (a + i)) [0..<n], s3)"
    "quiet s3" "busy s3 = 0" "mem s3 = mem s2" "four s3 = four s2"
    using read_data_law [OF s2(2,3), of adr n] adr(2,3) a(1) s1(5) s2(5) by auto
  obtain s4 where s4: "(if m \<noteq> 0 then epcs_exit_4_bytes_mode cmd s3 else Some s3) = Some s4" "at_rest s4" "mem s4 = mem s3"
    using close_mode [OF s3(2,3)] s3(5) s2(5) s1(5) by blast
  show ?thesis using adr(1) s1 s2 s3 s4 by (simp add: epcs_read_buffer_def Let_def)
qed

lemma write_buffer_total:
  assumes s: "at_rest s" and a: "a < cap" "a < (if m \<noteq> 0 then 2 ^ 32 else 2 ^ 24)"
    and bs: "bs \<noteq> []" "a mod 256 + length bs \<le> 256"
  shows "\<exists>s'. epcs_write_buffer cmd (of_nat a) bs m s = Some (int (length bs), s') \<and>
    at_rest s' \<and> mem s' = programmed a bs (mem s)"
proof -
  obtain adr where adr: "with_address epcs_pp (of_nat a) m = epcs_pp # adr"
    "length adr = (if m \<noteq> 0 then 4 else 3)" "address_of adr = a" using with_address_decode [OF a(2)] .
  obtain s1 where s1: "(if m \<noteq> 0 then epcs_enter_4_bytes_mode cmd s else Some s) = Some s1"
    "quiet s1" "busy s1 = 0" "mem s1 = mem s" "four s1 \<longleftrightarrow> m \<noteq> 0" using open_mode [OF s] by blast
  obtain s2 where s2: "epcs_write_enable cmd s1 = Some s2" "quiet s2" "busy s2 = 0" "wel s2" "mem s2 = mem s1" "four s2 = four s1"
    using write_enable_total [OF s1(2,3)] by blast
  obtain s3 s4 where s4: "cmd (epcs_pp # adr) 0 COMMAND_MERGE s2 = Some ([], s3)" "cmd bs 0 0 s3 = Some ([], s4)"
    "quiet s4" "four s4 = four s2" "mem s4 = programmed a bs (mem s2)"
    using pp_law [OF s2(2,3,4), of adr bs] adr(2,3) a(1) bs s1(5) s2(6) by auto
  obtain s5 where s5: "epcs_await_wip_released cmd s4 = Some s5" "quiet s5" "busy s5 = 0" "mem s5 = mem s4" "four s5 = four s4"
    using await_total [OF s4(3)] by blast
  obtain s6 where s6: "(if m \<noteq> 0 then epcs_exit_4_bytes_mode cmd s5 else Some s5) = Some s6" "at_rest s6" "mem s6 = mem s5"
    using close_mode [OF s5(2,3)] s5(5) s4(4) s2(6) s1(5) by blast
  show ?thesis using adr(1) s1 s2 s4 s5 s6 by (simp add: epcs_write_buffer_def Let_def)
qed

lemma sector_erase_total:
  assumes s: "at_rest s" and a: "a < cap" "a < (if m \<noteq> 0 then 2 ^ 32 else 2 ^ 24)"
  shows "\<exists>s'. epcs_sector_erase cmd (of_nat a) m s = Some s' \<and> at_rest s' \<and> mem s' = erased blk a (mem s)"
proof -
  obtain adr where adr: "with_address epcs_se (of_nat a) m = epcs_se # adr"
    "length adr = (if m \<noteq> 0 then 4 else 3)" "address_of adr = a" using with_address_decode [OF a(2)] .
  obtain s1 where s1: "(if m \<noteq> 0 then epcs_enter_4_bytes_mode cmd s else Some s) = Some s1"
    "quiet s1" "busy s1 = 0" "mem s1 = mem s" "four s1 \<longleftrightarrow> m \<noteq> 0" using open_mode [OF s] by blast
  obtain s2 where s2: "epcs_write_enable cmd s1 = Some s2" "quiet s2" "busy s2 = 0" "wel s2" "mem s2 = mem s1" "four s2 = four s1"
    using write_enable_total [OF s1(2,3)] by blast
  obtain s3 where s3: "cmd (epcs_se # adr) 0 0 s2 = Some ([], s3)" "quiet s3" "four s3 = four s2" "mem s3 = erased blk a (mem s2)"
    using se_law [OF s2(2,3,4), of adr] adr(2,3) a(1) s1(5) s2(6) by auto
  obtain s4 where s4: "epcs_await_wip_released cmd s3 = Some s4" "quiet s4" "busy s4 = 0" "mem s4 = mem s3" "four s4 = four s3"
    using await_total [OF s3(2)] by blast
  obtain s5 where s5: "(if m \<noteq> 0 then epcs_exit_4_bytes_mode cmd s4 else Some s4) = Some s5" "at_rest s5" "mem s5 = mem s4"
    using close_mode [OF s4(2,3)] s4(5) s3(3) s2(6) s1(5) by blast
  show ?thesis using adr(1) s1 s2 s3 s4 s5 by (simp add: epcs_sector_erase_def Let_def)
qed

end

text \<open>A device whose geometry is the chip's, with 4-byte addresses where 3 bytes are not enough.\<close>

locale epcs_device = epcs_chip cmd cap blk mem quiet busy wel four
  for cmd :: "'s command" and cap blk :: nat and mem :: "'s \<Rightarrow> nat \<Rightarrow> u8"
    and quiet :: "'s \<Rightarrow> bool" and busy :: "'s \<Rightarrow> nat" and wel four :: "'s \<Rightarrow> bool" +
  fixes f :: flash_dev
  assumes geometry_law: "geometry f cap blk" and mode_law: "four_bytes_mode f = 0 \<Longrightarrow> cap \<le> 2 ^ 24"
    and cap_law: "0 < cap" "cap \<le> 2 ^ 30" and blk_law: "0 < blk" "blk dvd cap"
begin

lemma addressable: "a < cap \<Longrightarrow> a < (if four_bytes_mode f \<noteq> 0 then 2 ^ 32 else 2 ^ 24)"
  using cap_law mode_law by auto

end

sublocale epcs_device \<subseteq> serial_flash cmd f cap blk mem at_rest
proof unfold_locales
  fix s a n assume s: "at_rest s" "a < cap" "a + n \<le> cap"
  show "\<exists>s'. epcs_read_buffer cmd (of_nat a) n (four_bytes_mode f) s = Some (int n, map (\<lambda>i. mem s (a + i)) [0..<n], s') \<and>
      at_rest s' \<and> mem s' = mem s"
    using s by (intro read_buffer_total addressable)
next
  fix s a and bs :: "u8 list" assume "at_rest s" "a < cap" "bs \<noteq> []" "a mod 256 + length bs \<le> 256"
  then show "\<exists>s'. epcs_write_buffer cmd (of_nat a) bs (four_bytes_mode f) s = Some (int (length bs), s') \<and>
      at_rest s' \<and> mem s' = programmed a bs (mem s)"
    by (intro write_buffer_total addressable)
next
  fix s a assume "at_rest s" "a < cap"
  then show "\<exists>s'. epcs_sector_erase cmd (of_nat a) (four_bytes_mode f) s = Some s' \<and> at_rest s' \<and> mem s' = erased blk a (mem s)"
    by (intro sector_erase_total addressable)
qed (use geometry_law cap_law blk_law in auto)

end
