(* ===== verification/Flash_Chip.thy ===== *)
theory Flash_Chip
  imports Flash_Proofs
begin

text \<open>
  A concrete configuration flash that obeys its data sheet (write enable latch, write in progress
  for some status reads, page wrap, sector erase, 4-byte address mode), the interpretation of
  \<open>epcs_chip\<close> and \<open>epcs_device\<close> on it, and the properties of the flash driver.
\<close>

unbundle bit_operations_syntax

section \<open>A chip\<close>

record flash_chip =
  fmem :: "nat \<Rightarrow> u8"
  fwel :: bool
  fbusy :: nat
  ffour :: bool
  fopen :: "u8 list"

text \<open>Byte \<open>i\<close> of a page program goes to the page of the address, wrapping at its end.\<close>

definition program_page :: "nat \<Rightarrow> u8 list \<Rightarrow> (nat \<Rightarrow> u8) \<Rightarrow> nat \<Rightarrow> u8" where
  "program_page a bs m x =
    (let i = (x mod 256 + 256 - a mod 256) mod 256
     in if x div 256 = a div 256 \<and> i < length bs then m x AND bs ! i else m x)"

text \<open>One transaction, from selecting the chip to deselecting it: the bytes sent, then \<open>n\<close> bytes read.\<close>

definition flash_exec :: "nat \<Rightarrow> nat \<Rightarrow> u8 \<Rightarrow> u8 list \<Rightarrow> u8 list \<Rightarrow> nat \<Rightarrow> flash_chip \<Rightarrow> u8 list \<times> flash_chip" where
  "flash_exec blk delay sig ident tx n c =
    (case tx of
       [] \<Rightarrow> (replicate n 0, c)
     | code # args \<Rightarrow>
         let alen = (if ffour c then 4 else 3); a = address_of (take alen args)
         in if code = epcs_rdsr then (replicate n (if fbusy c = 0 then 0 else 1), c\<lparr>fbusy := fbusy c - 1\<rparr>)
            else if fbusy c \<noteq> 0 then (replicate n 0, c)
            else if code = epcs_wren then (replicate n 0, c\<lparr>fwel := True\<rparr>)
            else if code = epcs_read then (map (\<lambda>i. fmem c (a + i)) [0..<n], c)
            else if code = epcs_res then (replicate n sig, c)
            else if code = epcs_rdid then (take n (ident @ replicate n 0), c)
            else if \<not> fwel c then (replicate n 0, c)
            else if code = epcs_se then
              (replicate n 0, c\<lparr>fmem := erased blk a (fmem c), fwel := False, fbusy := delay\<rparr>)
            else if code = epcs_pp then
              (replicate n 0, c\<lparr>fmem := program_page a (drop alen args) (fmem c), fwel := False, fbusy := delay\<rparr>)
            else if code = epcs_en4b then (replicate n 0, c\<lparr>ffour := True, fwel := False\<rparr>)
            else if code = epcs_dis4b then (replicate n 0, c\<lparr>ffour := False, fwel := False\<rparr>)
            else (replicate n 0, c))"

definition flash_cmd :: "nat \<Rightarrow> nat \<Rightarrow> u8 \<Rightarrow> u8 list \<Rightarrow> flash_chip command" where
  "flash_cmd blk delay sig ident bs n flags c =
    (if flags AND COMMAND_MERGE \<noteq> 0 then Some (replicate n 0, c\<lparr>fopen := fopen c @ bs\<rparr>)
     else Some (flash_exec blk delay sig ident (fopen c @ bs) n (c\<lparr>fopen := []\<rparr>)))"

definition fquiet :: "flash_chip \<Rightarrow> bool" where "fquiet c \<longleftrightarrow> fopen c = []"

lemma page_index:
  assumes "x mod 256 < 256" "a mod 256 < (256 :: nat)"
  shows "(x mod 256 + 256 - a mod 256) mod 256 =
    (if a mod 256 \<le> x mod 256 then x mod 256 - a mod 256 else x mod 256 + 256 - a mod 256)"
proof (cases "a mod 256 \<le> x mod 256")
  case True
  then have "x mod 256 + 256 - a mod 256 = (x mod 256 - a mod 256) + 256" by simp
  moreover have "x mod 256 - a mod 256 < 256" using assms(1) by linarith
  ultimately show ?thesis using True by (simp only: mod_add_self2 mod_less if_True)
next
  case False
  then have "x mod 256 + 256 - a mod 256 < 256" by linarith
  then show ?thesis using False by (simp only: mod_less if_False)
qed

lemma program_page_inside:
  assumes "a mod 256 + length bs \<le> 256"
  shows "program_page a bs m = programmed a bs m"
proof (rule ext)
  fix x :: nat
  define p q i j where "p = a div 256" and "q = x div 256" and "i = a mod 256" and "j = x mod 256"
  have eqs: "a = p * 256 + i" "x = q * 256 + j" "i < 256" "j < 256" by (simp_all add: p_def q_def i_def j_def)
  have idx: "(j + 256 - i) mod 256 = (if i \<le> j then j - i else j + 256 - i)"
    using page_index [of x a] by (simp add: i_def j_def)
  have len: "i + length bs \<le> 256" using assms by (simp add: i_def)
  have "program_page a bs m x = (if q = p \<and> (if i \<le> j then j - i else j + 256 - i) < length bs
      then m x AND bs ! (if i \<le> j then j - i else j + 256 - i) else m x)"
    unfolding program_page_def Let_def idx [symmetric] by (simp add: p_def q_def i_def j_def)
  moreover have "a \<le> x \<and> x < a + length bs \<longleftrightarrow> q = p \<and> i \<le> j \<and> j - i < length bs"
  proof (intro iffI conjI; elim conjE)
    assume *: "a \<le> x" "x < a + length bs"
    have "q * 256 < p * 256 + 256" using *(2) len unfolding eqs(1,2) by simp
    moreover have "p * 256 < q * 256 + 256" using *(1) eqs(4) unfolding eqs(1,2) by simp
    ultimately have "q < p + 1" "p < q + 1" by simp_all
    then show "q = p" by simp
    then show "i \<le> j" "j - i < length bs" using * eqs by linarith+
  qed (use eqs in simp_all)
  moreover have "q = p \<Longrightarrow> x - a = j - i" using eqs by simp
  ultimately show "program_page a bs m x = programmed a bs m x" using len by (auto simp: programmed_def)
qed

lemma epcs_codes_distinct [simp]:
  "epcs_wren \<noteq> epcs_rdsr" "epcs_read \<noteq> epcs_rdsr" "epcs_se \<noteq> epcs_rdsr" "epcs_pp \<noteq> epcs_rdsr" "epcs_en4b \<noteq> epcs_rdsr"
  "epcs_dis4b \<noteq> epcs_rdsr" "epcs_res \<noteq> epcs_rdsr" "epcs_rdid \<noteq> epcs_rdsr"
  "epcs_read \<noteq> epcs_wren" "epcs_se \<noteq> epcs_wren" "epcs_pp \<noteq> epcs_wren" "epcs_en4b \<noteq> epcs_wren" "epcs_dis4b \<noteq> epcs_wren"
  "epcs_res \<noteq> epcs_wren" "epcs_rdid \<noteq> epcs_wren"
  "epcs_se \<noteq> epcs_read" "epcs_pp \<noteq> epcs_read" "epcs_en4b \<noteq> epcs_read" "epcs_dis4b \<noteq> epcs_read"
  "epcs_res \<noteq> epcs_read" "epcs_rdid \<noteq> epcs_read"
  "epcs_se \<noteq> epcs_res" "epcs_pp \<noteq> epcs_res" "epcs_en4b \<noteq> epcs_res" "epcs_dis4b \<noteq> epcs_res" "epcs_rdid \<noteq> epcs_res"
  "epcs_se \<noteq> epcs_rdid" "epcs_pp \<noteq> epcs_rdid" "epcs_en4b \<noteq> epcs_rdid" "epcs_dis4b \<noteq> epcs_rdid"
  "epcs_pp \<noteq> epcs_se" "epcs_en4b \<noteq> epcs_se" "epcs_dis4b \<noteq> epcs_se" "epcs_en4b \<noteq> epcs_pp" "epcs_dis4b \<noteq> epcs_pp"
  "epcs_dis4b \<noteq> epcs_en4b"
  by (simp_all add: epcs_codes)

lemma merge_bit [simp]: "COMMAND_MERGE AND COMMAND_MERGE \<noteq> 0" "COMMAND_MERGE \<noteq> 0" by (simp_all add: COMMAND_MERGE_def)

lemmas flash_sim = flash_cmd_def flash_exec_def fquiet_def Let_def

interpretation chip: epcs_chip "flash_cmd blk delay sig ident" cap blk fmem fquiet fbusy fwel ffour
  for blk delay sig ident cap
proof unfold_locales
  fix s :: flash_chip assume "fquiet s"
  then show "\<exists>r s'. flash_cmd blk delay sig ident [epcs_rdsr] 1 0 s = Some ([r], s') \<and> fquiet s' \<and> fmem s' = fmem s \<and>
      ffour s' = ffour s \<and> (r AND 1 = 0 \<longleftrightarrow> fbusy s = 0) \<and> (fbusy s' < fbusy s \<or> fbusy s = 0 \<and> fbusy s' = 0)"
    by (cases "fbusy s = 0") (simp_all add: flash_sim)
next
  fix s :: flash_chip and adr bs :: "u8 list"
  assume s: "fquiet s" "fbusy s = 0" "fwel s" and adr: "length adr = (if ffour s then 4 else 3)"
    "address_of adr < cap" and bs: "bs \<noteq> []" "address_of adr mod 256 + length bs \<le> 256"
  show "\<exists>s1 s2. flash_cmd blk delay sig ident (epcs_pp # adr) 0 COMMAND_MERGE s = Some ([], s1) \<and>
      flash_cmd blk delay sig ident bs 0 0 s1 = Some ([], s2) \<and> fquiet s2 \<and> ffour s2 = ffour s \<and>
      fmem s2 = programmed (address_of adr) bs (fmem s)"
    using s adr by (auto simp: flash_sim program_page_inside [OF bs(2)])
qed (auto simp: flash_sim split: if_splits)

section \<open>What the query promises\<close>

lemma up_eq: "(ucast x :: u32) = ucast y \<longleftrightarrow> x = (y :: u8)"
proof -
  have "(ucast (ucast z :: u32) :: u8) = z" for z :: u8 by (rule bit_word_eqI) (auto simp: bit_simps dest: bit_imp_le_length)
  then show ?thesis by metis
qed

lemma sig_codes [simp]:
  "(ucast x :: u32) = 0x16 \<longleftrightarrow> x = (0x16 :: u8)" "(ucast x :: u32) = 0x14 \<longleftrightarrow> x = (0x14 :: u8)"
  "(ucast x :: u32) = 0x13 \<longleftrightarrow> x = (0x13 :: u8)" "(ucast x :: u32) = 0x12 \<longleftrightarrow> x = (0x12 :: u8)"
  "(ucast x :: u32) = 0x10 \<longleftrightarrow> x = (0x10 :: u8)" "(ucast x :: u32) = 0x18 \<longleftrightarrow> x = (0x18 :: u8)"
  "(ucast x :: u32) = 0x19 \<longleftrightarrow> x = (0x19 :: u8)"
  using up_eq [of x "0x16"] up_eq [of x "0x14"] up_eq [of x "0x13"] up_eq [of x "0x12"] up_eq [of x "0x10"] up_eq [of x "0x18"]
    up_eq [of x "0x19"] by simp_all

definition id_word :: "u8 \<Rightarrow> u8 \<Rightarrow> u8 \<Rightarrow> u32" where
  "id_word i0 i1 i2 = push_bit 16 (ucast i0) OR push_bit 8 (ucast i1) OR ucast i2"

lemma id_word_mask: "id_word i0 i1 i2 AND 0xFF = ucast i2" "id_word i0 i1 i2 AND 0xFFFFFF = id_word i0 i1 i2"
proof -
  have m: "(0xFF :: u32) = mask 8" "(0xFFFFFF :: u32) = mask 24" by (simp_all add: mask_eq_exp_minus_1)
  show "id_word i0 i1 i2 AND 0xFF = ucast i2" "id_word i0 i1 i2 AND 0xFFFFFF = id_word i0 i1 i2"
    unfolding m id_word_def by (rule bit_word_eqI; auto simp: bit_simps dest: bit_imp_le_length)+
qed

lemma id_word_parts:
  "ucast (drop_bit 16 (id_word i0 i1 i2)) = i0" "ucast (drop_bit 8 (id_word i0 i1 i2)) = i1" "ucast (id_word i0 i1 i2) = i2"
  unfolding id_word_def by (rule bit_word_eqI; auto simp: bit_simps dest: bit_imp_le_length)+

lemma id_word_eq: "id_word i0 i1 i2 = 0x20BA18 \<longleftrightarrow> i0 = 0x20 \<and> i1 = 0xBA \<and> i2 = 0x18"
proof -
  have "id_word 0x20 0xBA 0x18 = 0x20BA18" by (simp add: id_word_def)
  then show ?thesis using id_word_parts by metis
qed

text \<open>What the other operations rely on, for some capacity and block size.\<close>

definition describes_flash :: "flash_dev \<Rightarrow> bool" where
  "describes_flash f \<longleftrightarrow> (\<exists>cap blk. geometry f cap blk \<and> 0 < cap \<and> cap \<le> 2 ^ 30 \<and> 0 < blk \<and> blk dvd cap \<and>
     (four_bytes_mode f = 0 \<longrightarrow> cap \<le> 2 ^ 24) \<and> unat (size_in_bytes f) = cap)"

text \<open>The last assignments of the query.\<close>

definition query_end :: "flash_dev \<Rightarrow> flash_dev" where
  "query_end f = f\<lparr>size_in_bytes := of_int (region_size (region_info f ! 0)), number_of_regions := 1,
     region_info := (region_info f)[0 := (region_info f ! 0)\<lparr>region_offset := 0\<rparr>], page_size := 256\<rparr>"

lemma query_end_ok:
  assumes "region_info f \<noteq> []" "0 < cap" "cap \<le> 2 ^ 30" "0 < blk" "blk dvd cap"
    and "sz = int cap" "n = int (cap div blk)" "b = int blk" and "m = 0 \<Longrightarrow> cap \<le> 2 ^ 24"
  shows "describes_flash (query_end ((set_region sz n b f)\<lparr>four_bytes_mode := m\<rparr>))"
proof -
  have "unat (of_nat cap :: u32) = cap" using assms(3) by (intro u32_of_nat) simp
  then show ?thesis
    unfolding describes_flash_def using assms
    by (intro exI [of _ cap] exI [of _ blk]) (simp add: query_end_def set_region_def geometry_def)
qed

lemma set_region_mode: "four_bytes_mode f = m \<Longrightarrow> (set_region sz n b f)\<lparr>four_bytes_mode := m\<rparr> = set_region sz n b f"
  by (simp add: set_region_def)


text \<open>A 16 Mbit chip and a 256 Mbit one, as the query describes them, whatever was in the device before.\<close>

definition blank_device :: flash_dev where
  "blank_device = \<lparr>number_of_regions = 0, region_info = [\<lparr>region_offset = 7, region_size = 7, number_of_blocks = 7, block_size = 7\<rparr>],
     size_in_bytes = 0, silicon_id = 0, page_size = 0, four_bytes_mode = 9\<rparr>"

definition epcs16_device :: flash_dev where
  "epcs16_device = \<lparr>number_of_regions = 1,
     region_info = [\<lparr>region_offset = 0, region_size = 2097152, number_of_blocks = 32, block_size = 65536\<rparr>],
     size_in_bytes = 2097152, silicon_id = 0x14, page_size = 256, four_bytes_mode = 0\<rparr>"

definition epcq256_device :: flash_dev where
  "epcq256_device = \<lparr>number_of_regions = 1,
     region_info = [\<lparr>region_offset = 0, region_size = 33554432, number_of_blocks = 512, block_size = 65536\<rparr>],
     size_in_bytes = 33554432, silicon_id = 0x20BA19, page_size = 256, four_bytes_mode = 1\<rparr>"

definition zeroed_chip :: flash_chip where
  "zeroed_chip = \<lparr>fmem = (\<lambda>_. 0), fwel = False, fbusy = 0, ffour = False, fopen = []\<rparr>"

lemma queried:
  "alt_epcs_flash_query (flash_cmd 65536 3 0x14 [0, 0, 0]) blank_device zeroed_chip = Some (0, epcs16_device, zeroed_chip)"
  "alt_epcs_flash_query (flash_cmd 65536 3 0 [0x20, 0xBA, 0x19]) blank_device zeroed_chip = Some (0, epcq256_device, zeroed_chip)"
  by (simp_all add: alt_epcs_flash_query_def epcs_read_electronic_signature_def epcs_read_device_id_def flash_sim
      blank_device_def epcs16_device_def epcq256_device_def zeroed_chip_def set_region_def numeral_3_eq_3)


interpretation epcs16: epcs_device "flash_cmd 65536 delay 0x14 ident" 2097152 65536 fmem fquiet fbusy fwel ffour epcs16_device
  for delay ident
  by unfold_locales (simp_all add: geometry_def epcs16_device_def)

interpretation epcq256: epcs_device "flash_cmd 65536 delay 0 [0x20, 0xBA, 0x19]" 33554432 65536 fmem fquiet fbusy fwel ffour epcq256_device
  for delay
  by unfold_locales (simp_all add: geometry_def epcq256_device_def)

section \<open>Writing\<close>

context epcs_device begin

lemma device_write:
  "quiet s \<Longrightarrow> busy s = 0 \<Longrightarrow> \<not> four s \<Longrightarrow> off < cap \<Longrightarrow>
    \<exists>s'. alt_epcs_flash_write cmd f (int off) src s = Some (0, s') \<and>
      mem s' = written blk off (take (cap - off) src) (mem s) \<and> quiet s' \<and> busy s' = 0 \<and> \<not> four s'"
  using flash_write_total [of s off src] by (auto simp: at_rest_def)

lemma device_outside:
  assumes "cap \<le> off" "off < 2 ^ 31"
  shows "alt_epcs_flash_write cmd f (int off) src s = Some (0, s)"
    and "alt_epcs_flash_read cmd f (int off) n s = Some (- EIO, [], s)"
    and "alt_epcs_flash_erase_block cmd f (int off) s = Some (- EIO, s)"
  using flash_write_outside [OF assms(1)] test_address [OF assms(2)] assms(1)
  by (simp_all add: alt_epcs_flash_read_def alt_epcs_flash_erase_block_def EIO_def)

end

text \<open>
  Writing the flash, whatever chip obeys the interface. On a device that describes its chip, at rest, a write from any offset
  inside it returns 0, whatever the length and alignment of the data: every byte that fits is in
  the memory afterwards, every block of which some byte differed has been erased (what the data
  does not cover there reads 0xFF), every other byte is unchanged, and the chip is at rest again,
  its 3-byte mode restored. The data is split at the block and page boundaries, every program
  and erase is enabled and waited for.
\<close>
theorem flash_write_correct:
  assumes "epcs_device cmd cap blk mem quiet busy wel four f"
    and "quiet s" and "busy s = 0" and "\<not> four s" and "off < cap"
  shows "\<exists>s'. alt_epcs_flash_write cmd f (int off) src s = Some (0, s') \<and>
    mem s' = written blk off (take (cap - off) src) (mem s) \<and> quiet s' \<and> busy s' = 0 \<and> \<not> four s'"
  using assms by (rule epcs_device.device_write)

theorem flash_write_correct_witness:
  "\<exists>s'. alt_epcs_flash_write (flash_cmd 65536 3 0 [0x20, 0xBA, 0x19]) epcq256_device (int 0x10000FF) [1, 2] zeroed_chip = Some (0, s') \<and>
    fmem s' 0x10000FF = 1 \<and> fmem s' 0x1000100 = 2 \<and> fmem s' 0x1000000 = 0xFF \<and> fmem s' 0x2000 = 0"
proof -
  have d: "differs 0x10000FF [1, 2] (fmem zeroed_chip) 0x10000FF" by (simp add: differs_def zeroed_chip_def)
  have w: "written 65536 0x10000FF [1, 2] (fmem zeroed_chip) 0x1000000 = 0xFF"
    using d by (auto simp: written_def intro: exI [of _ "0x10000FF"])
  have n: "written 65536 0x10000FF [1, 2] (fmem zeroed_chip) 0x2000 = 0"
    by (auto simp: written_def differs_def zeroed_chip_def)
  have i: "written 65536 0x10000FF [1, 2] (fmem zeroed_chip) 0x10000FF = 1"
    "written 65536 0x10000FF [1, 2] (fmem zeroed_chip) 0x1000100 = 2" by (simp_all add: written_def)
  show ?thesis
    using flash_write_correct [OF epcq256.epcs_device_axioms, of zeroed_chip "0x10000FF" 3 "[1, 2]"] w n i
    by (auto simp: zeroed_chip_def fquiet_def)
qed

text \<open>
  Past the end. From an offset at or behind the end of the chip, reading and erasing give
  \<open>-EIO\<close>, but a write returns 0, success, without sending a single command to the chip: no
  region contains the offset, so the loops do nothing and \<open>ret_code\<close> keeps its initial value.
\<close>
theorem flash_write_outside_succeeds:
  assumes "epcs_device cmd cap blk mem quiet busy wel four f" and "cap \<le> off" and "off < 2 ^ 31"
  shows "alt_epcs_flash_write cmd f (int off) src s = Some (0, s) \<and>
    alt_epcs_flash_read cmd f (int off) n s = Some (- EIO, [], s) \<and>
    alt_epcs_flash_erase_block cmd f (int off) s = Some (- EIO, s)"
  using epcs_device.device_outside [OF assms] by blast

theorem flash_write_outside_succeeds_witness:
  "alt_epcs_flash_write (flash_cmd 65536 3 0x14 []) epcs16_device (int 2097152) [1, 2, 3] zeroed_chip = Some (0, zeroed_chip)"
  using flash_write_outside_succeeds [OF epcs16.epcs_device_axioms, of 2097152 3 "[]" "[1, 2, 3]" zeroed_chip 0] by simp

end
