(* ===== verification/Jtag_Uart.thy ===== *)
theory Jtag_Uart
  imports Cnc_Prelude
begin

text \<open>
  The JTAG UART driver (\<open>drivers/src/altera_avalon_jtag_uart_read.c\<close>, \<open>_write.c\<close>, \<open>_init.c\<close>,
  \<open>_ioctl.c\<close>), both variants: the small driver, which polls the core and is the one the BSP
  selects (\<open>ALT_USE_SMALL_DRIVERS\<close>), and the fast driver, whose two circular buffers are shared
  with the interrupt routine, in the variant without an operating system (semaphores and event
  flags are empty there). The core is hardware: the parameter \<open>'h jtag_hw\<close>.

  Interrupts are explicit. A schedule lists, for the successive points at which the fast driver
  can be interrupted between two accesses to shared variables, the interrupts that arrive
  there: the UART's own (\<open>Isr\<close>) and the alarm of the host timeout (\<open>Alarm\<close>). Where the schedule
  has ended no interrupt arrives any more. A call has the value \<open>None\<close> where the C code spins
  for ever.
\<close>

unbundle bit_operations_syntax

section \<open>The core\<close>

record 'h jtag_hw =
  jt_data_rd :: "'h \<Rightarrow> u32 \<times> 'h"
  jt_data_wr :: "u32 \<Rightarrow> 'h \<Rightarrow> 'h"
  jt_ctl_rd :: "'h \<Rightarrow> u32 \<times> 'h"
  jt_ctl_wr :: "u32 \<Rightarrow> 'h \<Rightarrow> 'h"

definition DATA_RVALID_MSK :: u32 where "DATA_RVALID_MSK = 0x8000"
definition DATA_DATA_MSK :: u32 where "DATA_DATA_MSK = 0xFF"
definition DATA_RAVAIL_MSK :: u32 where "DATA_RAVAIL_MSK = 0xFFFF0000"
definition DATA_RAVAIL_OFST :: nat where "DATA_RAVAIL_OFST = 16"
definition CONTROL_RE_MSK :: u32 where "CONTROL_RE_MSK = 1"
definition CONTROL_WE_MSK :: u32 where "CONTROL_WE_MSK = 2"
definition CONTROL_RI_MSK :: u32 where "CONTROL_RI_MSK = 0x100"
definition CONTROL_WI_MSK :: u32 where "CONTROL_WI_MSK = 0x200"
definition CONTROL_AC_MSK :: u32 where "CONTROL_AC_MSK = 0x400"
definition CONTROL_WSPACE_MSK :: u32 where "CONTROL_WSPACE_MSK = 0xFFFF0000"
definition CONTROL_WSPACE_OFST :: nat where "CONTROL_WSPACE_OFST = 16"
definition BUF_LEN :: nat where "BUF_LEN = 2048"
definition DEFAULT_TIMEOUT :: u32 where "DEFAULT_TIMEOUT = 10"
definition INT_MAX :: u32 where "INT_MAX = 0x7FFFFFFF"

definition JT_O_NONBLOCK :: u32 where "JT_O_NONBLOCK = 0x4000"
definition JT_EIO :: int where "JT_EIO = 5"
definition JT_EWOULDBLOCK :: int where "JT_EWOULDBLOCK = 11"
definition JT_ENOTTY :: int where "JT_ENOTTY = 25"
definition TIOCSTIMEOUT :: u32 where "TIOCSTIMEOUT = 0x6a01"
definition TIOCGCONNECTED :: u32 where "TIOCGCONNECTED = 0x6a02"

definition data_byte :: "u32 \<Rightarrow> u8" where
  "data_byte data = ucast (data AND DATA_DATA_MSK)"

definition nonblocking :: "u32 \<Rightarrow> bool" where
  "nonblocking flags \<longleftrightarrow> flags AND JT_O_NONBLOCK \<noteq> 0"

section \<open>The small driver\<close>

text \<open>\<open>got\<close> is what has been stored in the buffer.\<close>

partial_function (option) small_read_loop ::
  "'h jtag_hw \<Rightarrow> nat \<Rightarrow> u32 \<Rightarrow> u8 list \<Rightarrow> 'h \<Rightarrow> (u8 list \<times> 'h) option" where
  "small_read_loop hw space flags got h =
    (if length got < space then
       (let (data, h) = jt_data_rd hw h
        in if data AND DATA_RVALID_MSK \<noteq> 0 then small_read_loop hw space flags (got @ [data_byte data]) h
           else if got \<noteq> [] then Some (got, h)
           else if nonblocking flags then Some (got, h)
           else small_read_loop hw space flags got h)
     else Some (got, h))"

declare small_read_loop.simps [code]

definition small_read :: "'h jtag_hw \<Rightarrow> nat \<Rightarrow> u32 \<Rightarrow> 'h \<Rightarrow> (int \<times> u8 list \<times> 'h) option" where
  "small_read hw space flags h =
    do {
      (got, h) \<leftarrow> small_read_loop hw space flags [] h;
      Some (if got \<noteq> [] then int (length got)
            else if nonblocking flags then - JT_EWOULDBLOCK else - JT_EIO, got, h)
    }"

partial_function (option) small_write_loop :: "'h jtag_hw \<Rightarrow> u8 list \<Rightarrow> 'h \<Rightarrow> 'h option" where
  "small_write_loop hw bytes h =
    (case bytes of
       [] \<Rightarrow> Some h
     | b # bs \<Rightarrow>
         (let (control, h) = jt_ctl_rd hw h
          in if control AND CONTROL_WSPACE_MSK \<noteq> 0 then small_write_loop hw bs (jt_data_wr hw (ucast b) h)
             else small_write_loop hw bytes h))"

declare small_write_loop.simps [code]

definition small_write :: "'h jtag_hw \<Rightarrow> u8 list \<Rightarrow> u32 \<Rightarrow> 'h \<Rightarrow> (int \<times> 'h) option" where
  "small_write hw bytes flags h =
    do { h \<leftarrow> small_write_loop hw bytes h; Some (int (length bytes), h) }"

section \<open>State of the fast driver\<close>

record jtag_uart =
  jt_timeout :: u32
  irq_enable :: u32
  host_inactive :: u32
  rx_in :: nat
  rx_out :: nat
  tx_in :: nat
  tx_out :: nat
  rx_buf :: "u8 list"
  tx_buf :: "u8 list"

definition jtag_instance :: jtag_uart where
  "jtag_instance = \<lparr>jt_timeout = DEFAULT_TIMEOUT, irq_enable = 0, host_inactive = 0, rx_in = 0, rx_out = 0,
     tx_in = 0, tx_out = 0, rx_buf = replicate BUF_LEN 0, tx_buf = replicate BUF_LEN 0\<rparr>"

text \<open>\<open>isr_register\<close> and \<open>alarm_start\<close> are the calls into the HAL.\<close>

definition jtag_init ::
  "'h jtag_hw \<Rightarrow> ('h \<Rightarrow> 'h) \<Rightarrow> ('h \<Rightarrow> int \<times> 'h) \<Rightarrow> jtag_uart \<Rightarrow> 'h \<Rightarrow> jtag_uart \<times> 'h" where
  "jtag_init hw isr_register alarm_start sp h =
    (let sp = sp\<lparr>irq_enable := CONTROL_RE_MSK\<rparr>;
         h = jt_ctl_wr hw (irq_enable sp) h;
         h = isr_register h;
         sp = sp\<lparr>host_inactive := 0\<rparr>;
         (rc, h) = alarm_start h
     in (if rc < 0 then sp\<lparr>jt_timeout := INT_MAX\<rparr> else sp, h))"

section \<open>The interrupt routine\<close>

text \<open>The receive part: as long as there is space in the buffer and the core delivers a byte.\<close>

partial_function (option) irq_receive_loop ::
  "'h jtag_hw \<Rightarrow> u32 \<Rightarrow> jtag_uart \<Rightarrow> 'h \<Rightarrow> (u32 \<times> jtag_uart \<times> 'h) option" where
  "irq_receive_loop hw data sp h =
    (if (rx_in sp + 1) mod BUF_LEN = rx_out sp then Some (data, sp, h)
     else (let (data, h) = jt_data_rd hw h
           in if data AND DATA_RVALID_MSK = 0 then Some (data, sp, h)
              else irq_receive_loop hw data
                     (sp\<lparr>rx_buf := (rx_buf sp)[rx_in sp := data_byte data], rx_in := (rx_in sp + 1) mod BUF_LEN\<rparr>) h))"

declare irq_receive_loop.simps [code]

definition irq_receive :: "'h jtag_hw \<Rightarrow> jtag_uart \<Rightarrow> 'h \<Rightarrow> (jtag_uart \<times> 'h) option" where
  "irq_receive hw sp h =
    do {
      (data, sp, h) \<leftarrow> irq_receive_loop hw (push_bit DATA_RAVAIL_OFST 1) sp h;
      Some (if data AND DATA_RAVAIL_MSK \<noteq> 0
            then (let sp = sp\<lparr>irq_enable := irq_enable sp AND NOT CONTROL_RE_MSK\<rparr>;
                      h = jt_ctl_wr hw (irq_enable sp) h
                  in (sp, snd (jt_ctl_rd hw h)))
            else (sp, h))
    }"

text \<open>The transmit part: \<open>space\<close> is what the control register reported.\<close>

fun irq_transmit_loop :: "'h jtag_hw \<Rightarrow> nat \<Rightarrow> jtag_uart \<Rightarrow> 'h \<Rightarrow> nat \<times> jtag_uart \<times> 'h" where
  "irq_transmit_loop hw 0 sp h = (0, sp, h)"
| "irq_transmit_loop hw (Suc space) sp h =
     (if tx_out sp \<noteq> tx_in sp
      then irq_transmit_loop hw space (sp\<lparr>tx_out := (tx_out sp + 1) mod BUF_LEN\<rparr>)
             (jt_data_wr hw (ucast (tx_buf sp ! tx_out sp)) h)
      else (Suc space, sp, h))"

definition irq_transmit :: "'h jtag_hw \<Rightarrow> u32 \<Rightarrow> jtag_uart \<Rightarrow> 'h \<Rightarrow> jtag_uart \<times> 'h" where
  "irq_transmit hw control sp h =
    (let space = unat (drop_bit CONTROL_WSPACE_OFST (control AND CONTROL_WSPACE_MSK));
         (space, sp, h) = irq_transmit_loop hw space sp h
     in if space > 0
        then (let sp = sp\<lparr>irq_enable := irq_enable sp AND NOT CONTROL_WE_MSK\<rparr>;
                  h = jt_ctl_wr hw (irq_enable sp) h
              in (sp, snd (jt_ctl_rd hw h)))
        else (sp, h))"

partial_function (option) jtag_irq :: "'h jtag_hw \<Rightarrow> jtag_uart \<Rightarrow> 'h \<Rightarrow> (jtag_uart \<times> 'h) option" where
  "jtag_irq hw sp h =
    (let (control, h) = jt_ctl_rd hw h
     in if control AND (CONTROL_RI_MSK OR CONTROL_WI_MSK) = 0 then Some (sp, h)
        else Option.bind (if control AND CONTROL_RI_MSK \<noteq> 0 then irq_receive hw sp h else Some (sp, h)) (\<lambda>(sp, h).
          let (sp, h) = (if control AND CONTROL_WI_MSK \<noteq> 0 then irq_transmit hw control sp h else (sp, h))
          in jtag_irq hw sp h))"

declare jtag_irq.simps [code]

text \<open>The alarm of the host timeout; the result is the number of ticks until the next one.\<close>

definition jtag_timeout :: "'h jtag_hw \<Rightarrow> u32 \<Rightarrow> jtag_uart \<Rightarrow> 'h \<Rightarrow> u32 \<times> jtag_uart \<times> 'h" where
  "jtag_timeout hw ticks_per_second sp h =
    (let (control, h) = jt_ctl_rd hw h
     in if control AND CONTROL_AC_MSK \<noteq> 0
        then (ticks_per_second, sp\<lparr>host_inactive := 0\<rparr>, jt_ctl_wr hw (irq_enable sp OR CONTROL_AC_MSK) h)
        else if host_inactive sp < INT_MAX - 2
        then (ticks_per_second, sp\<lparr>host_inactive := host_inactive sp + 1\<rparr>, h)
        else (ticks_per_second, sp, h))"

section \<open>Interrupts at a point of the code\<close>

datatype jtag_event = Isr | Alarm

type_synonym schedule = "jtag_event list list"

fun interrupts :: "'h jtag_hw \<Rightarrow> jtag_event list \<Rightarrow> jtag_uart \<Rightarrow> 'h \<Rightarrow> (jtag_uart \<times> 'h) option" where
  "interrupts hw [] sp h = Some (sp, h)"
| "interrupts hw (Isr # es) sp h = do { (sp, h) \<leftarrow> jtag_irq hw sp h; interrupts hw es sp h }"
| "interrupts hw (Alarm # es) sp h = (case jtag_timeout hw 0 sp h of (_, sp, h) \<Rightarrow> interrupts hw es sp h)"

definition point :: "'h jtag_hw \<Rightarrow> schedule \<Rightarrow> jtag_uart \<Rightarrow> 'h \<Rightarrow> (schedule \<times> jtag_uart \<times> 'h) option" where
  "point hw sched sp h =
    (case sched of
       [] \<Rightarrow> Some ([], sp, h)
     | es # sched \<Rightarrow> do { (sp, h) \<leftarrow> interrupts hw es sp h; Some (sched, sp, h) })"

text \<open>
  A busy wait for a condition on the shared state: it ends when the condition holds, and
  without further interrupts it never does.
\<close>

fun spin_until :: "'h jtag_hw \<Rightarrow> (jtag_uart \<Rightarrow> bool) \<Rightarrow> schedule \<Rightarrow> jtag_uart \<Rightarrow> 'h \<Rightarrow> (schedule \<times> jtag_uart \<times> 'h) option" where
  "spin_until hw P [] sp h = (if P sp then Some ([], sp, h) else None)"
| "spin_until hw P (es # sched) sp h =
     (if P sp then Some (es # sched, sp, h)
      else do { (sp, h) \<leftarrow> interrupts hw es sp h; spin_until hw P sched sp h })"

section \<open>Writing\<close>

text \<open>How much can be copied at once, from the two indices read before.\<close>

definition tx_chunk :: "nat \<Rightarrow> nat \<Rightarrow> nat" where
  "tx_chunk i out =
    (if i < out then out - 1 - i else if out > 0 then BUF_LEN - i else BUF_LEN - 1 - i)"

text \<open>
  The inner loop of the write: it can be interrupted before the indices are read and between
  the reading of the indices and the update of \<open>tx_in\<close>. The last value of \<open>out\<close> is kept.
\<close>

function tx_copy ::
  "'h jtag_hw \<Rightarrow> u8 list \<Rightarrow> nat \<Rightarrow> schedule \<Rightarrow> jtag_uart \<Rightarrow> 'h \<Rightarrow> (u8 list \<times> nat \<times> schedule \<times> jtag_uart \<times> 'h) option" where
  "tx_copy hw bytes out sched sp h =
    (if bytes = [] then Some ([], out, sched, sp, h)
     else Option.bind (point hw sched sp h) (\<lambda>(sched, sp, h).
       let i = tx_in sp; out = tx_out sp; n = tx_chunk i out
       in if n = 0 then Some (bytes, out, sched, sp, h)
          else let n = (if n > length bytes then length bytes else n)
               in Option.bind (point hw sched sp h) (\<lambda>(sched, sp, h).
                    tx_copy hw (drop n bytes) out sched
                      (sp\<lparr>tx_buf := blit (tx_buf sp) i (take n bytes), tx_in := (i + n) mod BUF_LEN\<rparr>) h)))"
  by pat_completeness auto
termination by (relation "measure (\<lambda>(_, bytes, _). length bytes)") (auto simp: Let_def split: if_splits)

declare tx_copy.simps [simp del]

partial_function (option) write_loop ::
  "'h jtag_hw \<Rightarrow> u32 \<Rightarrow> u8 list \<Rightarrow> nat \<Rightarrow> schedule \<Rightarrow> jtag_uart \<Rightarrow> 'h \<Rightarrow> (u8 list \<times> schedule \<times> jtag_uart \<times> 'h) option" where
  "write_loop hw flags bytes out sched sp h =
    Option.bind (tx_copy hw bytes out sched sp h) (\<lambda>(bytes, out, sched, sp, h).
      let sp = sp\<lparr>irq_enable := irq_enable sp OR CONTROL_WE_MSK\<rparr>;
          h = jt_ctl_wr hw (irq_enable sp) h
      in if bytes = [] then Some (bytes, sched, sp, h)
         else if nonblocking flags then Some (bytes, sched, sp, h)
         else Option.bind (spin_until hw (\<lambda>sp. \<not> (out = tx_out sp \<and> host_inactive sp < jt_timeout sp)) sched sp h)
                (\<lambda>(sched, sp, h).
                  if out = tx_out sp then Some (bytes, sched, sp, h)
                  else write_loop hw flags bytes out sched sp h))"

declare write_loop.simps [code]

definition jtag_write ::
  "'h jtag_hw \<Rightarrow> u8 list \<Rightarrow> u32 \<Rightarrow> schedule \<Rightarrow> jtag_uart \<Rightarrow> 'h \<Rightarrow> (int \<times> schedule \<times> jtag_uart \<times> 'h) option" where
  "jtag_write hw bytes flags sched sp h =
    do {
      (rest, sched, sp, h) \<leftarrow> write_loop hw flags bytes 0 sched sp h;
      Some (if length rest \<noteq> length bytes then int (length bytes - length rest)
            else if nonblocking flags then - JT_EWOULDBLOCK else - JT_EIO, sched, sp, h)
    }"

section \<open>Reading\<close>

definition rx_chunk :: "nat \<Rightarrow> nat \<Rightarrow> nat" where
  "rx_chunk i out = (if i \<ge> out then i - out else BUF_LEN - out)"

text \<open>The inner loop of the read; \<open>got\<close> has been stored, the last value of \<open>in\<close> is kept.\<close>

function rx_copy ::
  "'h jtag_hw \<Rightarrow> nat \<Rightarrow> u8 list \<Rightarrow> schedule \<Rightarrow> jtag_uart \<Rightarrow> 'h \<Rightarrow> (nat \<times> u8 list \<times> nat \<times> schedule \<times> jtag_uart \<times> 'h) option" where
  "rx_copy hw space got sched sp h =
    Option.bind (point hw sched sp h) (\<lambda>(sched, sp, h).
      let i = rx_in sp; out = rx_out sp; n = rx_chunk i out
      in if n = 0 then Some (space, got, i, sched, sp, h)
         else let n = (if n > space then space else n)
              in Option.bind (point hw sched sp h) (\<lambda>(sched, sp, h).
                   let got = got @ take n (drop out (rx_buf sp));
                       sp = sp\<lparr>rx_out := (out + n) mod BUF_LEN\<rparr>
                   in if space - n > 0 then rx_copy hw (space - n) got sched sp h
                      else Some (space - n, got, i, sched, sp, h)))"
  by pat_completeness auto
termination by (relation "measure (\<lambda>(_, space, _). space)") (auto simp: Let_def split: if_splits)

declare rx_copy.simps [simp del]

partial_function (option) read_loop ::
  "'h jtag_hw \<Rightarrow> u32 \<Rightarrow> nat \<Rightarrow> schedule \<Rightarrow> jtag_uart \<Rightarrow> 'h \<Rightarrow> (u8 list \<times> schedule \<times> jtag_uart \<times> 'h) option" where
  "read_loop hw flags space sched sp h =
    (if space > 0 then
       Option.bind (rx_copy hw space [] sched sp h) (\<lambda>(space, got, i, sched, sp, h).
         if got \<noteq> [] then Some (got, sched, sp, h)
         else if nonblocking flags then Some (got, sched, sp, h)
         else Option.bind (spin_until hw (\<lambda>sp. \<not> (i = rx_in sp \<and> host_inactive sp < jt_timeout sp)) sched sp h)
                (\<lambda>(sched, sp, h).
                  if i = rx_in sp then Some (got, sched, sp, h)
                  else read_loop hw flags space sched sp h))
     else Some ([], sched, sp, h))"

declare read_loop.simps [code]

definition jtag_read ::
  "'h jtag_hw \<Rightarrow> nat \<Rightarrow> u32 \<Rightarrow> schedule \<Rightarrow> jtag_uart \<Rightarrow> 'h \<Rightarrow> (int \<times> u8 list \<times> schedule \<times> jtag_uart \<times> 'h) option" where
  "jtag_read hw space flags sched sp h =
    do {
      (got, sched, sp, h) \<leftarrow> read_loop hw flags space sched sp h;
      let (sp, h) = (if got \<noteq> []
                     then (let sp = sp\<lparr>irq_enable := irq_enable sp OR CONTROL_RE_MSK\<rparr>
                           in (sp, jt_ctl_wr hw (irq_enable sp) h))
                     else (sp, h));
      Some (if got \<noteq> [] then int (length got)
            else if nonblocking flags then - JT_EWOULDBLOCK else - JT_EIO, got, sched, sp, h)
    }"

section \<open>Control and close\<close>

text \<open>\<open>arg\<close> is the integer the pointer argument points to; it is returned as stored.\<close>

definition jtag_ioctl :: "u32 \<Rightarrow> int \<Rightarrow> jtag_uart \<Rightarrow> int \<times> int \<times> jtag_uart" where
  "jtag_ioctl req arg sp =
    (if req = TIOCSTIMEOUT then
       if jt_timeout sp \<noteq> INT_MAX
       then (0, arg, sp\<lparr>jt_timeout := if arg \<ge> 2 \<and> arg < uint INT_MAX then of_int arg else INT_MAX - 1\<rparr>)
       else (- JT_ENOTTY, arg, sp)
     else if req = TIOCGCONNECTED then
       if jt_timeout sp \<noteq> INT_MAX
       then (0, if host_inactive sp < jt_timeout sp then 1 else 0, sp)
       else (- JT_ENOTTY, arg, sp)
     else (- JT_ENOTTY, arg, sp))"

fun jtag_close :: "'h jtag_hw \<Rightarrow> u32 \<Rightarrow> schedule \<Rightarrow> jtag_uart \<Rightarrow> 'h \<Rightarrow> (int \<times> schedule \<times> jtag_uart \<times> 'h) option" where
  "jtag_close hw flags [] sp h =
     (if tx_out sp \<noteq> tx_in sp \<and> host_inactive sp < jt_timeout sp
      then if nonblocking flags then Some (- JT_EWOULDBLOCK, [], sp, h) else None
      else Some (0, [], sp, h))"
| "jtag_close hw flags (es # sched) sp h =
     (if tx_out sp \<noteq> tx_in sp \<and> host_inactive sp < jt_timeout sp
      then if nonblocking flags then Some (- JT_EWOULDBLOCK, es # sched, sp, h)
           else do { (sp, h) \<leftarrow> interrupts hw es sp h; jtag_close hw flags sched sp h }
      else Some (0, es # sched, sp, h))"

end
