(* ===== verification/Ring_Queue.thy ===== *)
theory Ring_Queue
  imports Cnc_Prelude
begin

text \<open>
  A circular buffer of \<open>N\<close> slots with an index \<open>i\<close> of the next slot to fill and an index \<open>o\<close> of
  the next slot to empty stands for the list of the elements from \<open>o\<close> to \<open>i\<close>. Copying a
  contiguous run of slots in or out is an enqueue or dequeue of that many elements.
\<close>

definition ring_len :: "nat \<Rightarrow> nat \<Rightarrow> nat \<Rightarrow> nat" where
  "ring_len N out i = (if out \<le> i then i - out else i + N - out)"

definition ring_list :: "nat \<Rightarrow> 'a list \<Rightarrow> nat \<Rightarrow> nat \<Rightarrow> 'a list" where
  "ring_list N buf out i = map (\<lambda>k. buf ! ((out + k) mod N)) [0..<ring_len N out i]"

lemma length_ring_list [simp]: "length (ring_list N buf out i) = ring_len N out i"
  by (simp add: ring_list_def)

lemma ring_list_nth: "k < ring_len N out i \<Longrightarrow> ring_list N buf out i ! k = buf ! ((out + k) mod N)"
  by (simp add: ring_list_def)

lemma ring_list_empty [simp]: "ring_list N buf out out = []"
  by (simp add: ring_list_def ring_len_def)

lemma ring_len_less: "out < N \<Longrightarrow> i < N \<Longrightarrow> ring_len N out i < N"
  by (auto simp: ring_len_def)

lemma ring_list_Nil_iff: "out < N \<Longrightarrow> i < N \<Longrightarrow> ring_list N buf out i = [] \<longleftrightarrow> out = i"
  by (auto simp: ring_list_def ring_len_def)

text \<open>The successor of an index, without \<open>mod\<close>.\<close>

lemma wrap_add: "i + n \<le> (N :: nat) \<Longrightarrow> i < N \<Longrightarrow> (i + n) mod N = (if i + n = N then 0 else i + n)"
  by (cases "i + n = N") auto

lemma slot: "out < (N :: nat) \<Longrightarrow> k < N \<Longrightarrow> (out + k) mod N = (if out + k < N then out + k else out + k - N)"
  by (cases "out + k < N") (auto simp: le_mod_geq)

lemma ring_len_push:
  assumes "out < N" "i < N" "i + n \<le> N" "ring_len N out i + n < N"
  shows "ring_len N out ((i + n) mod N) = ring_len N out i + n"
  using assms by (auto simp: wrap_add ring_len_def split: if_splits)

lemma ring_push:
  assumes "out < N" "i < N" "length buf = N" "i + length xs \<le> N" "ring_len N out i + length xs < N"
  shows "ring_list N (blit buf i xs) out ((i + length xs) mod N) = ring_list N buf out i @ xs"
proof (rule nth_equalityI)
  note len = ring_len_push [OF assms(1,2,4,5)]
  then show "length (ring_list N (blit buf i xs) out ((i + length xs) mod N)) = length (ring_list N buf out i @ xs)" by simp
  fix k assume "k < length (ring_list N (blit buf i xs) out ((i + length xs) mod N))"
  then have k: "k < ring_len N out i + length xs" using len by simp
  then have kN: "k < N" using assms(5) by simp
  let ?s = "(out + k) mod N"
  have s: "?s < N" using assms(1) by simp
  have "i \<le> ?s \<and> ?s < i + length xs \<longleftrightarrow> ring_len N out i \<le> k" "ring_len N out i \<le> k \<Longrightarrow> ?s - i = k - ring_len N out i"
    using k kN assms by (auto simp: slot ring_len_def split: if_splits)
  then show "ring_list N (blit buf i xs) out ((i + length xs) mod N) ! k = (ring_list N buf out i @ xs) ! k"
    using k s assms(3,4) by (auto simp: ring_list_nth len nth_blit nth_append)
qed

lemma ring_push_1:
  assumes "out < N" "i < N" "length buf = N" "(i + 1) mod N \<noteq> out"
  shows "ring_list N (buf[i := x]) out ((i + 1) mod N) = ring_list N buf out i @ [x]"
proof -
  have "ring_len N out i + 1 < N" using assms by (auto simp: ring_len_def mod_if split: if_splits)
  moreover have "buf[i := x] = blit buf i [x]" using assms(2,3) by (simp add: blit_def upd_conv_take_nth_drop)
  ultimately show ?thesis using ring_push [of out N i buf "[x]"] assms by simp
qed

lemma ring_pop_run:
  assumes "out < N" "i < N" "length buf = N" "n \<le> ring_len N out i" "out + n \<le> N"
  shows "take n (drop out buf) = take n (ring_list N buf out i)"
    and "ring_list N buf ((out + n) mod N) i = drop n (ring_list N buf out i)"
proof -
  have slots: "(out + k) mod N = out + k" if "k < n" for k using that assms(5) by simp
  show "take n (drop out buf) = take n (ring_list N buf out i)"
    using assms by (intro nth_equalityI) (auto simp: ring_list_nth slots)
  have len: "ring_len N ((out + n) mod N) i = ring_len N out i - n"
    using assms by (auto simp: wrap_add ring_len_def split: if_splits)
  show "ring_list N buf ((out + n) mod N) i = drop n (ring_list N buf out i)"
    using assms(4) by (intro nth_equalityI) (auto simp: len ring_list_nth mod_simps add.assoc)
qed

lemma ring_pop_1:
  assumes "out < N" "i < N" "length buf = N" "out \<noteq> i"
  shows "ring_list N buf out i = buf ! out # ring_list N buf ((out + 1) mod N) i"
proof -
  have n: "1 \<le> ring_len N out i" using assms by (auto simp: ring_len_def)
  then have "ring_list N buf out i = take 1 (ring_list N buf out i) @ drop 1 (ring_list N buf out i)" by simp
  also have "take 1 (ring_list N buf out i) = [buf ! out]"
    using ring_pop_run(1) [OF assms(1-3) n] assms(1,3) by (simp add: take_Suc hd_drop_conv_nth)
  finally show ?thesis using ring_pop_run(2) [OF assms(1-3) n] assms(1) by simp
qed

end
