(* ===== verification/Jtag_Proofs.thy ===== *)
theory Jtag_Proofs
  imports Jtag_Uart Ring_Queue
begin

text \<open>
  The two buffers of the fast driver are queues: between the program and the core no byte is
  lost, repeated or reordered, whatever interrupts arrive at whatever points of the code. The
  interface \<open>jtag_port\<close> says what is relied on of the core.
\<close>

unbundle bit_operations_syntax

section \<open>The core\<close>

text \<open>
  \<open>sent\<close> are the bytes the core has accepted for the host, \<open>received\<close> those it has handed out,
  \<open>wspace\<close> the room in its transmit FIFO. The room only shrinks by writing, and a reading of
  the control register never overstates it.
\<close>

locale jtag_port =
  fixes hw :: "'h jtag_hw" and sent received :: "'h \<Rightarrow> u8 list" and wspace :: "'h \<Rightarrow> nat"
  assumes ctl_rd_law: "jt_ctl_rd hw h = (c, h') \<Longrightarrow>
      sent h' = sent h \<and> received h' = received h \<and> wspace h \<le> wspace h' \<and>
      unat (drop_bit CONTROL_WSPACE_OFST c) \<le> wspace h'"
    and ctl_wr_law: "sent (jt_ctl_wr hw v h) = sent h \<and> received (jt_ctl_wr hw v h) = received h \<and>
      wspace h \<le> wspace (jt_ctl_wr hw v h)"
    and data_wr_law: "0 < wspace h \<Longrightarrow> sent (jt_data_wr hw v h) = sent h @ [ucast v] \<and>
      received (jt_data_wr hw v h) = received h \<and> wspace h \<le> Suc (wspace (jt_data_wr hw v h))"
    and data_rd_law: "jt_data_rd hw h = (d, h') \<Longrightarrow> sent h' = sent h \<and> wspace h \<le> wspace h' \<and>
      received h' = received h @ (if d AND DATA_RVALID_MSK \<noteq> 0 then [data_byte d] else [])"

section \<open>The buffers\<close>

definition uart_ok :: "jtag_uart \<Rightarrow> bool" where
  "uart_ok sp \<longleftrightarrow> rx_in sp < BUF_LEN \<and> rx_out sp < BUF_LEN \<and> tx_in sp < BUF_LEN \<and> tx_out sp < BUF_LEN \<and>
     length (rx_buf sp) = BUF_LEN \<and> length (tx_buf sp) = BUF_LEN"

definition txq :: "jtag_uart \<Rightarrow> u8 list" where
  "txq sp = ring_list BUF_LEN (tx_buf sp) (tx_out sp) (tx_in sp)"

definition rxq :: "jtag_uart \<Rightarrow> u8 list" where
  "rxq sp = ring_list BUF_LEN (rx_buf sp) (rx_out sp) (rx_in sp)"

lemma uart_ok_fields [simp]:
  "uart_ok (sp\<lparr>irq_enable := x\<rparr>) = uart_ok sp" "txq (sp\<lparr>irq_enable := x\<rparr>) = txq sp" "rxq (sp\<lparr>irq_enable := x\<rparr>) = rxq sp"
  "uart_ok (sp\<lparr>host_inactive := x\<rparr>) = uart_ok sp" "txq (sp\<lparr>host_inactive := x\<rparr>) = txq sp" "rxq (sp\<lparr>host_inactive := x\<rparr>) = rxq sp"
  by (simp_all add: uart_ok_def txq_def rxq_def)

lemma BUF_LEN_pos [simp]: "0 < BUF_LEN" by (simp add: BUF_LEN_def)

lemma txq_length: "uart_ok sp \<Longrightarrow> length (txq sp) < BUF_LEN"
  by (simp add: uart_ok_def txq_def ring_len_less)

lemma rxq_length: "uart_ok sp \<Longrightarrow> length (rxq sp) < BUF_LEN"
  by (simp add: uart_ok_def rxq_def ring_len_less)

text \<open>The four elementary steps on the buffers.\<close>

lemma tx_push:
  assumes "uart_ok sp" "tx_in sp + length xs \<le> BUF_LEN" "length (txq sp) + length xs < BUF_LEN"
  defines "sp' \<equiv> sp\<lparr>tx_buf := blit (tx_buf sp) (tx_in sp) xs, tx_in := (tx_in sp + length xs) mod BUF_LEN\<rparr>"
  shows "uart_ok sp'" "txq sp' = txq sp @ xs" "rxq sp' = rxq sp"
  using assms ring_push [of "tx_out sp" BUF_LEN "tx_in sp" "tx_buf sp" xs]
  by (simp_all add: uart_ok_def txq_def rxq_def)

lemma tx_pop:
  assumes "uart_ok sp" "tx_out sp \<noteq> tx_in sp"
  defines "sp' \<equiv> sp\<lparr>tx_out := (tx_out sp + 1) mod BUF_LEN\<rparr>"
  shows "uart_ok sp'" "txq sp = tx_buf sp ! tx_out sp # txq sp'" "rxq sp' = rxq sp"
  using assms ring_pop_1 [of "tx_out sp" BUF_LEN "tx_in sp" "tx_buf sp"]
  by (simp_all add: uart_ok_def txq_def rxq_def)

lemma rx_push:
  fixes b :: u8
  assumes "uart_ok sp" "(rx_in sp + 1) mod BUF_LEN \<noteq> rx_out sp"
  defines "sp' \<equiv> sp\<lparr>rx_buf := (rx_buf sp)[rx_in sp := b], rx_in := (rx_in sp + 1) mod BUF_LEN\<rparr>"
  shows "uart_ok sp'" "rxq sp' = rxq sp @ [b]" "txq sp' = txq sp"
  using assms ring_push_1 [of "rx_out sp" BUF_LEN "rx_in sp" "rx_buf sp" b]
  by (simp_all add: uart_ok_def txq_def rxq_def)

lemma rx_pop:
  assumes "uart_ok sp" "n \<le> length (rxq sp)" "rx_out sp + n \<le> BUF_LEN"
  defines "sp' \<equiv> sp\<lparr>rx_out := (rx_out sp + n) mod BUF_LEN\<rparr>"
  shows "uart_ok sp'" "take n (drop (rx_out sp) (rx_buf sp)) = take n (rxq sp)" "rxq sp' = drop n (rxq sp)" "txq sp' = txq sp"
  using assms ring_pop_run [of "rx_out sp" BUF_LEN "rx_in sp" "rx_buf sp" n]
  by (simp_all add: uart_ok_def txq_def rxq_def)

text \<open>The amounts that the two loops compute are safe, also from indices that are out of date.\<close>

lemma tx_chunk_safe:
  assumes "i < BUF_LEN" "out < BUF_LEN" "n \<le> tx_chunk i out"
  shows "i + n \<le> BUF_LEN" "ring_len BUF_LEN out i + n < BUF_LEN"
  using assms by (auto simp: tx_chunk_def ring_len_def BUF_LEN_def split: if_splits)

lemma tx_chunk_0: "i < BUF_LEN \<Longrightarrow> out < BUF_LEN \<Longrightarrow> tx_chunk i out = 0 \<longleftrightarrow> ring_len BUF_LEN out i = BUF_LEN - 1"
  by (auto simp: tx_chunk_def ring_len_def BUF_LEN_def split: if_splits)

lemma rx_chunk_safe:
  assumes "i < BUF_LEN" "out < BUF_LEN" "n \<le> rx_chunk i out"
  shows "out + n \<le> BUF_LEN" "n \<le> ring_len BUF_LEN out i"
  using assms by (auto simp: rx_chunk_def ring_len_def BUF_LEN_def split: if_splits)

lemma rx_chunk_0: "i < BUF_LEN \<Longrightarrow> out < BUF_LEN \<Longrightarrow> rx_chunk i out = 0 \<longleftrightarrow> ring_len BUF_LEN out i = 0"
  by (auto simp: rx_chunk_def ring_len_def BUF_LEN_def split: if_splits)

section \<open>What interrupts do\<close>

context jtag_port begin

text \<open>
  Interrupts move bytes from the front of the transmit queue to the core and from the core to
  the end of the receive queue, and leave the program's side of the buffers alone.
\<close>

definition served :: "jtag_uart \<times> 'h \<Rightarrow> jtag_uart \<times> 'h \<Rightarrow> bool" where
  "served = (\<lambda>(sp, h) (sp', h').
     uart_ok sp' \<and> tx_in sp' = tx_in sp \<and> tx_buf sp' = tx_buf sp \<and> rx_out sp' = rx_out sp \<and> jt_timeout sp' = jt_timeout sp \<and>
     (\<exists>out. txq sp = out @ txq sp' \<and> sent h' = sent h @ out) \<and>
     (\<exists>new. rxq sp' = rxq sp @ new \<and> received h' = received h @ new))"

lemma served_refl: "uart_ok sp \<Longrightarrow> served (sp, h) (sp, h)"
  by (simp add: served_def)

lemma served_trans: "served (sp, h) (sp', h') \<Longrightarrow> served (sp', h') (sp'', h'') \<Longrightarrow> served (sp, h) (sp'', h'')"
  by (fastforce simp: served_def)

lemma served_same:
  "uart_ok sp \<Longrightarrow> sent h' = sent h \<Longrightarrow> received h' = received h \<Longrightarrow> served (sp, h) (sp\<lparr>irq_enable := x\<rparr>, h')"
  "uart_ok sp \<Longrightarrow> sent h' = sent h \<Longrightarrow> received h' = received h \<Longrightarrow> served (sp, h) (sp\<lparr>host_inactive := y\<rparr>, h')"
  "uart_ok sp \<Longrightarrow> sent h' = sent h \<Longrightarrow> received h' = received h \<Longrightarrow> served (sp, h) (sp, h')"
  by (simp_all add: served_def)

lemma ctl_rd_same: "jt_ctl_rd hw h = (c, h') \<Longrightarrow> sent h' = sent h \<and> received h' = received h"
  using ctl_rd_law by blast

lemma ctl_wr_rd_same:
  "sent (snd (jt_ctl_rd hw (jt_ctl_wr hw v h))) = sent h" "received (snd (jt_ctl_rd hw (jt_ctl_wr hw v h))) = received h"
  using ctl_rd_law [of "jt_ctl_wr hw v h"] ctl_wr_law [of v h] by (metis prod.collapse)+

lemma irq_receive_loop_served:
  assumes "irq_receive_loop hw d sp h = Some r" "uart_ok sp"
  shows "served (sp, h) (snd r) \<and> wspace h \<le> wspace (snd (snd r))"
proof -
  let ?P = "\<lambda>sp h r. served (sp, h) (snd r) \<and> wspace h \<le> wspace (snd (snd r))"
  have "hw' = hw \<longrightarrow> uart_ok sp \<longrightarrow> ?P sp h r" if "irq_receive_loop hw' d sp h = Some r" for hw' d sp h r
  proof (rule irq_receive_loop.raw_induct [OF _ that, of "\<lambda>hw' d sp h r. hw' = hw \<longrightarrow> uart_ok sp \<longrightarrow> ?P sp h r"],
      intro impI)
    fix f hw' d sp h r
    assume IH: "\<And>hw' d sp h r. f hw' d sp h = Some r \<Longrightarrow> hw' = hw \<longrightarrow> uart_ok sp \<longrightarrow> ?P sp h r"
      and body: "(if (rx_in sp + 1) mod BUF_LEN = rx_out sp then Some (d, sp, h)
        else let (data, h) = jt_data_rd hw' h
             in if data AND DATA_RVALID_MSK = 0 then Some (data, sp, h)
                else f hw' data (sp\<lparr>rx_buf := (rx_buf sp)[rx_in sp := data_byte data], rx_in := (rx_in sp + 1) mod BUF_LEN\<rparr>) h) = Some r"
      and hw: "hw' = hw" and ok: "uart_ok sp"
    obtain data h1 where rd: "jt_data_rd hw h = (data, h1)" by fastforce
    note law = data_rd_law [OF rd]
    let ?sp = "sp\<lparr>rx_buf := (rx_buf sp)[rx_in sp := data_byte data], rx_in := (rx_in sp + 1) mod BUF_LEN\<rparr>"
    consider (full) "(rx_in sp + 1) mod BUF_LEN = rx_out sp" | (none) "(rx_in sp + 1) mod BUF_LEN \<noteq> rx_out sp" "data AND DATA_RVALID_MSK = 0"
      | (byte) "(rx_in sp + 1) mod BUF_LEN \<noteq> rx_out sp" "data AND DATA_RVALID_MSK \<noteq> 0" by blast
    then show "?P sp h r"
    proof cases
      case full
      then show ?thesis using body ok by (auto intro: served_refl)
    next
      case none
      then show ?thesis using body ok hw rd law by (auto intro: served_same)
    next
      case byte
      note push = rx_push [OF ok byte(1), of "data_byte data"]
      have "?P ?sp h1 r" using IH body byte hw rd push(1) by auto
      moreover have "served (sp, h) (?sp, h1)" using push law byte(2) by (simp add: served_def)
      ultimately show ?thesis using law by (metis served_trans prod.collapse le_trans)
    qed
  qed
  then show ?thesis using assms by blast
qed

lemma ctl_wr_rd_wspace: "wspace h \<le> wspace (snd (jt_ctl_rd hw (jt_ctl_wr hw v h)))"
  using ctl_rd_law [of "jt_ctl_wr hw v h"] ctl_wr_law [of v h] by (metis prod.collapse le_trans)

lemma irq_receive_served:
  assumes "irq_receive hw sp h = Some (sp', h')" "uart_ok sp"
  shows "served (sp, h) (sp', h')" "wspace h \<le> wspace h'"
proof -
  obtain d sp1 h1 where loop: "irq_receive_loop hw (push_bit DATA_RAVAIL_OFST 1) sp h = Some (d, sp1, h1)"
    using assms(1) by (auto simp: irq_receive_def bind_eq_Some_conv)
  then have s: "served (sp, h) (sp1, h1)" "wspace h \<le> wspace h1" using irq_receive_loop_served assms(2) by fastforce+
  then have ok: "uart_ok sp1" by (simp add: served_def)
  have "served (sp1, h1) (sp', h')"
    using assms(1) loop ok ctl_wr_rd_same
    by (auto simp: irq_receive_def Let_def split: if_splits intro: served_refl served_same)
  with s(1) show "served (sp, h) (sp', h')" by (rule served_trans)
  have "wspace h1 \<le> wspace h'"
    using assms(1) loop ctl_wr_rd_wspace by (auto simp: irq_receive_def Let_def split: if_splits)
  with s(2) show "wspace h \<le> wspace h'" by simp
qed

lemma irq_transmit_loop_served:
  "irq_transmit_loop hw n sp h = (n', sp', h') \<Longrightarrow> uart_ok sp \<Longrightarrow> n \<le> wspace h \<Longrightarrow> served (sp, h) (sp', h')"
proof (induction n arbitrary: sp h)
  case 0
  then show ?case by (simp add: served_refl)
next
  case (Suc n)
  show ?case
  proof (cases "tx_out sp = tx_in sp")
    case True
    then show ?thesis using Suc.prems by (simp add: served_refl)
  next
    case False
    let ?sp = "sp\<lparr>tx_out := (tx_out sp + 1) mod BUF_LEN\<rparr>" and ?h = "jt_data_wr hw (ucast (tx_buf sp ! tx_out sp)) h"
    note pop = tx_pop [OF Suc.prems(2) False]
    have law: "sent ?h = sent h @ [tx_buf sp ! tx_out sp]" "received ?h = received h" "n \<le> wspace ?h"
      using data_wr_law [of h "ucast (tx_buf sp ! tx_out sp)"] Suc.prems(3) by simp_all
    have "served (sp, h) (?sp, ?h)" using pop law by (simp add: served_def)
    moreover have "served (?sp, ?h) (sp', h')"
      using Suc.IH [of ?sp ?h] Suc.prems(1) False pop(1) law(3) by simp
    ultimately show ?thesis by (rule served_trans)
  qed
qed

lemma irq_transmit_served:
  assumes "irq_transmit hw c sp h = (sp', h')" "uart_ok sp" "unat (drop_bit CONTROL_WSPACE_OFST c) \<le> wspace h"
  shows "served (sp, h) (sp', h')"
proof -
  let ?n = "unat (drop_bit CONTROL_WSPACE_OFST (c AND CONTROL_WSPACE_MSK))"
  have "drop_bit 16 (c AND 0xFFFF0000) = drop_bit 16 c"
  proof -
    have m: "(0xFFFF0000 :: u32) = push_bit 16 (mask 16)" by (simp add: mask_eq_exp_minus_1)
    show ?thesis unfolding m by (rule bit_word_eqI) (auto simp: bit_simps dest: bit_imp_le_length)
  qed
  then have n: "?n \<le> wspace h" using assms(3) by (simp add: CONTROL_WSPACE_OFST_def CONTROL_WSPACE_MSK_def)
  obtain n1 sp1 h1 where loop: "irq_transmit_loop hw ?n sp h = (n1, sp1, h1)" by (metis prod.collapse)
  have s: "served (sp, h) (sp1, h1)" using irq_transmit_loop_served [OF loop assms(2) n] .
  then have ok: "uart_ok sp1" by (simp add: served_def)
  have "served (sp1, h1) (sp', h')"
    using assms(1) loop ok ctl_wr_rd_same
    by (auto simp: irq_transmit_def Let_def split: if_splits intro: served_refl served_same)
  with s show ?thesis by (rule served_trans)
qed

lemma jtag_irq_served:
  assumes "jtag_irq hw sp h = Some r" "uart_ok sp"
  shows "served (sp, h) r"
proof -
  have "hw' = hw \<longrightarrow> uart_ok sp \<longrightarrow> served (sp, h) r" if "jtag_irq hw' sp h = Some r" for hw' sp h r
  proof (rule jtag_irq.raw_induct [OF _ that, of "\<lambda>hw' sp h r. hw' = hw \<longrightarrow> uart_ok sp \<longrightarrow> served (sp, h) r"],
      intro impI)
    fix f hw' sp h r
    assume IH: "\<And>hw' sp h r. f hw' sp h = Some r \<Longrightarrow> hw' = hw \<longrightarrow> uart_ok sp \<longrightarrow> served (sp, h) r"
      and body: "(let (control, h) = jt_ctl_rd hw' h
         in if control AND (CONTROL_RI_MSK OR CONTROL_WI_MSK) = 0 then Some (sp, h)
            else Option.bind (if control AND CONTROL_RI_MSK \<noteq> 0 then irq_receive hw' sp h else Some (sp, h)) (\<lambda>(sp, h).
              let (sp, h) = (if control AND CONTROL_WI_MSK \<noteq> 0 then irq_transmit hw' control sp h else (sp, h))
              in f hw' sp h)) = Some r"
      and hw: "hw' = hw" and ok: "uart_ok sp"
    obtain c h1 where rd: "jt_ctl_rd hw h = (c, h1)" by fastforce
    note law = ctl_rd_law [OF rd]
    have s1: "served (sp, h) (sp, h1)" using law ok by (simp add: served_same)
    show "served (sp, h) r"
    proof (cases "c AND (CONTROL_RI_MSK OR CONTROL_WI_MSK) = 0")
      case True
      then show ?thesis using body hw rd s1 by simp
    next
      case False
      obtain sp2 h2 where s2: "served (sp, h1) (sp2, h2)" "wspace h1 \<le> wspace h2"
        "(if c AND CONTROL_RI_MSK \<noteq> 0 then irq_receive hw sp h1 else Some (sp, h1)) = Some (sp2, h2)"
      proof (cases "c AND CONTROL_RI_MSK = 0")
        case True
        then show thesis using that [of sp h1] ok served_refl by simp
      next
        case nz: False
        then obtain r2 where "irq_receive hw sp h1 = Some r2" using body hw rd False by (cases "irq_receive hw sp h1") auto
        then show thesis using that [of "fst r2" "snd r2"] nz irq_receive_served [of sp h1 "fst r2" "snd r2"] ok by simp
      qed
      then have ok2: "uart_ok sp2" by (simp add: served_def)
      obtain sp3 h3 where t: "(if c AND CONTROL_WI_MSK \<noteq> 0 then irq_transmit hw c sp2 h2 else (sp2, h2)) = (sp3, h3)"
        by fastforce
      then have s3: "served (sp2, h2) (sp3, h3)"
        using irq_transmit_served [of c sp2 h2 sp3 h3] ok2 law s2(2) by (auto split: if_splits intro: served_refl)
      then have ok3: "uart_ok sp3" by (simp add: served_def)
      have "f hw sp3 h3 = Some r" using body rd False unfolding hw by (simp add: s2(3) t)
      then have "served (sp3, h3) r" using IH ok3 by blast
      then show ?thesis using s1 s2(1) s3 by (metis served_trans prod.collapse)
    qed
  qed
  then show ?thesis using assms by blast
qed

lemma jtag_timeout_served:
  "jtag_timeout hw t sp h = (t', sp', h') \<Longrightarrow> uart_ok sp \<Longrightarrow> served (sp, h) (sp', h')"
  using ctl_rd_law [of h] ctl_wr_law
  by (auto simp: jtag_timeout_def split: prod.splits if_splits intro!: served_same)

lemma interrupts_served:
  "interrupts hw es sp h = Some (sp', h') \<Longrightarrow> uart_ok sp \<Longrightarrow> served (sp, h) (sp', h')"
proof (induction es arbitrary: sp h)
  case Nil
  then show ?case by (simp add: served_refl)
next
  case (Cons e es)
  obtain sp1 h1 where e: "served (sp, h) (sp1, h1)" "interrupts hw es sp1 h1 = Some (sp', h')"
    using Cons.prems jtag_irq_served [of sp h] jtag_timeout_served [of 0 sp h]
    by (cases e) (auto simp: bind_eq_Some_conv split: prod.splits)
  then have "uart_ok sp1" by (simp add: served_def)
  then show ?case using e Cons.IH served_trans by blast
qed

lemma point_served: "point hw sched sp h = Some (sched', sp', h') \<Longrightarrow> uart_ok sp \<Longrightarrow> served (sp, h) (sp', h')"
  by (auto simp: point_def bind_eq_Some_conv split: list.splits intro: served_refl interrupts_served)

lemma spin_served:
  "spin_until hw P sched sp h = Some (sched', sp', h') \<Longrightarrow> uart_ok sp \<Longrightarrow> served (sp, h) (sp', h') \<and> P sp'"
proof (induction sched arbitrary: sp h)
  case Nil
  then show ?case by (auto intro: served_refl split: if_splits)
next
  case (Cons es sched)
  show ?case
  proof (cases "P sp")
    case True
    then show ?thesis using Cons.prems by (auto intro: served_refl)
  next
    case False
    then obtain sp1 h1 where e: "interrupts hw es sp h = Some (sp1, h1)" "spin_until hw P sched sp1 h1 = Some (sched', sp', h')"
      using Cons.prems(1) by (auto simp: bind_eq_Some_conv)
    have s1: "served (sp, h) (sp1, h1)" using interrupts_served [OF e(1) Cons.prems(2)] .
    then have "uart_ok sp1" by (simp add: served_def)
    then show ?thesis using Cons.IH [OF e(2)] s1 served_trans by blast
  qed
qed

section \<open>Writing\<close>

definition wrote :: "jtag_uart \<times> 'h \<Rightarrow> u8 list \<Rightarrow> jtag_uart \<times> 'h \<Rightarrow> bool" where
  "wrote = (\<lambda>(sp, h) xs (sp', h').
     uart_ok sp' \<and> sent h' @ txq sp' = sent h @ txq sp @ xs \<and> (\<exists>out. sent h' = sent h @ out) \<and>
     (\<exists>new. rxq sp' = rxq sp @ new \<and> received h' = received h @ new))"

lemma served_wrote: "served (sp, h) (sp', h') \<Longrightarrow> wrote (sp, h) [] (sp', h')"
  by (auto simp: served_def wrote_def)

lemma wrote_trans: "wrote (sp, h) xs (sp', h') \<Longrightarrow> wrote (sp', h') ys (sp'', h'') \<Longrightarrow> wrote (sp, h) (xs @ ys) (sp'', h'')"
  by (fastforce simp: wrote_def)

lemma wrote_irq_enable: "wrote (sp, h) xs (sp', h') \<Longrightarrow> wrote (sp, h) xs (sp'\<lparr>irq_enable := e\<rparr>, jt_ctl_wr hw v h')"
  using ctl_wr_law [of v h'] by (simp add: wrote_def)

text \<open>The copy: the room is computed from the indices, and interrupts can only add to it.\<close>

lemma tx_copy_wrote:
  "tx_copy hw bytes out sched sp h = Some (rest, out', sched', sp', h') \<Longrightarrow> uart_ok sp \<Longrightarrow>
    \<exists>xs. bytes = xs @ rest \<and> wrote (sp, h) xs (sp', h') \<and>
      (rest \<noteq> [] \<longrightarrow> out' = tx_out sp' \<and> length (txq sp') = BUF_LEN - 1)"
proof (induction "length bytes" arbitrary: bytes out sched sp h rule: less_induct)
  case less
  show ?case
  proof (cases "bytes = []")
    case True
    then show ?thesis using less.prems by (simp add: tx_copy.simps served_wrote served_refl)
  next
    case False
    obtain sched1 sp1 h1 where p1: "point hw sched sp h = Some (sched1, sp1, h1)"
      using less.prems(1) False by (subst (asm) tx_copy.simps) (auto simp: bind_eq_Some_conv)
    have s1: "served (sp, h) (sp1, h1)" using point_served [OF p1 less.prems(2)] .
    then have ok1: "uart_ok sp1" by (simp add: served_def)
    let ?n0 = "tx_chunk (tx_in sp1) (tx_out sp1)"
    have idx: "tx_in sp1 < BUF_LEN" "tx_out sp1 < BUF_LEN" using ok1 by (simp_all add: uart_ok_def)
    show ?thesis
    proof (cases "?n0 = 0")
      case True
      then have "rest = bytes" "out' = tx_out sp1" "sp' = sp1" "h' = h1"
        using less.prems(1) False p1 by (subst (asm) tx_copy.simps, simp add: Let_def)+
      then show ?thesis using s1 True tx_chunk_0 [OF idx] by (simp add: served_wrote txq_def)
    next
      case nz: False
      define n where "n = (if ?n0 > length bytes then length bytes else ?n0)"
      have n: "0 < n" "n \<le> ?n0" "n \<le> length bytes" using nz False by (simp_all add: n_def)
      obtain sched2 sp2 h2 where p2: "point hw sched1 sp1 h1 = Some (sched2, sp2, h2)"
        and rec: "tx_copy hw (drop n bytes) (tx_out sp1) sched2
          (sp2\<lparr>tx_buf := blit (tx_buf sp2) (tx_in sp1) (take n bytes), tx_in := (tx_in sp1 + n) mod BUF_LEN\<rparr>) h2 =
            Some (rest, out', sched', sp', h')"
        using less.prems(1) False p1 nz
        by (subst (asm) tx_copy.simps) (auto simp: Let_def n_def bind_eq_Some_conv split: if_splits)
      have s2: "served (sp1, h1) (sp2, h2)" using point_served [OF p2 ok1] .
      then have ok2: "uart_ok sp2" and same: "tx_in sp2 = tx_in sp1" and shrink: "length (txq sp2) \<le> length (txq sp1)"
        by (auto simp: served_def)
      let ?sp3 = "sp2\<lparr>tx_buf := blit (tx_buf sp2) (tx_in sp1) (take n bytes), tx_in := (tx_in sp1 + n) mod BUF_LEN\<rparr>"
      have len: "length (take n bytes) = n" using n by simp
      have room: "tx_in sp2 + n \<le> BUF_LEN" "length (txq sp2) + n < BUF_LEN"
        using tx_chunk_safe [OF idx n(2)] same shrink by (simp_all add: txq_def)
      have push: "uart_ok ?sp3" "txq ?sp3 = txq sp2 @ take n bytes" "rxq ?sp3 = rxq sp2"
        using tx_push [OF ok2, of "take n bytes"] room len same by simp_all
      have "wrote (sp2, h2) (take n bytes) (?sp3, h2)" using push by (simp add: wrote_def)
      then have w: "wrote (sp, h) (take n bytes) (?sp3, h2)"
        using wrote_trans [OF served_wrote [OF served_trans [OF s1 s2]]] by fastforce
      obtain ys where ys: "drop n bytes = ys @ rest" "wrote (?sp3, h2) ys (sp', h')"
        "rest \<noteq> [] \<longrightarrow> out' = tx_out sp' \<and> length (txq sp') = BUF_LEN - 1"
        using less.hyps [OF _ rec push(1)] n False by force
      then have "bytes = (take n bytes @ ys) @ rest" by (metis append_assoc append_take_drop_id)
      then show ?thesis using wrote_trans [OF w ys(2)] ys(3) by blast
    qed
  qed
qed

lemma write_loop_wrote:
  assumes "write_loop hw flags bytes out sched sp h = Some (rest, sched', sp', h')" "uart_ok sp"
  shows "\<exists>xs. bytes = xs @ rest \<and> wrote (sp, h) xs (sp', h') \<and>
    (rest \<noteq> [] \<longrightarrow> nonblocking flags \<or> jt_timeout sp' \<le> host_inactive sp')"
proof -
  let ?Q = "\<lambda>flags bytes sp h (rest, sched', sp', h'). \<exists>xs. bytes = xs @ rest \<and> wrote (sp, h) xs (sp', h') \<and>
    (rest \<noteq> [] \<longrightarrow> nonblocking flags \<or> jt_timeout sp' \<le> host_inactive sp')"
  have "hw' = hw \<longrightarrow> uart_ok sp \<longrightarrow> ?Q flags bytes sp h r"
    if "write_loop hw' flags bytes out sched sp h = Some r" for hw' flags bytes out sched sp h r
  proof (rule write_loop.raw_induct [OF _ that, of "\<lambda>hw' flags bytes out sched sp h r. hw' = hw \<longrightarrow> uart_ok sp \<longrightarrow> ?Q flags bytes sp h r"],
      intro impI)
    fix f hw' flags bytes out sched sp h r
    assume IH: "\<And>hw' flags bytes out sched sp h r. f hw' flags bytes out sched sp h = Some r \<Longrightarrow>
        hw' = hw \<longrightarrow> uart_ok sp \<longrightarrow> ?Q flags bytes sp h r"
      and body: "Option.bind (tx_copy hw' bytes out sched sp h) (\<lambda>(bytes, out, sched, sp, h).
        let sp = sp\<lparr>irq_enable := irq_enable sp OR CONTROL_WE_MSK\<rparr>; h = jt_ctl_wr hw' (irq_enable sp) h
        in if bytes = [] then Some (bytes, sched, sp, h)
           else if nonblocking flags then Some (bytes, sched, sp, h)
           else Option.bind (spin_until hw' (\<lambda>sp. \<not> (out = tx_out sp \<and> host_inactive sp < jt_timeout sp)) sched sp h)
                  (\<lambda>(sched, sp, h). if out = tx_out sp then Some (bytes, sched, sp, h) else f hw' flags bytes out sched sp h)) = Some r"
      and hw: "hw' = hw" and ok: "uart_ok sp"
    obtain rest1 out1 sched1 sp1 h1 where c: "tx_copy hw bytes out sched sp h = Some (rest1, out1, sched1, sp1, h1)"
      using body unfolding hw by (auto simp: bind_eq_Some_conv)
    obtain xs where xs: "bytes = xs @ rest1" "wrote (sp, h) xs (sp1, h1)" using tx_copy_wrote [OF c ok] by blast
    let ?sp = "sp1\<lparr>irq_enable := irq_enable sp1 OR CONTROL_WE_MSK\<rparr>"
    let ?h = "jt_ctl_wr hw (irq_enable ?sp) h1"
    have w: "wrote (sp, h) xs (?sp, ?h)" using xs(2) by (rule wrote_irq_enable)
    then have ok1: "uart_ok ?sp" by (simp add: wrote_def)
    show "?Q flags bytes sp h r"
    proof (cases "rest1 = [] \<or> nonblocking flags")
      case True
      then have "r = (rest1, sched1, ?sp, ?h)" using body c unfolding hw by (auto simp: Let_def split: if_splits)
      then show ?thesis using True xs(1) w by auto
    next
      case False
      then obtain sched2 sp2 h2 where s: "spin_until hw (\<lambda>sp. \<not> (out1 = tx_out sp \<and> host_inactive sp < jt_timeout sp)) sched1 ?sp ?h =
          Some (sched2, sp2, h2)" and rest: "(if out1 = tx_out sp2 then Some (rest1, sched2, sp2, h2) else f hw flags rest1 out1 sched2 sp2 h2) = Some r"
        using body c unfolding hw by (auto simp: Let_def bind_eq_Some_conv)
      note sp = spin_served [OF s ok1]
      have w2: "wrote (sp, h) xs (sp2, h2)" using wrote_trans [OF w served_wrote] sp by fastforce
      then have ok2: "uart_ok sp2" by (simp add: wrote_def)
      show ?thesis
      proof (cases "out1 = tx_out sp2")
        case True
        then show ?thesis using rest sp xs(1) w2 by (auto simp: not_less)
      next
        case False
        then have "?Q flags rest1 sp2 h2 r" using rest IH ok2 by auto
        then show ?thesis using xs(1) wrote_trans [OF w2] by (fastforce split: prod.splits)
      qed
    qed
  qed
  then show ?thesis using assms by fastforce
qed

lemma jtag_write_wrote:
  assumes "jtag_write hw bytes flags sched sp h = Some (rc, sched', sp', h')" "uart_ok sp"
  shows "\<exists>k \<le> length bytes. wrote (sp, h) (take k bytes) (sp', h') \<and>
    rc = (if k > 0 then int k else if nonblocking flags then - JT_EWOULDBLOCK else - JT_EIO) \<and>
    (k < length bytes \<longrightarrow> nonblocking flags \<or> jt_timeout sp' \<le> host_inactive sp')"
proof -
  obtain rest where l: "write_loop hw flags bytes 0 sched sp h = Some (rest, sched', sp', h')"
    and rc: "rc = (if length rest \<noteq> length bytes then int (length bytes - length rest)
            else if nonblocking flags then - JT_EWOULDBLOCK else - JT_EIO)"
    using assms(1) by (auto simp: jtag_write_def bind_eq_Some_conv)
  obtain xs where "bytes = xs @ rest" "wrote (sp, h) xs (sp', h')"
    "rest \<noteq> [] \<longrightarrow> nonblocking flags \<or> jt_timeout sp' \<le> host_inactive sp'"
    using write_loop_wrote [OF l assms(2)] by blast
  then show ?thesis using rc by (intro exI [of _ "length xs"]) auto
qed

lemmas jtag_write_law = jtag_write_wrote [unfolded wrote_def prod.case]

text \<open>Without interrupts and without waiting the call returns, with as much as fits.\<close>

lemma tx_copy_returns: "\<exists>rest out' sp'. tx_copy hw bytes out [] sp h = Some (rest, out', [], sp', h)"
proof (induction "length bytes" arbitrary: bytes out sp rule: less_induct)
  case less
  let ?n = "tx_chunk (tx_in sp) (tx_out sp)"
  show ?case
  proof (cases "bytes = [] \<or> ?n = 0")
    case True
    then show ?thesis by (subst tx_copy.simps) (auto simp: point_def Let_def)
  next
    case False
    let ?m = "if ?n > length bytes then length bytes else ?n"
    have "length (drop ?m bytes) < length bytes" using False by auto
    then show ?thesis using False less.hyps [of "drop ?m bytes"] by (subst tx_copy.simps) (simp add: point_def Let_def)
  qed
qed

lemma jtag_write_nonblocking:
  assumes "uart_ok sp" "nonblocking flags"
  shows "\<exists>sp' h'. jtag_write hw bytes flags [] sp h =
      Some (let k = min (length bytes) (BUF_LEN - 1 - length (txq sp)) in if k > 0 then int k else - JT_EWOULDBLOCK, [], sp', h')"
proof -
  obtain rest out sp1 where c: "tx_copy hw bytes 0 [] sp h = Some (rest, out, [], sp1, h)" using tx_copy_returns by blast
  obtain xs where xs: "bytes = xs @ rest" "wrote (sp, h) xs (sp1, h)" "rest \<noteq> [] \<longrightarrow> length (txq sp1) = BUF_LEN - 1"
    using tx_copy_wrote [OF c assms(1)] by blast
  then have q: "txq sp1 = txq sp @ xs" "length (txq sp1) < BUF_LEN" using txq_length [of sp1] by (auto simp: wrote_def)
  then have "length xs = min (length bytes) (BUF_LEN - 1 - length (txq sp))" using xs(1,3) by (cases "rest = []") auto
  moreover have "\<exists>sp' h'. write_loop hw flags bytes 0 [] sp h = Some (rest, [], sp', h')"
    using assms(2) by (subst write_loop.simps) (simp add: c Let_def)
  ultimately show ?thesis using assms(2) xs(1) by (auto simp: jtag_write_def Let_def)
qed

section \<open>Reading\<close>

definition fetched :: "jtag_uart \<times> 'h \<Rightarrow> u8 list \<Rightarrow> jtag_uart \<times> 'h \<Rightarrow> bool" where
  "fetched = (\<lambda>(sp, h) got (sp', h').
     uart_ok sp' \<and> (\<exists>new. received h' = received h @ new \<and> rxq sp @ new = got @ rxq sp') \<and>
     (\<exists>out. txq sp = out @ txq sp' \<and> sent h' = sent h @ out))"

lemma served_fetched: "served (sp, h) (sp', h') \<Longrightarrow> fetched (sp, h) [] (sp', h')"
  by (auto simp: served_def fetched_def)

lemma fetched_trans:
  assumes "fetched (sp, h) xs (sp', h')" "fetched (sp', h') ys (sp'', h'')"
  shows "fetched (sp, h) (xs @ ys) (sp'', h'')"
proof -
  obtain n1 o1 n2 o2 where "received h' = received h @ n1" "rxq sp @ n1 = xs @ rxq sp'" "txq sp = o1 @ txq sp'" "sent h' = sent h @ o1"
    "received h'' = received h' @ n2" "rxq sp' @ n2 = ys @ rxq sp''" "txq sp' = o2 @ txq sp''" "sent h'' = sent h' @ o2"
    using assms by (auto simp: fetched_def)
  moreover from this have "rxq sp @ n1 @ n2 = (xs @ ys) @ rxq sp''" by (metis append_assoc)
  ultimately show ?thesis using assms(2) by (simp add: fetched_def)
qed

lemma rx_copy_fetched:
  "rx_copy hw space got sched sp h = Some (space', got', i, sched', sp', h') \<Longrightarrow> uart_ok sp \<Longrightarrow> 0 < space \<Longrightarrow>
    \<exists>xs. got' = got @ xs \<and> space' + length xs = space \<and> fetched (sp, h) xs (sp', h') \<and>
      (space' \<noteq> 0 \<longrightarrow> i = rx_in sp' \<and> rxq sp' = [])"
proof (induction space arbitrary: got sched sp h rule: less_induct)
  case (less space)
  obtain sched1 sp1 h1 where p1: "point hw sched sp h = Some (sched1, sp1, h1)"
    using less.prems(1) by (subst (asm) rx_copy.simps) (auto simp: bind_eq_Some_conv)
  have s1: "served (sp, h) (sp1, h1)" using point_served [OF p1 less.prems(2)] .
  then have ok1: "uart_ok sp1" by (simp add: served_def)
  let ?n0 = "rx_chunk (rx_in sp1) (rx_out sp1)"
  have idx: "rx_in sp1 < BUF_LEN" "rx_out sp1 < BUF_LEN" using ok1 by (simp_all add: uart_ok_def)
  show ?case
  proof (cases "?n0 = 0")
    case True
    then have r: "space' = space" "got' = got" "i = rx_in sp1" "sp' = sp1" "h' = h1"
      using less.prems(1) p1 by (subst (asm) rx_copy.simps, simp add: Let_def)+
    have "rxq sp1 = []" using True rx_chunk_0 [OF idx] by (simp add: rxq_def flip: length_0_conv)
    then show ?thesis using r s1 by (simp add: served_fetched)
  next
    case nz: False
    define n where "n = (if ?n0 > space then space else ?n0)"
    have n: "0 < n" "n \<le> ?n0" "n \<le> space" using nz less.prems(3) by (simp_all add: n_def)
    let ?sp3 = "\<lambda>sp2. sp2\<lparr>rx_out := (rx_out sp1 + n) mod BUF_LEN\<rparr>"
    let ?got = "\<lambda>sp2. got @ take n (drop (rx_out sp1) (rx_buf sp2))"
    obtain sched2 sp2 h2 where p2: "point hw sched1 sp1 h1 = Some (sched2, sp2, h2)"
      and rec: "(if space - n > 0 then rx_copy hw (space - n) (?got sp2) sched2 (?sp3 sp2) h2
         else Some (space - n, ?got sp2, rx_in sp1, sched2, ?sp3 sp2, h2)) = Some (space', got', i, sched', sp', h')"
      using less.prems(1) p1 nz
      by (subst (asm) rx_copy.simps) (auto simp: Let_def n_def bind_eq_Some_conv split: if_splits)
    have s2: "served (sp1, h1) (sp2, h2)" using point_served [OF p2 ok1] .
    then have ok2: "uart_ok sp2" and same: "rx_out sp2 = rx_out sp1" and grow: "length (rxq sp1) \<le> length (rxq sp2)"
      by (auto simp: served_def)
    have "n \<le> length (rxq sp1)" using rx_chunk_safe(2) [OF idx n(2)] by (simp add: rxq_def)
    then have m: "n \<le> length (rxq sp2)" using grow by simp
    have fit: "rx_out sp2 + n \<le> BUF_LEN" using rx_chunk_safe(1) [OF idx n(2)] same by simp
    note pop = rx_pop [OF ok2 m fit, unfolded same]
    let ?xs = "take n (rxq sp2)"
    have "fetched (sp2, h2) ?xs (?sp3 sp2, h2)" using pop by (simp add: fetched_def)
    then have f: "fetched (sp, h) ?xs (?sp3 sp2, h2)"
      using fetched_trans [OF served_fetched [OF served_trans [OF s1 s2]]] by fastforce
    show ?thesis
    proof (cases "space - n > 0")
      case False
      then show ?thesis using rec f n pop(2) m by auto
    next
      case True
      have "rx_copy hw (space - n) (got @ ?xs) sched2 (?sp3 sp2) h2 = Some (space', got', i, sched', sp', h')"
        using rec True pop(2) by simp
      then obtain ys where "got' = (got @ ?xs) @ ys" "space' + length ys = space - n" "fetched (?sp3 sp2, h2) ys (sp', h')"
        "space' \<noteq> 0 \<longrightarrow> i = rx_in sp' \<and> rxq sp' = []"
        using less.IH [of "space - n"] n True pop(1) by (metis diff_less less.prems(3))
      then show ?thesis using fetched_trans [OF f, of ys sp' h'] n m by (intro exI [of _ "?xs @ ys"]) auto
    qed
  qed
qed

lemma read_loop_fetched:
  assumes "read_loop hw flags space sched sp h = Some (got, sched', sp', h')" "uart_ok sp"
  shows "fetched (sp, h) got (sp', h') \<and> length got \<le> space \<and>
    (got = [] \<longrightarrow> space = 0 \<or> nonblocking flags \<or> jt_timeout sp' \<le> host_inactive sp')"
proof -
  let ?Q = "\<lambda>flags space sp h (got, sched', sp', h'). fetched (sp, h) got (sp', h') \<and> length got \<le> space \<and>
    (got = [] \<longrightarrow> space = 0 \<or> nonblocking flags \<or> jt_timeout sp' \<le> host_inactive sp')"
  have "hw' = hw \<longrightarrow> uart_ok sp \<longrightarrow> ?Q flags space sp h r"
    if "read_loop hw' flags space sched sp h = Some r" for hw' flags space sched sp h r
  proof (rule read_loop.raw_induct [OF _ that, of "\<lambda>hw' flags space sched sp h r. hw' = hw \<longrightarrow> uart_ok sp \<longrightarrow> ?Q flags space sp h r"],
      intro impI)
    fix f hw' flags space sched sp h r
    assume IH: "\<And>hw' flags space sched sp h r. f hw' flags space sched sp h = Some r \<Longrightarrow>
        hw' = hw \<longrightarrow> uart_ok sp \<longrightarrow> ?Q flags space sp h r"
      and body: "(if space > 0 then
         Option.bind (rx_copy hw' space [] sched sp h) (\<lambda>(space, got, i, sched, sp, h).
           if got \<noteq> [] then Some (got, sched, sp, h)
           else if nonblocking flags then Some (got, sched, sp, h)
           else Option.bind (spin_until hw' (\<lambda>sp. \<not> (i = rx_in sp \<and> host_inactive sp < jt_timeout sp)) sched sp h)
                  (\<lambda>(sched, sp, h). if i = rx_in sp then Some (got, sched, sp, h) else f hw' flags space sched sp h))
         else Some ([], sched, sp, h)) = Some r"
      and hw: "hw' = hw" and ok: "uart_ok sp"
    show "?Q flags space sp h r"
    proof (cases "space = 0")
      case True
      then show ?thesis using body ok by (auto intro!: served_fetched served_refl)
    next
      case pos: False
      obtain space1 got1 i sched1 sp1 h1 where c: "rx_copy hw space [] sched sp h = Some (space1, got1, i, sched1, sp1, h1)"
        using body pos unfolding hw by (auto simp: bind_eq_Some_conv)
      have f1: "fetched (sp, h) got1 (sp1, h1)" "space1 + length got1 = space" using rx_copy_fetched [OF c ok] pos by auto
      then have ok1: "uart_ok sp1" by (simp add: fetched_def)
      show ?thesis
      proof (cases "got1 \<noteq> [] \<or> nonblocking flags")
        case True
        then have "r = (got1, sched1, sp1, h1)" using body c pos unfolding hw by (auto split: if_splits)
        then show ?thesis using True f1 by auto
      next
        case False
        then have e: "got1 = []" "space1 = space" using f1(2) by auto
        obtain sched2 sp2 h2 where s: "spin_until hw (\<lambda>sp. \<not> (i = rx_in sp \<and> host_inactive sp < jt_timeout sp)) sched1 sp1 h1 =
            Some (sched2, sp2, h2)" and rest: "(if i = rx_in sp2 then Some ([], sched2, sp2, h2) else f hw flags space sched2 sp2 h2) = Some r"
          using body c pos False e unfolding hw by (auto simp: bind_eq_Some_conv)
        note sp = spin_served [OF s ok1]
        have f2: "fetched (sp, h) [] (sp2, h2)" using fetched_trans [OF f1(1) served_fetched] sp e(1) by fastforce
        then have ok2: "uart_ok sp2" by (simp add: fetched_def)
        show ?thesis
        proof (cases "i = rx_in sp2")
          case True
          then show ?thesis using rest sp f2 by (auto simp: not_less)
        next
          case False
          then have "?Q flags space sp2 h2 r" using rest IH ok2 by auto
          then show ?thesis using fetched_trans [OF f2] by (fastforce split: prod.splits)
        qed
      qed
    qed
  qed
  then show ?thesis using assms by fastforce
qed

lemma jtag_read_fetched:
  assumes "jtag_read hw space flags sched sp h = Some (rc, got, sched', sp', h')" "uart_ok sp"
  shows "fetched (sp, h) got (sp', h') \<and> length got \<le> space \<and>
    rc = (if got \<noteq> [] then int (length got) else if nonblocking flags then - JT_EWOULDBLOCK else - JT_EIO) \<and>
    (got = [] \<longrightarrow> space = 0 \<or> nonblocking flags \<or> jt_timeout sp' \<le> host_inactive sp')"
proof -
  obtain sp1 h1 where l: "read_loop hw flags space sched sp h = Some (got, sched', sp1, h1)"
    and r: "rc = (if got \<noteq> [] then int (length got) else if nonblocking flags then - JT_EWOULDBLOCK else - JT_EIO)"
    "(sp', h') = (if got \<noteq> [] then (sp1\<lparr>irq_enable := irq_enable sp1 OR CONTROL_RE_MSK\<rparr>, jt_ctl_wr hw (irq_enable sp1 OR CONTROL_RE_MSK) h1) else (sp1, h1))"
    using assms(1) by (auto simp: jtag_read_def bind_eq_Some_conv Let_def split: if_splits prod.splits)
  have "fetched (sp1, h1) [] (sp', h')" if "uart_ok sp1"
    using r(2) that ctl_wr_law by (auto simp: fetched_def split: if_splits)
  moreover note rd = read_loop_fetched [OF l assms(2)]
  ultimately have "fetched (sp, h) got (sp', h')" using fetched_trans [of sp h got sp1 h1 "[]"] by (auto simp: fetched_def)
  then show ?thesis using rd r by (auto split: if_splits)
qed

lemmas jtag_read_law = jtag_read_fetched [unfolded fetched_def prod.case]

lemma rx_copy_returns: "\<exists>space' got' i sp'. rx_copy hw space got [] sp h = Some (space', got', i, [], sp', h)"
proof (induction space arbitrary: got sp rule: less_induct)
  case (less space)
  let ?n = "rx_chunk (rx_in sp) (rx_out sp)"
  let ?m = "if ?n > space then space else ?n"
  show ?case
    using less.IH [of "space - ?m"] by (subst rx_copy.simps) (auto simp: point_def Let_def)
qed

lemma jtag_read_nonblocking:
  assumes "uart_ok sp" "nonblocking flags"
  shows "\<exists>sp' h'. jtag_read hw space flags [] sp h =
      Some (let k = min space (length (rxq sp)) in
        (if k > 0 then int k else - JT_EWOULDBLOCK, take k (rxq sp), [], sp', h'))"
proof (cases "space = 0")
  case True
  then show ?thesis using assms(2) by (simp add: jtag_read_def read_loop.simps [of hw flags] Let_def)
next
  case False
  obtain space1 got1 i sp1 where c: "rx_copy hw space [] [] sp h = Some (space1, got1, i, [], sp1, h)" using rx_copy_returns by blast
  have f: "space1 + length got1 = space" "fetched (sp, h) got1 (sp1, h)" "space1 \<noteq> 0 \<longrightarrow> rxq sp1 = []"
    using rx_copy_fetched [OF c assms(1)] False by auto
  then have "rxq sp = got1 @ rxq sp1" by (auto simp: fetched_def)
  then have "got1 = take (min space (length (rxq sp))) (rxq sp)" "length got1 = min space (length (rxq sp))"
    using f(1,3) by (cases "space1 = 0"; auto)+
  moreover have "read_loop hw flags space [] sp h = Some (got1, [], sp1, h)"
    using assms(2) False by (subst read_loop.simps) (simp add: c)
  ultimately show ?thesis using assms(2) by (auto simp: jtag_read_def Let_def)
qed

end

end
