(* ===== verification/Jtag_Console.thy ===== *)
theory Jtag_Console
  imports Jtag_Proofs Hal_Fd_Proofs
begin

text \<open>
  The JTAG UART as a device of the HAL: the small driver always finishes while a host is
  connected (the interface \<open>jtag_live\<close>), the descriptor wrappers of
  \<open>altera_avalon_jtag_uart_fd.c\<close>, the redirection of the standard streams by \<open>alt_main\<close>, a
  simulated core, and the properties of the driver.
\<close>

unbundle bit_operations_syntax

section \<open>The small driver with a host\<close>

text \<open>
  The host empties the transmit FIFO and sends bytes: a poll that finds no room, or no byte,
  is one of finitely many in a row.
\<close>

locale jtag_live = jtag_port hw sent received wspace
  for hw :: "'h jtag_hw" and sent received :: "'h \<Rightarrow> u8 list" and wspace :: "'h \<Rightarrow> nat" +
  fixes drain arrive :: "'h \<Rightarrow> nat"
  assumes drain_law: "jt_ctl_rd hw h = (c, h') \<Longrightarrow> c AND CONTROL_WSPACE_MSK = 0 \<Longrightarrow> drain h' < drain h"
    and arrive_law: "jt_data_rd hw h = (d, h') \<Longrightarrow> d AND DATA_RVALID_MSK = 0 \<Longrightarrow> arrive h' < arrive h"
begin

lemma wspace_field: "c AND CONTROL_WSPACE_MSK \<noteq> 0 \<Longrightarrow> drop_bit CONTROL_WSPACE_OFST c \<noteq> 0"
proof
  assume nz: "c AND CONTROL_WSPACE_MSK \<noteq> 0" and z: "drop_bit CONTROL_WSPACE_OFST c = 0"
  have m: "CONTROL_WSPACE_MSK = push_bit 16 (mask 16)" by (simp add: CONTROL_WSPACE_MSK_def mask_eq_exp_minus_1)
  have "c AND CONTROL_WSPACE_MSK = push_bit 16 (drop_bit 16 c)"
    unfolding m by (rule bit_word_eqI) (auto simp: bit_simps)
  then show False using nz z by (simp add: CONTROL_WSPACE_OFST_def)
qed

lemma small_write_total:
  "\<exists>h'. small_write_loop hw bytes h = Some h' \<and> sent h' = sent h @ bytes \<and> received h' = received h"
proof (induction bytes arbitrary: h)
  case Nil
  then show ?case by (simp add: small_write_loop.simps)
next
  case (Cons b bs)
  note rest = Cons.IH
  show ?case
  proof (induction "drain h" arbitrary: h rule: less_induct)
    case less
    obtain c h1 where rd: "jt_ctl_rd hw h = (c, h1)" by fastforce
    note law = ctl_rd_law [OF rd]
    show ?case
    proof (cases "c AND CONTROL_WSPACE_MSK = 0")
      case True
      then obtain h' where "small_write_loop hw (b # bs) h1 = Some h'" "sent h' = sent h1 @ b # bs" "received h' = received h1"
        using less.hyps [OF drain_law [OF rd True]] by blast
      then show ?thesis using rd True law by (subst small_write_loop.simps) simp
    next
      case False
      then have "0 < wspace h1" using law wspace_field [OF False] by (metis le_zero_eq neq0_conv unat_eq_0)
      note wr = data_wr_law [OF this, of "ucast b"]
      obtain h' where "small_write_loop hw bs (jt_data_wr hw (ucast b) h1) = Some h'"
        "sent h' = sent (jt_data_wr hw (ucast b) h1) @ bs" "received h' = received (jt_data_wr hw (ucast b) h1)"
        using rest by blast
      then show ?thesis using rd False law wr by (subst small_write_loop.simps) simp
    qed
  qed
qed

lemma small_read_total:
  assumes "length got \<le> space" and "\<not> nonblocking flags"
  shows "\<exists>more h'. small_read_loop hw space flags got h = Some (got @ more, h') \<and> sent h' = sent h \<and>
    received h' = received h @ more \<and> length (got @ more) \<le> space \<and> (0 < space \<longrightarrow> got @ more \<noteq> [])"
  using assms(1)
proof (induction "space - length got" arbitrary: got h rule: less_induct)
  case outer: less
  show ?case using outer.prems
  proof (induction "arrive h" arbitrary: h rule: less_induct)
    case less
    show ?case
    proof (cases "length got < space")
      case False
      then show ?thesis using outer.prems by (subst small_read_loop.simps) auto
    next
      case True
      obtain d h1 where rd: "jt_data_rd hw h = (d, h1)" by fastforce
      note law = data_rd_law [OF rd]
      consider (byte) "d AND DATA_RVALID_MSK \<noteq> 0" | (stop) "d AND DATA_RVALID_MSK = 0" "got \<noteq> []"
        | (wait) "d AND DATA_RVALID_MSK = 0" "got = []" by blast
      then show ?thesis
      proof cases
        case byte
        have "space - length (got @ [data_byte d]) < space - length got" "length (got @ [data_byte d]) \<le> space"
          using True by auto
        then obtain more h' where "small_read_loop hw space flags (got @ [data_byte d]) h1 = Some ((got @ [data_byte d]) @ more, h')"
          "sent h' = sent h1" "received h' = received h1 @ more" "length ((got @ [data_byte d]) @ more) \<le> space"
          using outer.hyps [of "got @ [data_byte d]" h1] by blast
        then show ?thesis
          using rd byte law True by (subst small_read_loop.simps) (auto intro!: exI [of _ "data_byte d # more"])
      next
        case stop
        then show ?thesis using rd law True by (subst small_read_loop.simps) simp
      next
        case wait
        obtain more h' where "small_read_loop hw space flags got h1 = Some (got @ more, h')" "sent h' = sent h1"
          "received h' = received h1 @ more" "length (got @ more) \<le> space" "0 < space \<longrightarrow> got @ more \<noteq> []"
          using less.hyps [OF arrive_law [OF rd wait(1)] less.prems] by blast
        then show ?thesis using rd wait law True assms(2) by (subst small_read_loop.simps) simp
      qed
    qed
  qed
qed

lemma small_write_returns:
  "\<exists>h'. small_write hw bytes flags h = Some (int (length bytes), h') \<and> sent h' = sent h @ bytes \<and> received h' = received h"
  using small_write_total [of bytes h] by (auto simp: small_write_def)

lemma small_read_returns:
  assumes "0 < space" "\<not> nonblocking flags"
  shows "\<exists>got h'. small_read hw space flags h = Some (int (length got), got, h') \<and> got \<noteq> [] \<and> length got \<le> space \<and>
    sent h' = sent h \<and> received h' = received h @ got"
proof -
  obtain got h' where "small_read_loop hw space flags [] h = Some (got, h')" "sent h' = sent h"
    "received h' = received h @ got" "length got \<le> space" "got \<noteq> []"
    using small_read_total [of "[]" space flags h] assms by auto
  then show ?thesis by (simp add: small_read_def)
qed

end

section \<open>The device\<close>

text \<open>The device structure of the small driver, with its two wrappers.\<close>

definition jtag_read_fd :: "'h jtag_hw \<Rightarrow> alt_fd \<Rightarrow> nat \<Rightarrow> 'h \<Rightarrow> ((int \<times> u8 list) \<times> alt_fd \<times> 'h) option" where
  "jtag_read_fd hw fd space h =
    do { (rc, got, h) \<leftarrow> small_read hw space (fd_flags fd) h; Some ((rc, got), fd, h) }"

definition jtag_write_fd :: "'h jtag_hw \<Rightarrow> alt_fd \<Rightarrow> u8 list \<Rightarrow> 'h \<Rightarrow> (int \<times> alt_fd \<times> 'h) option" where
  "jtag_write_fd hw fd bytes h =
    do { (rc, h) \<leftarrow> small_write hw bytes (fd_flags fd) h; Some (rc, fd, h) }"

definition JTAG_UART_NAME :: string where "JTAG_UART_NAME = ''/dev/jtag_uart''"

definition jtag_device :: "'h jtag_hw \<Rightarrow> 'h alt_dev" where
  "jtag_device hw = \<lparr>dev_name = Some JTAG_UART_NAME, dev_open = None, dev_close = None,
     dev_read = Some (jtag_read_fd hw), dev_write = Some (jtag_write_fd hw),
     dev_lseek = None, dev_fstat = None, dev_ioctl = None\<rparr>"

text \<open>
  What \<open>alt_main\<close> does to the descriptors before \<open>main\<close>: \<open>alt_sys_init\<close> registers the UART, and
  the three standard streams are redirected to it.
\<close>

definition stdio_start :: "(ptr \<Rightarrow> 'w alt_dev) \<Rightarrow> ptr \<Rightarrow> 'w \<Rightarrow> 'w hal option" where
  "stdio_start D uart w =
    (case alt_dev_reg D (Some uart) (hal_init w) of (_, h) \<Rightarrow>
       alt_io_redirect D JTAG_UART_NAME JTAG_UART_NAME JTAG_UART_NAME h)"

text \<open>The table with the standard streams \<open>xs\<close> and nothing else open.\<close>

definition free_entry :: alt_fd where "free_entry = \<lparr>fd_dev = None, fd_priv = 0, fd_flags = 0\<rparr>"

definition only_streams :: "(ptr \<Rightarrow> 'w alt_dev) \<Rightarrow> ptr \<Rightarrow> alt_fd list \<Rightarrow> 'w \<Rightarrow> 'w hal \<Rightarrow> bool" where
  "only_streams D uart xs w h \<longleftrightarrow> alt_fd_list h = xs @ replicate 29 free_entry \<and> length xs = 3 \<and>
     (\<forall>fd \<in> set xs. fd_dev fd \<noteq> None \<and> fd_flags fd AND ALT_FD_EXCL = 0) \<and> world h = w \<and>
     -1 \<le> alt_max_fd h \<and> alt_max_fd h < 32 \<and> registered D [uart, alt_dev_null] [] h"

lemma only_streams_table: "only_streams D uart xs w h \<Longrightarrow> table_ok h"
  by (auto simp: only_streams_def table_ok_def ALT_MAX_FD_def nth_append free_entry_def all_set_conv_all_nth)

lemma only_streams_free: "only_streams D uart xs w h \<Longrightarrow> free_fd h = Some 3"
proof -
  assume s: "only_streams D uart xs w h"
  have "[0..<ALT_MAX_FD] = [0, 1, 2, 3] @ [4..<32]" by (simp add: ALT_MAX_FD_def upt_rec)
  then show ?thesis
    using s by (simp add: free_fd_def only_streams_def nth_append free_entry_def)
qed

lemma std_flags: "((x AND NOT ALT_FD_FLAGS_MASK) OR ALT_FD_DEV) AND ALT_FD_EXCL = 0"
proof -
  have "x AND NOT ALT_FD_FLAGS_MASK AND ALT_FD_EXCL = 0"
    unfolding ALT_FD_FLAGS_MASK_def by (rule bit_word_eqI) (auto simp: bit_simps)
  moreover have "ALT_FD_DEV AND ALT_FD_EXCL = 0" by (simp add: ALT_FD_DEV_def ALT_FD_EXCL_def)
  ultimately show ?thesis by (simp add: and.assoc bit.conj_disj_distrib2)
qed

lemma redirect_one:
  assumes s: "only_streams D uart xs w h" and D: "dev_name (D uart) = Some name" "dev_open (D uart) = None"
    and name: "NUL \<notin> set name" and k: "k < 3"
  shows "\<exists>h'. alt_open_fd D k name flags mode h = Some h' \<and>
    only_streams D uart (xs[k := \<lparr>fd_dev = Some uart, fd_priv = 0, fd_flags = (flags AND NOT ALT_FD_FLAGS_MASK) OR ALT_FD_DEV\<rparr>]) w h'"
proof -
  have ok: "table_ok h" and free: "free_fd h = Some 3" and xs: "length xs = 3" "alt_fd_list h = xs @ replicate 29 free_entry"
    and reg: "registered D [uart, alt_dev_null] [] h"
    using only_streams_table [OF s] only_streams_free [OF s] s by (auto simp: only_streams_def)
  have target: "open_target D [uart, alt_dev_null] [] name = Some (uart, False)"
    using D(1) by (simp add: open_target_def)
  let ?h = "h\<lparr>alt_max_fd := max 3 (alt_max_fd h)\<rparr>"
  let ?new = "\<lparr>fd_dev = Some uart, fd_priv = 0, fd_flags = (flags AND NOT ALT_FD_FLAGS_MASK) OR ALT_FD_DEV\<rparr>"
  have "\<not> locked_by_other 3 uart h"
    using s by (auto simp: locked_by_other_def only_streams_def ALT_MAX_FD_def nth_append free_entry_def all_set_conv_all_nth)
  then have "alt_open D name flags mode h = Some (3, set_fd 3 ?new ?h)"
    unfolding alt_open_spec [OF reg ok name] using target free D(2) xs
    by (simp add: open_spec_def new_fd_def nth_append free_entry_def)
  then have "alt_open_fd D k name flags mode h =
      Some (?h\<lparr>alt_fd_list := xs[k := ?new] @ replicate 29 free_entry\<rparr>)"
    using xs k
    by (simp add: alt_open_fd_def alt_release_fd_def set_fd_def nth_append list_update_append free_entry_def numeral_eq_Suc)
  moreover have "fd_flags ?new AND ALT_FD_EXCL = 0" using std_flags by simp
  ultimately show ?thesis using s xs k
    by (auto simp: only_streams_def registered_def dest!: set_update_subset_insert [THEN subsetD])
qed

text \<open>The three standard streams after the start, and what reading and writing through them does.\<close>

definition stream_entry :: "ptr \<Rightarrow> u32 \<Rightarrow> alt_fd" where
  "stream_entry uart flags = \<lparr>fd_dev = Some uart, fd_priv = 0, fd_flags = (flags AND NOT ALT_FD_FLAGS_MASK) OR ALT_FD_DEV\<rparr>"

lemma stdio_start_streams:
  assumes D: "D uart = jtag_device hw" "D alt_dev_null = alt_dev_null_struct" and uart: "uart \<notin> {alt_dev_list, alt_fs_list, alt_dev_null}"
  shows "\<exists>h. stdio_start D uart w = Some h \<and>
    only_streams D uart [stream_entry uart O_RDONLY, stream_entry uart O_WRONLY, stream_entry uart O_WRONLY] w h"
proof -
  let ?null = "\<lparr>fd_dev = Some alt_dev_null, fd_priv = 0, fd_flags = 0\<rparr>"
  let ?h = "(hal_init w)\<lparr>links := alt_llist_insert alt_dev_list uart (links (hal_init w))\<rparr>"
  have dev: "dev_name (D uart) = Some JTAG_UART_NAME" "dev_open (D uart) = None" using D by (simp_all add: jtag_device_def)
  have reg: "alt_dev_reg D (Some uart) (hal_init w) = (0, ?h)"
    using dev by (simp add: alt_dev_reg_def alt_dev_llist_insert_def)
  have nul: "NUL \<notin> set JTAG_UART_NAME" by (simp add: JTAG_UART_NAME_def NUL_def)
  have rings: "ring (links ?h) alt_dev_list [uart, alt_dev_null]" "ring (links ?h) alt_fs_list []"
    using ring_insert [OF init_rings(1) [of w], of uart] ring_insert_other [OF init_rings(2,1) [of w], of uart] uart
    by (auto simp: alt_dev_list_def alt_dev_null_def alt_fs_list_def)
  have "registered D [uart, alt_dev_null] [] ?h"
    using rings dev nul D by (simp add: registered_def alt_dev_null_struct_def NUL_def)
  then have s0: "only_streams D uart [?null, ?null, ?null] w ?h"
    by (simp add: only_streams_def hal_init_def ALT_MAX_FD_def free_entry_def numeral_3_eq_3)
  obtain h1 where h1: "alt_open_fd D 1 JTAG_UART_NAME O_WRONLY 0x1FF ?h = Some h1"
    "only_streams D uart [?null, stream_entry uart O_WRONLY, ?null] w h1"
    using redirect_one [OF s0 dev nul, of 1 O_WRONLY "0x1FF"] by (auto simp: stream_entry_def)
  obtain h2 where h2: "alt_open_fd D 0 JTAG_UART_NAME O_RDONLY 0x1FF h1 = Some h2"
    "only_streams D uart [stream_entry uart O_RDONLY, stream_entry uart O_WRONLY, ?null] w h2"
    using redirect_one [OF h1(2) dev nul, of 0 O_RDONLY "0x1FF"] by (auto simp: stream_entry_def)
  obtain h3 where h3: "alt_open_fd D 2 JTAG_UART_NAME O_WRONLY 0x1FF h2 = Some h3"
    "only_streams D uart [stream_entry uart O_RDONLY, stream_entry uart O_WRONLY, stream_entry uart O_WRONLY] w h3"
    using redirect_one [OF h2(2) dev nul, of 2 O_WRONLY "0x1FF"] by (auto simp: stream_entry_def numeral_2_eq_2)
  show ?thesis using h1(1) h2(1) h3 by (simp add: stdio_start_def reg alt_io_redirect_def)
qed

section \<open>A simulated core\<close>

text \<open>
  A FIFO of 64 bytes towards the host, which is emptied some polls after it has filled up, and
  bytes from the host some polls apart. The interrupt bits follow the enables.
\<close>

record jtag_sim =
  jsent :: "u8 list"
  jreceived :: "u8 list"
  jroom :: nat
  jdrain :: nat
  jarrive :: nat
  jinput :: "nat \<Rightarrow> u8"
  jslow :: nat
  jenable :: u32

definition sim_control :: "jtag_sim \<Rightarrow> u32" where
  "sim_control h = push_bit 16 (of_nat (min 64 (jroom h)))
     OR (if jenable h AND CONTROL_WE_MSK \<noteq> 0 \<and> 0 < jroom h then CONTROL_WI_MSK else 0)
     OR (if jenable h AND CONTROL_RE_MSK \<noteq> 0 \<and> jarrive h = 0 then CONTROL_RI_MSK else 0)"

definition jtag_sim_hw :: "jtag_sim jtag_hw" where
  "jtag_sim_hw = \<lparr>
     jt_data_rd = (\<lambda>h. if jarrive h = 0
       then (DATA_RVALID_MSK OR ucast (jinput h (length (jreceived h))),
             h\<lparr>jreceived := jreceived h @ [jinput h (length (jreceived h))], jarrive := jslow h\<rparr>)
       else (0, h\<lparr>jarrive := jarrive h - 1\<rparr>)),
     jt_data_wr = (\<lambda>v h. if 0 < jroom h then h\<lparr>jsent := jsent h @ [ucast v], jroom := jroom h - 1\<rparr> else h),
     jt_ctl_rd = (\<lambda>h. let h = (if 0 < jroom h then h
         else if jdrain h = 0 then h\<lparr>jroom := 64, jdrain := jslow h\<rparr> else h\<lparr>jdrain := jdrain h - 1\<rparr>) in (sim_control h, h)),
     jt_ctl_wr = (\<lambda>v h. h\<lparr>jenable := v\<rparr>)\<rparr>"

definition jtag_sim_start :: jtag_sim where
  "jtag_sim_start = \<lparr>jsent = [], jreceived = [], jroom = 64, jdrain = 3, jarrive = 2, jinput = of_nat, jslow = 3, jenable = 0\<rparr>"

lemma drop_push_16:
  assumes "x < (2 ^ 16 :: u32)"
  shows "drop_bit 16 (push_bit 16 x) = x" "push_bit 16 x AND CONTROL_WSPACE_MSK = push_bit 16 x"
proof -
  have "take_bit 16 x = x" using assms by (simp add: less_mask_eq take_bit_eq_mask)
  then have small: "bit x n \<Longrightarrow> n < 16" for n by (metis bit_take_bit_iff)
  show "drop_bit 16 (push_bit 16 x) = x" by (rule bit_word_eqI) (auto simp: bit_simps dest: small)
  have "CONTROL_WSPACE_MSK = push_bit 16 (mask 16)" by (simp add: CONTROL_WSPACE_MSK_def mask_eq_exp_minus_1)
  then have m: "CONTROL_WSPACE_MSK = push_bit 16 (mask 16)" .
  show "push_bit 16 x AND CONTROL_WSPACE_MSK = push_bit 16 x"
    unfolding m by (rule bit_word_eqI) (auto simp: bit_simps dest: small)
qed

lemma sim_room: "of_nat (min 64 n) < (2 ^ 16 :: u32)" "unat (of_nat (min 64 n) :: u32) = min 64 n"
  by (simp_all add: word_less_nat_alt unat_of_nat take_bit_eq_mod)

lemma sim_control_space:
  "unat (drop_bit CONTROL_WSPACE_OFST (sim_control h)) = min 64 (jroom h)"
  "sim_control h AND CONTROL_WSPACE_MSK = push_bit 16 (of_nat (min 64 (jroom h)))"
proof -
  have bits: "drop_bit 16 CONTROL_WI_MSK = 0" "drop_bit 16 CONTROL_RI_MSK = 0"
    "CONTROL_WI_MSK AND CONTROL_WSPACE_MSK = 0" "CONTROL_RI_MSK AND CONTROL_WSPACE_MSK = 0"
    by (simp_all add: CONTROL_WI_MSK_def CONTROL_RI_MSK_def CONTROL_WSPACE_MSK_def)
  note push = drop_push_16 [OF sim_room(1), of "jroom h"]
  have "drop_bit 16 (sim_control h) = of_nat (min 64 (jroom h))"
    unfolding sim_control_def drop_bit_or push(1) by (simp add: bits)
  then show "unat (drop_bit CONTROL_WSPACE_OFST (sim_control h)) = min 64 (jroom h)"
    using sim_room(2) by (simp add: CONTROL_WSPACE_OFST_def)
  show "sim_control h AND CONTROL_WSPACE_MSK = push_bit 16 (of_nat (min 64 (jroom h)))"
    unfolding sim_control_def bit.conj_disj_distrib2 push(2) by (simp add: bits)
qed

lemma sim_data_byte: "data_byte (DATA_RVALID_MSK OR ucast (b :: u8)) = b" "(DATA_RVALID_MSK OR ucast b) AND DATA_RVALID_MSK \<noteq> 0"
proof -
  have m: "DATA_DATA_MSK = mask 8" by (simp add: DATA_DATA_MSK_def mask_eq_exp_minus_1)
  have "DATA_RVALID_MSK AND DATA_DATA_MSK = 0" by (simp add: DATA_RVALID_MSK_def DATA_DATA_MSK_def)
  then have "data_byte (DATA_RVALID_MSK OR ucast b) = ucast (ucast b AND DATA_DATA_MSK)"
    by (simp add: data_byte_def bit.conj_disj_distrib2)
  also have "\<dots> = b" unfolding m by (rule bit_word_eqI) (auto simp: bit_simps)
  finally show "data_byte (DATA_RVALID_MSK OR ucast b) = b" .
  have "(DATA_RVALID_MSK OR x) AND DATA_RVALID_MSK = DATA_RVALID_MSK" for x by (rule bit_word_eqI) (auto simp: bit_simps)
  then show "(DATA_RVALID_MSK OR ucast b) AND DATA_RVALID_MSK \<noteq> 0" by (simp add: DATA_RVALID_MSK_def)
qed

lemma jtag_sim_simps [simp]:
  "jt_data_rd jtag_sim_hw h = (if jarrive h = 0
       then (DATA_RVALID_MSK OR ucast (jinput h (length (jreceived h))),
             h\<lparr>jreceived := jreceived h @ [jinput h (length (jreceived h))], jarrive := jslow h\<rparr>)
       else (0, h\<lparr>jarrive := jarrive h - 1\<rparr>))"
  "jt_data_wr jtag_sim_hw v h = (if 0 < jroom h then h\<lparr>jsent := jsent h @ [ucast v], jroom := jroom h - 1\<rparr> else h)"
  "jt_ctl_rd jtag_sim_hw h = (let h = (if 0 < jroom h then h
         else if jdrain h = 0 then h\<lparr>jroom := 64, jdrain := jslow h\<rparr> else h\<lparr>jdrain := jdrain h - 1\<rparr>) in (sim_control h, h))"
  "jt_ctl_wr jtag_sim_hw v h = h\<lparr>jenable := v\<rparr>"
  by (simp_all add: jtag_sim_hw_def)

interpretation jtag_core: jtag_live jtag_sim_hw jsent jreceived jroom jdrain jarrive
proof unfold_locales
  fix h h' c assume "jt_ctl_rd jtag_sim_hw h = (c, h')"
  then show "jsent h' = jsent h \<and> jreceived h' = jreceived h \<and> jroom h \<le> jroom h' \<and>
      unat (drop_bit CONTROL_WSPACE_OFST c) \<le> jroom h'"
    by (auto simp: Let_def sim_control_space split: if_splits)
next
  fix h h' c assume rd: "jt_ctl_rd jtag_sim_hw h = (c, h')" and z: "c AND CONTROL_WSPACE_MSK = 0"
  have "sim_control h' = c" using rd by (auto simp: Let_def split: if_splits)
  then have "push_bit 16 (of_nat (min 64 (jroom h'))) = (0 :: u32)" using z sim_control_space(2) [of h'] by simp
  then have "drop_bit 16 (push_bit 16 (of_nat (min 64 (jroom h')) :: u32)) = 0" by (metis drop_bit_of_0)
  then have "jroom h' = 0" using drop_push_16(1) [OF sim_room(1), of "jroom h'"] sim_room(2) [of "jroom h'"] by simp
  then show "jdrain h' < jdrain h" using rd by (auto simp: Let_def split: if_splits)
qed (auto simp: sim_data_byte DATA_RVALID_MSK_def [THEN arg_cong [of _ _ "\<lambda>x. x = 0"]] split: if_splits)

section \<open>Properties\<close>

text \<open>
  C26. Writing through the interrupt driver. Whatever interrupts arrive at whatever points of the
  call, when it returns, the bytes the core has accepted followed by the bytes still in the
  buffer are what they were before, followed by the first \<open>k\<close> bytes of the caller: nothing is
  lost, repeated or reordered, and the bytes received meanwhile are in the receive buffer. The
  result is \<open>k\<close>, or an error when \<open>k\<close> is 0, and \<open>k\<close> is the whole count unless the call must not
  block or the host has been inactive for too long. Without interrupts a call that must not
  block returns, having taken as much as fits.
\<close>
theorem jtag_write_queue:
  assumes "jtag_port hw sent received wspace" and "uart_ok sp"
  shows "(\<forall>sched rc sched' sp' h'. jtag_write hw bytes flags sched sp h = Some (rc, sched', sp', h') \<longrightarrow>
      (\<exists>k \<le> length bytes.
        (uart_ok sp' \<and> sent h' @ txq sp' = sent h @ txq sp @ take k bytes \<and> (\<exists>out. sent h' = sent h @ out) \<and>
         (\<exists>new. rxq sp' = rxq sp @ new \<and> received h' = received h @ new)) \<and>
        rc = (if k > 0 then int k else if nonblocking flags then - JT_EWOULDBLOCK else - JT_EIO) \<and>
        (k < length bytes \<longrightarrow> nonblocking flags \<or> jt_timeout sp' \<le> host_inactive sp'))) \<and>
    (nonblocking flags \<longrightarrow> (\<exists>sp' h'. jtag_write hw bytes flags [] sp h =
      Some (let k = min (length bytes) (BUF_LEN - 1 - length (txq sp)) in if k > 0 then int k else - JT_EWOULDBLOCK, [], sp', h')))"
proof (intro conjI allI impI)
  show "\<exists>k \<le> length bytes.
        (uart_ok sp' \<and> sent h' @ txq sp' = sent h @ txq sp @ take k bytes \<and> (\<exists>out. sent h' = sent h @ out) \<and>
         (\<exists>new. rxq sp' = rxq sp @ new \<and> received h' = received h @ new)) \<and>
        rc = (if k > 0 then int k else if nonblocking flags then - JT_EWOULDBLOCK else - JT_EIO) \<and>
        (k < length bytes \<longrightarrow> nonblocking flags \<or> jt_timeout sp' \<le> host_inactive sp')"
    if "jtag_write hw bytes flags sched sp h = Some (rc, sched', sp', h')" for sched rc sched' sp' h'
    by (rule jtag_port.jtag_write_law [OF assms(1) that assms(2)])
qed (rule jtag_port.jtag_write_nonblocking [OF assms])

lemma jtag_instance_ok: "uart_ok jtag_instance" "txq jtag_instance = []" "rxq jtag_instance = []"
  by (simp_all add: uart_ok_def jtag_instance_def txq_def rxq_def)

text \<open>An interrupt that arrives before the copy finds nothing to send; the write then fills the buffer.\<close>

theorem jtag_write_queue_witness:
  "\<exists>sp' h'. jtag_write jtag_sim_hw [1, 2, 3] JT_O_NONBLOCK [] jtag_instance jtag_sim_start = Some (3, [], sp', h') \<and>
    jsent h' @ txq sp' = [1, 2, 3]"
proof -
  have nb: "nonblocking JT_O_NONBLOCK" by (simp add: nonblocking_def JT_O_NONBLOCK_def)
  note th = jtag_write_queue [OF jtag_core.jtag_port_axioms jtag_instance_ok(1), of "[1, 2, 3]" JT_O_NONBLOCK jtag_sim_start]
  obtain sp' h' where run: "jtag_write jtag_sim_hw [1, 2, 3] JT_O_NONBLOCK [] jtag_instance jtag_sim_start = Some (3, [], sp', h')"
    using th [THEN conjunct2, rule_format, OF nb] by (auto simp: jtag_instance_ok BUF_LEN_def)
  from th [THEN conjunct1, rule_format, OF run]
  obtain k where "jsent h' @ txq sp' = jsent jtag_sim_start @ txq jtag_instance @ take k [1, 2, 3]"
    "3 = (if k > 0 then int k else if nonblocking JT_O_NONBLOCK then - JT_EWOULDBLOCK else - JT_EIO)" by blast
  then have "jsent h' @ txq sp' = [1, 2, 3]" using nb
    by (simp add: jtag_instance_ok jtag_sim_start_def JT_EWOULDBLOCK_def split: if_splits)
  then show ?thesis using run by blast
qed

text \<open>
  C27. Reading through the interrupt driver. Whatever interrupts arrive at whatever points of the
  call, when it returns, the bytes it has delivered followed by those left in the receive buffer
  are what was in the buffer before, followed by what the core has handed out meanwhile. It
  delivers at most what was asked for, its result is their number, and it comes back without any
  only when it must not block, nothing was asked for, or the host has been inactive for too long.
  Without interrupts a call that must not block returns what is there.
\<close>
theorem jtag_read_queue:
  assumes "jtag_port hw sent received wspace" and "uart_ok sp"
  shows "(\<forall>sched rc got sched' sp' h'. jtag_read hw space flags sched sp h = Some (rc, got, sched', sp', h') \<longrightarrow>
      (uart_ok sp' \<and> (\<exists>new. received h' = received h @ new \<and> rxq sp @ new = got @ rxq sp') \<and>
       (\<exists>out. txq sp = out @ txq sp' \<and> sent h' = sent h @ out)) \<and> length got \<le> space \<and>
      rc = (if got \<noteq> [] then int (length got) else if nonblocking flags then - JT_EWOULDBLOCK else - JT_EIO) \<and>
      (got = [] \<longrightarrow> space = 0 \<or> nonblocking flags \<or> jt_timeout sp' \<le> host_inactive sp')) \<and>
    (nonblocking flags \<longrightarrow> (\<exists>sp' h'. jtag_read hw space flags [] sp h =
      Some (let k = min space (length (rxq sp)) in
        (if k > 0 then int k else - JT_EWOULDBLOCK, take k (rxq sp), [], sp', h'))))"
proof (intro conjI)
  show "\<forall>sched rc got sched' sp' h'. jtag_read hw space flags sched sp h = Some (rc, got, sched', sp', h') \<longrightarrow>
      (uart_ok sp' \<and> (\<exists>new. received h' = received h @ new \<and> rxq sp @ new = got @ rxq sp') \<and>
       (\<exists>out. txq sp = out @ txq sp' \<and> sent h' = sent h @ out)) \<and> length got \<le> space \<and>
      rc = (if got \<noteq> [] then int (length got) else if nonblocking flags then - JT_EWOULDBLOCK else - JT_EIO) \<and>
      (got = [] \<longrightarrow> space = 0 \<or> nonblocking flags \<or> jt_timeout sp' \<le> host_inactive sp')"
    by (intro allI impI) (rule jtag_port.jtag_read_law [OF assms(1) _ assms(2)])
qed (rule impI, rule jtag_port.jtag_read_nonblocking [OF assms])

text \<open>Two bytes in the buffer, at its end and wrapped to its start.\<close>

definition two_received :: jtag_uart where
  "two_received = jtag_instance\<lparr>rx_out := 2047, rx_in := 1, rx_buf := 8 # replicate 2046 0 @ [7]\<rparr>"

theorem jtag_read_queue_witness:
  "\<exists>sp' h'. jtag_read jtag_sim_hw 5 JT_O_NONBLOCK [] two_received jtag_sim_start = Some (2, [7, 8], [], sp', h')"
proof -
  have nb: "nonblocking JT_O_NONBLOCK" by (simp add: nonblocking_def JT_O_NONBLOCK_def)
  have ok: "uart_ok two_received" by (simp add: uart_ok_def two_received_def jtag_instance_def BUF_LEN_def)
  have q: "rxq two_received = [7, 8]"
    by (simp add: rxq_def two_received_def ring_list_def ring_len_def BUF_LEN_def numeral_2_eq_2 nth_append)
  show ?thesis
    using jtag_read_queue [OF jtag_core.jtag_port_axioms ok, of 5 JT_O_NONBLOCK jtag_sim_start] nb by (simp add: q)
qed

lemma stream_flags:
  "fd_flags (stream_entry uart O_WRONLY) AND O_ACCMODE = O_WRONLY" "fd_flags (stream_entry uart O_RDONLY) AND O_ACCMODE = O_RDONLY"
  "\<not> nonblocking (fd_flags (stream_entry uart O_RDONLY))" "O_WRONLY \<noteq> O_RDONLY" "O_RDONLY \<noteq> O_WRONLY"
  by (simp_all add: stream_entry_def O_WRONLY_def O_RDONLY_def O_ACCMODE_def ALT_FD_FLAGS_MASK_def ALT_FD_EXCL_def ALT_FD_DEV_def
      nonblocking_def JT_O_NONBLOCK_def)

text \<open>
  C28. The console. After the start-up of the HAL, with the UART registered and the standard
  streams redirected to it, and while a host is connected: writing to standard output or error
  returns the number of bytes and the host gets exactly those bytes in order; reading from
  standard input returns at least one byte and exactly what the host has sent next; neither
  changes the descriptor table. Reading from the output or writing to the input is refused.
\<close>
theorem console:
  assumes "jtag_live hw sent received wspace drain arrive"
    and "D uart = jtag_device hw" and "D alt_dev_null = alt_dev_null_struct" and "uart \<notin> {alt_dev_list, alt_fs_list, alt_dev_null}"
  shows "\<exists>h0. stdio_start D uart w = Some h0 \<and> world h0 = w \<and>
    (\<forall>h. alt_fd_list h = alt_fd_list h0 \<longrightarrow>
      (\<forall>fd \<in> {1, 2}. \<forall>bytes. \<exists>h1. alt_write D fd bytes h = Some (int (length bytes), h1) \<and>
         alt_fd_list h1 = alt_fd_list h0 \<and> sent (world h1) = sent (world h) @ bytes \<and> received (world h1) = received (world h)) \<and>
      (\<forall>n > 0. \<exists>got h1. alt_read D 0 n h = Some ((int (length got), h1), got) \<and> got \<noteq> [] \<and> length got \<le> n \<and>
         alt_fd_list h1 = alt_fd_list h0 \<and> received (world h1) = received (world h) @ got \<and> sent (world h1) = sent (world h)) \<and>
      (\<forall>n. alt_read D 1 n h = Some ((-1, h\<lparr>alt_errno := EACCES\<rparr>), [])) \<and>
      (\<forall>bytes. alt_write D 0 bytes h = Some (-1, h\<lparr>alt_errno := EACCES\<rparr>)))"
proof -
  obtain h0 where h0: "stdio_start D uart w = Some h0"
    and s: "only_streams D uart [stream_entry uart O_RDONLY, stream_entry uart O_WRONLY, stream_entry uart O_WRONLY] w h0"
    using stdio_start_streams [OF assms(2-4)] by blast
  have tab: "alt_fd_list h0 = [stream_entry uart O_RDONLY, stream_entry uart O_WRONLY, stream_entry uart O_WRONLY] @ replicate 29 free_entry"
    and w: "world h0 = w" using s by (simp_all add: only_streams_def)
  have dev: "fd_dev (stream_entry uart fl) = Some uart" for fl by (simp add: stream_entry_def)
  have at: "fd_at 0 h = Some (stream_entry uart O_RDONLY)" "fd_at 1 h = Some (stream_entry uart O_WRONLY)"
    "fd_at 2 h = Some (stream_entry uart O_WRONLY)" "set_fd 0 (stream_entry uart O_RDONLY) h = h"
    "set_fd 1 (stream_entry uart O_WRONLY) h = h" "set_fd 2 (stream_entry uart O_WRONLY) h = h"
    if "alt_fd_list h = alt_fd_list h0" for h
    using that by (simp_all add: tab fd_at_def set_fd_def numeral_2_eq_2)
  have put: "\<exists>h1. alt_write D fd bytes h = Some (int (length bytes), h1) \<and> alt_fd_list h1 = alt_fd_list h0 \<and>
      sent (world h1) = sent (world h) @ bytes \<and> received (world h1) = received (world h)"
    if "alt_fd_list h = alt_fd_list h0" "fd \<in> {1, 2}" for h fd bytes
  proof -
    obtain w' where "small_write hw bytes (fd_flags (stream_entry uart O_WRONLY)) (world h) = Some (int (length bytes), w')"
      "sent w' = sent (world h) @ bytes" "received w' = received (world h)"
      using jtag_live.small_write_returns [OF assms(1)] by blast
    then show ?thesis
      using that at [OF that(1)] dev
      by (auto simp: alt_write_def stream_flags assms(2) jtag_device_def jtag_write_fd_def driver_result_def)
  qed
  have get: "\<exists>got h1. alt_read D 0 n h = Some ((int (length got), h1), got) \<and> got \<noteq> [] \<and> length got \<le> n \<and>
      alt_fd_list h1 = alt_fd_list h0 \<and> received (world h1) = received (world h) @ got \<and> sent (world h1) = sent (world h)"
    if "alt_fd_list h = alt_fd_list h0" "0 < n" for h n
  proof -
    note n = that(2)
    obtain got w' where "small_read hw n (fd_flags (stream_entry uart O_RDONLY)) (world h) = Some (int (length got), got, w')"
      "got \<noteq> []" "length got \<le> n" "sent w' = sent (world h)" "received w' = received (world h) @ got"
      using jtag_live.small_read_returns [OF assms(1) n stream_flags(3)] by blast
    then show ?thesis
      using that at [OF that(1)] dev stream_flags(4,5)
      by (auto simp: alt_read_def stream_flags assms(2) jtag_device_def jtag_read_fd_def driver_result_def)
  qed
  have "alt_read D 1 n h = Some ((-1, h\<lparr>alt_errno := EACCES\<rparr>), [])" "alt_write D 0 bytes h = Some (-1, h\<lparr>alt_errno := EACCES\<rparr>)"
    if "alt_fd_list h = alt_fd_list h0" for h n bytes
    using at [OF that] by (simp_all add: alt_read_def alt_write_def stream_flags)
  then show ?thesis using h0 w put get by blast
qed

text \<open>A system with a simulated UART at address 10.\<close>

definition console_devices :: "ptr \<Rightarrow> jtag_sim alt_dev" where
  "console_devices p = (if p = alt_dev_null then alt_dev_null_struct else jtag_device jtag_sim_hw)"

theorem console_witness:
  "\<exists>h0 h1. stdio_start console_devices 10 jtag_sim_start = Some h0 \<and>
    alt_write console_devices 1 [72, 105] h0 = Some (2, h1) \<and> jsent (world h1) = [72, 105]"
proof -
  have D: "console_devices 10 = jtag_device jtag_sim_hw" "console_devices alt_dev_null = alt_dev_null_struct"
    "10 \<notin> {alt_dev_list, alt_fs_list, alt_dev_null}"
    by (simp_all add: console_devices_def alt_dev_null_def alt_dev_list_def alt_fs_list_def)
  obtain h0 where h0: "stdio_start console_devices 10 jtag_sim_start = Some h0" "world h0 = jtag_sim_start"
    "\<forall>fd \<in> {1, 2}. \<forall>bytes. \<exists>h1. alt_write console_devices fd bytes h0 = Some (int (length bytes), h1) \<and>
       jsent (world h1) = jsent (world h0) @ bytes"
    using console [OF jtag_core.jtag_live_axioms D, of jtag_sim_start] by metis
  then obtain h1 where "alt_write console_devices 1 [72, 105] h0 = Some (int (length [72, 105 :: u8]), h1)"
    "jsent (world h1) = jsent (world h0) @ [72, 105]" by blast
  then show ?thesis using h0 by (auto simp: jtag_sim_start_def)
qed

end
