(* ===== verification/Hal_Irq.thy ===== *)
theory Hal_Irq
  imports Cnc_Prelude
begin

text \<open>
  Interrupts of the HAL on the internal interrupt controller of the Nios II: the control
  registers and the global masks (\<open>sys/alt_irq.h\<close>, \<open>priv/alt_legacy_irq.h\<close>,
  \<open>alt_irq_vars.c\<close>), the registration of handlers (\<open>alt_iic.c\<close>, \<open>alt_iic_isr_register.c\<close>,
  \<open>alt_irq_register.c\<close>) and their dispatch (\<open>alt_irq_handler.c\<close>).

  A function pointer is a number, 0 the null pointer; \<open>code\<close> says what the function it denotes
  does with its context. The interrupt lines are hardware: reading them gives the lines that
  are raised and may let time pass for the devices. A call has the value \<open>None\<close> where the C
  code does not return, shifts by more than the width of a word, leaves the table of handlers,
  or calls through a null pointer.
\<close>

unbundle bit_operations_syntax

section \<open>The processor\<close>

record 'd cpu =
  status :: u32
  ienable :: u32
  alt_irq_active :: u32
  alt_priority_mask :: u32
  alt_irq :: "(nat \<times> nat) list"
  devices :: 'd

type_synonym 'd lines = "'d \<Rightarrow> u32 \<times> 'd"
type_synonym 'd isr_code = "nat \<Rightarrow> nat \<Rightarrow> 'd cpu \<Rightarrow> 'd cpu option"

definition ALT_NIRQ :: nat where "ALT_NIRQ = 32"
definition STATUS_PIE_MSK :: u32 where "STATUS_PIE_MSK = 1"
definition EINVAL_IRQ :: int where "EINVAL_IRQ = 22"

text \<open>The variables as the loader leaves them, with whatever the registers hold.\<close>

definition cpu_reset :: "u32 \<Rightarrow> u32 \<Rightarrow> 'd \<Rightarrow> 'd cpu" where
  "cpu_reset st ie d = \<lparr>status = st, ienable = ie, alt_irq_active = 0, alt_priority_mask = - 1,
     alt_irq = replicate ALT_NIRQ (0, 0), devices = d\<rparr>"

section \<open>The global enable\<close>

definition alt_irq_enabled :: "'d cpu \<Rightarrow> u32" where
  "alt_irq_enabled c = status c AND STATUS_PIE_MSK"

definition alt_irq_disable_all :: "'d cpu \<Rightarrow> u32 \<times> 'd cpu" where
  "alt_irq_disable_all c = (status c, c\<lparr>status := status c AND NOT STATUS_PIE_MSK\<rparr>)"

definition alt_irq_enable_all :: "u32 \<Rightarrow> 'd cpu \<Rightarrow> 'd cpu" where
  "alt_irq_enable_all context c = c\<lparr>status := context\<rparr>"

definition alt_irq_cpu_enable_interrupts :: "'d cpu \<Rightarrow> 'd cpu" where
  "alt_irq_cpu_enable_interrupts c = c\<lparr>status := STATUS_PIE_MSK\<rparr>"

definition altera_nios2_qsys_irq_init :: "'d cpu \<Rightarrow> 'd cpu" where
  "altera_nios2_qsys_irq_init c = c\<lparr>ienable := 0\<rparr>"

definition alt_irq_init :: "'d cpu \<Rightarrow> 'd cpu" where
  "alt_irq_init c = alt_irq_cpu_enable_interrupts (altera_nios2_qsys_irq_init c)"

section \<open>Single interrupts\<close>

definition irq_bit :: "u32 \<Rightarrow> u32" where
  "irq_bit n = push_bit (unat n) 1"

definition alt_irq_disable :: "u32 \<Rightarrow> 'd cpu \<Rightarrow> (int \<times> 'd cpu) option" where
  "alt_irq_disable n c =
    (if unat n < 32 then
       (let (st, c) = alt_irq_disable_all c;
            c = c\<lparr>alt_irq_active := alt_irq_active c AND NOT (irq_bit n)\<rparr>;
            c = c\<lparr>ienable := alt_irq_active c\<rparr>
        in Some (0, alt_irq_enable_all st c))
     else None)"

definition alt_irq_enable :: "u32 \<Rightarrow> 'd cpu \<Rightarrow> (int \<times> 'd cpu) option" where
  "alt_irq_enable n c =
    (if unat n < 32 then
       (let (st, c) = alt_irq_disable_all c;
            c = c\<lparr>alt_irq_active := alt_irq_active c OR irq_bit n\<rparr>;
            c = c\<lparr>ienable := alt_irq_active c\<rparr>
        in Some (0, alt_irq_enable_all st c))
     else None)"

definition alt_ic_irq_enable :: "u32 \<Rightarrow> u32 \<Rightarrow> 'd cpu \<Rightarrow> (int \<times> 'd cpu) option" where
  "alt_ic_irq_enable ic_id irq c = alt_irq_enable irq c"

definition alt_ic_irq_disable :: "u32 \<Rightarrow> u32 \<Rightarrow> 'd cpu \<Rightarrow> (int \<times> 'd cpu) option" where
  "alt_ic_irq_disable ic_id irq c = alt_irq_disable irq c"

definition alt_ic_irq_enabled :: "u32 \<Rightarrow> u32 \<Rightarrow> 'd cpu \<Rightarrow> u32 option" where
  "alt_ic_irq_enabled ic_id irq c =
    (if unat irq < 32 then Some (if ienable c AND irq_bit irq \<noteq> 0 then 1 else 0) else None)"

text \<open>For a handler that lets more urgent interrupts interrupt it.\<close>

definition alt_irq_interruptible :: "u32 \<Rightarrow> 'd cpu \<Rightarrow> (u32 \<times> 'd cpu) option" where
  "alt_irq_interruptible priority c =
    (if unat priority < 32 then
       (let old_priority = alt_priority_mask c;
            c = c\<lparr>alt_priority_mask := irq_bit priority - 1\<rparr>;
            c = c\<lparr>ienable := alt_irq_active c AND alt_priority_mask c\<rparr>;
            c = c\<lparr>status := 1\<rparr>
        in Some (old_priority, c))
     else None)"

definition alt_irq_non_interruptible :: "u32 \<Rightarrow> 'd cpu \<Rightarrow> 'd cpu" where
  "alt_irq_non_interruptible m c =
    (let c = c\<lparr>status := 0\<rparr>;
         c = c\<lparr>alt_priority_mask := m\<rparr>
     in c\<lparr>ienable := m AND alt_irq_active c\<rparr>)"

section \<open>Registration\<close>

text \<open>The enhanced interface: the number is read as a signed integer and has no lower bound.\<close>

definition alt_iic_isr_register :: "u32 \<Rightarrow> u32 \<Rightarrow> nat \<Rightarrow> nat \<Rightarrow> 'd cpu \<Rightarrow> (int \<times> 'd cpu) option" where
  "alt_iic_isr_register ic_id irq isr isr_context c =
    (let n = sint irq
     in if n < int ALT_NIRQ then
          if n < 0 then None
          else (let (st, c) = alt_irq_disable_all c;
                    c = c\<lparr>alt_irq := (alt_irq c)[nat n := (isr, isr_context)]\<rparr>
                in do {
                  (rc, c) \<leftarrow> (if isr \<noteq> 0 then alt_ic_irq_enable ic_id (of_int n) c
                              else alt_ic_irq_disable ic_id (of_int n) c);
                  Some (rc, alt_irq_enable_all st c)
                })
        else Some (- EINVAL_IRQ, c))"

definition alt_ic_isr_register :: "u32 \<Rightarrow> u32 \<Rightarrow> nat \<Rightarrow> nat \<Rightarrow> 'd cpu \<Rightarrow> (int \<times> 'd cpu) option" where
  "alt_ic_isr_register ic_id irq isr isr_context c = alt_iic_isr_register ic_id irq isr isr_context c"

text \<open>The legacy interface: the number is unsigned.\<close>

definition alt_irq_register :: "u32 \<Rightarrow> nat \<Rightarrow> nat \<Rightarrow> 'd cpu \<Rightarrow> (int \<times> 'd cpu) option" where
  "alt_irq_register n context handler c =
    (if unat n < ALT_NIRQ then
       (let (st, c) = alt_irq_disable_all c;
            c = c\<lparr>alt_irq := (alt_irq c)[unat n := (handler, context)]\<rparr>
        in do {
          (rc, c) \<leftarrow> (if handler \<noteq> 0 then alt_irq_enable n c else alt_irq_disable n c);
          Some (rc, alt_irq_enable_all st c)
        })
     else Some (- EINVAL_IRQ, c))"

section \<open>Dispatch\<close>

definition alt_irq_pending :: "'d lines \<Rightarrow> 'd cpu \<Rightarrow> u32 \<times> 'd cpu" where
  "alt_irq_pending lines c =
    (let (raised, d) = lines (devices c) in (raised AND ienable c, c\<lparr>devices := d\<rparr>))"

text \<open>The search for the first active interrupt; it has no bound of its own.\<close>

partial_function (option) irq_scan :: "u32 \<Rightarrow> u32 \<Rightarrow> nat \<Rightarrow> nat option" where
  "irq_scan active m i =
    (if active AND m \<noteq> 0 then Some i else irq_scan active (push_bit 1 m) (i + 1))"

declare irq_scan.simps [code]

definition call_handler :: "'d isr_code \<Rightarrow> nat \<Rightarrow> 'd cpu \<Rightarrow> 'd cpu option" where
  "call_handler code i c =
    (if i < length (alt_irq c) then
       (case alt_irq c ! i of (handler, context) \<Rightarrow> if handler = 0 then None else code handler context c)
     else None)"

partial_function (option) irq_loop :: "'d lines \<Rightarrow> 'd isr_code \<Rightarrow> u32 \<Rightarrow> 'd cpu \<Rightarrow> 'd cpu option" where
  "irq_loop lines code active c =
    Option.bind (irq_scan active 1 0) (\<lambda>i.
    Option.bind (call_handler code i c) (\<lambda>c.
      let (active, c) = alt_irq_pending lines c
      in if active \<noteq> 0 then irq_loop lines code active c else Some c))"

declare irq_loop.simps [code]

definition alt_irq_handler :: "'d lines \<Rightarrow> 'd isr_code \<Rightarrow> 'd cpu \<Rightarrow> 'd cpu option" where
  "alt_irq_handler lines code c =
    (let (active, c) = alt_irq_pending lines c in irq_loop lines code active c)"

end
