(* ===== verification/Hal_Time.thy ===== *)
theory Hal_Time
  imports Hal_Fd
begin

text \<open>
  Time in the HAL: the system clock tick and the alarms (\<open>HAL/src/alt_alarm_start.c\<close>,
  \<open>alt_tick.c\<close>, \<open>sys/alt_alarm.h\<close>), and the calls that read the tick counter (\<open>alt_times.c\<close>,
  \<open>alt_settod.c\<close>, \<open>alt_gettod.c\<close>). The alarms live in a ring of \<open>Hal_Llist\<close>. A function pointer is
  a number; \<open>F\<close> says what the function it denotes does with its context and the state, which it
  may change in any way, and what it returns.
\<close>

section \<open>State\<close>

record alarm =
  al_time :: u32
  al_callback :: nat
  al_rollover :: u8
  al_context :: nat

record 'w timer =
  tick_rate :: u32
  nticks :: u32
  alarm_links :: llist
  alarms :: "ptr \<Rightarrow> alarm"
  timer_errno :: int
  tworld :: 'w

type_synonym 'w callbacks = "nat \<Rightarrow> nat \<Rightarrow> 'w timer \<Rightarrow> u32 \<times> 'w timer"

definition alt_alarm_list :: ptr where "alt_alarm_list = 0"

definition timer_init :: "(ptr \<Rightarrow> alarm) \<Rightarrow> 'w \<Rightarrow> 'w timer" where
  "timer_init A w = \<lparr>tick_rate = 0, nticks = 0,
     alarm_links = ALT_LLIST_HEAD alt_alarm_list \<lparr>ll_next = id, ll_previous = id\<rparr>, alarms = A, timer_errno = 0, tworld = w\<rparr>"

definition alt_ticks_per_second :: "'w timer \<Rightarrow> u32" where
  "alt_ticks_per_second t = tick_rate t"

definition alt_nticks :: "'w timer \<Rightarrow> u32" where
  "alt_nticks t = nticks t"

definition alt_sysclk_init :: "u32 \<Rightarrow> 'w timer \<Rightarrow> int \<times> 'w timer" where
  "alt_sysclk_init n t = (if tick_rate t = 0 then (0, t\<lparr>tick_rate := n\<rparr>) else (-1, t))"

definition set_alarm :: "ptr \<Rightarrow> alarm \<Rightarrow> 'w timer \<Rightarrow> 'w timer" where
  "set_alarm a r t = t\<lparr>alarms := (alarms t)(a := r)\<rparr>"

section \<open>Alarms\<close>

definition alt_alarm_start :: "ptr option \<Rightarrow> u32 \<Rightarrow> nat \<Rightarrow> nat \<Rightarrow> 'w timer \<Rightarrow> int \<times> 'w timer" where
  "alt_alarm_start alarm n callback context t =
    (if alt_ticks_per_second t \<noteq> 0 then
       case alarm of
         None \<Rightarrow> (- EINVAL, t)
       | Some a \<Rightarrow>
           let current_nticks = alt_nticks t;
               time = n + current_nticks + 1;
               r = \<lparr>al_time = time, al_callback = callback, al_rollover = (if time < current_nticks then 1 else 0),
                    al_context = context\<rparr>;
               t = set_alarm a r t
           in (0, t\<lparr>alarm_links := alt_llist_insert alt_alarm_list a (alarm_links t)\<rparr>)
     else (- ENOTSUP, t))"

definition alt_alarm_stop :: "ptr \<Rightarrow> 'w timer \<Rightarrow> 'w timer" where
  "alt_alarm_stop a t = t\<lparr>alarm_links := alt_llist_remove a (alarm_links t)\<rparr>"

text \<open>The body of the loop of \<open>alt_tick\<close>, for one alarm.\<close>

definition tick_fire :: "'w callbacks \<Rightarrow> ptr \<Rightarrow> 'w timer \<Rightarrow> 'w timer" where
  "tick_fire F a t =
    (let (next_callback, t) = F (al_callback (alarms t a)) (al_context (alarms t a)) t
     in if next_callback = 0 then alt_alarm_stop a t
        else (let r = alarms t a; r = r\<lparr>al_time := al_time r + next_callback\<rparr>;
                  r = (if al_time r < nticks t then r\<lparr>al_rollover := 1\<rparr> else r)
              in set_alarm a r t))"

definition tick_body :: "'w callbacks \<Rightarrow> ptr \<Rightarrow> 'w timer \<Rightarrow> 'w timer" where
  "tick_body F a t =
    (let t = (if al_rollover (alarms t a) \<noteq> 0 \<and> nticks t = 0
              then set_alarm a ((alarms t a)\<lparr>al_rollover := 0\<rparr>) t else t)
     in if al_time (alarms t a) \<le> nticks t \<and> al_rollover (alarms t a) = 0 then tick_fire F a t else t)"

partial_function (option) tick_loop :: "'w callbacks \<Rightarrow> ptr \<Rightarrow> 'w timer \<Rightarrow> 'w timer option" where
  "tick_loop F a t =
    (if a = alt_alarm_list then Some t
     else (let next = ll_next (alarm_links t) a in tick_loop F next (tick_body F a t)))"

declare tick_loop.simps [code]

definition alt_tick :: "'w callbacks \<Rightarrow> 'w timer \<Rightarrow> 'w timer option" where
  "alt_tick F t =
    (let a = ll_next (alarm_links t) alt_alarm_list; t = t\<lparr>nticks := nticks t + 1\<rparr> in tick_loop F a t)"

section \<open>Time of day\<close>

text \<open>The fields of \<open>struct timeval\<close> and \<open>struct timezone\<close> are 32-bit integers.\<close>

record timeval =
  tv_sec :: int
  tv_usec :: int

record timezone =
  tz_minuteswest :: int
  tz_dsttime :: int

record wall_clock =
  alt_timezone :: timezone
  alt_resettime :: timeval

definition ALT_US :: nat where "ALT_US = 1000000"

definition wall_clock_init :: wall_clock where
  "wall_clock_init = \<lparr>alt_timezone = \<lparr>tz_minuteswest = 0, tz_dsttime = 0\<rparr>, alt_resettime = \<lparr>tv_sec = 0, tv_usec = 0\<rparr>\<rparr>"

text \<open>Assigning an unsigned 32-bit result to a signed field.\<close>

definition long_of :: "u32 \<Rightarrow> int" where "long_of w = sint w"

definition alt_settimeofday :: "timeval \<Rightarrow> timezone \<Rightarrow> wall_clock \<Rightarrow> 'w timer \<Rightarrow> int \<times> wall_clock \<times> 'w timer" where
  "alt_settimeofday tv tz c t =
    (let n = alt_nticks t; rate = alt_ticks_per_second t
     in if rate \<noteq> 0
        then (0, c\<lparr>alt_resettime :=
                     \<lparr>tv_sec = long_of (of_int (tv_sec tv) - n div rate),
                      tv_usec = long_of (of_int (tv_usec tv) - (n * (of_nat ALT_US div rate)) mod of_nat ALT_US)\<rparr>,
                   alt_timezone := tz\<rparr>, t)
        else (-1, c, t\<lparr>timer_errno := ENOSYS\<rparr>))"

text \<open>The two normalising loops of \<open>gettimeofday\<close>.\<close>

function borrow :: "int \<Rightarrow> int \<Rightarrow> int \<times> int" where
  "borrow sec usec =
    (if usec < 0 then if sec \<le> 0 then (0, 0) else borrow (sec - 1) (usec + int ALT_US) else (sec, usec))"
  by pat_completeness auto
termination by (relation "measure (\<lambda>(_, usec). nat (- usec))") (auto simp: ALT_US_def)

function carry :: "int \<Rightarrow> int \<Rightarrow> int \<times> int" where
  "carry sec usec = (if usec \<ge> int ALT_US then carry (sec + 1) (usec - int ALT_US) else (sec, usec))"
  by pat_completeness auto
termination by (relation "measure (\<lambda>(_, usec). nat usec)") (auto simp: ALT_US_def)

declare borrow.simps [simp del] carry.simps [simp del]

definition alt_gettimeofday ::
  "timeval \<Rightarrow> timezone option \<Rightarrow> wall_clock \<Rightarrow> 'w timer \<Rightarrow> int \<times> timeval \<times> timezone option" where
  "alt_gettimeofday tv tz c t =
    (let n = alt_nticks t; rate = alt_ticks_per_second t
     in if rate \<noteq> 0
        then (let sec = long_of (of_int (tv_sec (alt_resettime c)) + n div rate);
                  usec = long_of (of_int (tv_usec (alt_resettime c)) +
                           ucast (((ucast n :: u64) * ucast (of_nat ALT_US div rate)) mod of_nat ALT_US));
                  (sec, usec) = borrow sec usec;
                  (sec, usec) = carry sec usec
              in (0, \<lparr>tv_sec = sec, tv_usec = usec\<rparr>, map_option (\<lambda>_. alt_timezone c) tz))
        else (- ENOTSUP, tv, tz))"

text \<open>\<open>times\<close>: all time is attributed to the system. The buffer holds user, system, and both children's times.\<close>

definition alt_times :: "u32 \<times> u32 \<times> u32 \<times> u32 \<Rightarrow> 'w timer \<Rightarrow> u32 \<times> (u32 \<times> u32 \<times> u32 \<times> u32) \<times> 'w timer" where
  "alt_times buf t =
    (let ticks = alt_nticks t
     in if alt_ticks_per_second t = 0 then (0, buf, t\<lparr>timer_errno := ENOSYS\<rparr>)
        else (ticks, (0, ticks, 0, 0), t))"

end
