(* ===== verification/Hal_Time_Proofs.thy ===== *)
theory Hal_Time_Proofs
  imports Hal_Time
begin

text \<open>
  The alarms of the HAL are countdowns: the specification keeps the number of ticks each alarm
  still waits, and knows neither the 32-bit tick counter nor its roll-over. The callbacks are
  any functions that leave the timer itself alone.
\<close>

section \<open>The specification\<close>

type_synonym 'w plain_callbacks = "nat \<Rightarrow> nat \<Rightarrow> u32 \<Rightarrow> 'w \<Rightarrow> u32 \<times> 'w"

definition plain :: "'w plain_callbacks \<Rightarrow> 'w callbacks" where
  "plain G callback context t = (let (p, w) = G callback context (nticks t) (tworld t) in (p, t\<lparr>tworld := w\<rparr>))"

text \<open>
  One tick, the \<open>now\<close>-th since reset: an alarm that waits one more tick is called, and waits as
  many ticks as its callback says or is removed; the others wait one tick less.
\<close>

fun countdown ::
  "'w plain_callbacks \<Rightarrow> (ptr \<Rightarrow> nat \<times> nat) \<Rightarrow> u32 \<Rightarrow> (ptr \<times> nat) list \<Rightarrow> 'w \<Rightarrow> (ptr \<times> nat) list \<times> 'w" where
  "countdown G C now [] w = ([], w)"
| "countdown G C now ((a, r) # xs) w =
     (if r = 1
      then (let (p, w) = G (fst (C a)) (snd (C a)) now w; (ys, w) = countdown G C now xs w
            in (if p = 0 then ys else (a, unat p) # ys, w))
      else (let (ys, w) = countdown G C now xs w in ((a, r - 1) # ys, w)))"

text \<open>An alarm waits \<open>r\<close> ticks when its time, read with its roll-over flag, is \<open>r\<close> ticks away.\<close>

definition waits :: "u32 \<Rightarrow> alarm \<Rightarrow> nat \<Rightarrow> bool" where
  "waits now al r \<longleftrightarrow> 1 \<le> r \<and>
     (if al_rollover al = 0 then unat now + r = unat (al_time al)
      else al_time al < now \<and> unat now + r = unat (al_time al) + 2 ^ 32)"

definition timer_ok :: "'w timer \<Rightarrow> (ptr \<times> nat) list \<Rightarrow> bool" where
  "timer_ok t xs \<longleftrightarrow> ring (alarm_links t) alt_alarm_list (map fst xs) \<and>
     (\<forall>(a, r) \<in> set xs. waits (nticks t) (alarms t a) r)"

definition whom :: "'w timer \<Rightarrow> ptr \<Rightarrow> nat \<times> nat" where
  "whom t a = (al_callback (alarms t a), al_context (alarms t a))"

section \<open>One alarm\<close>

lemma unat_add_u32: "unat (a + b :: u32) = (if unat a + unat b < 2 ^ 32 then unat a + unat b else unat a + unat b - 2 ^ 32)"
proof -
  have "unat a < 2 ^ 32" "unat b < 2 ^ 32" using unsigned_less [of a, where ?'a = nat] unsigned_less [of b, where ?'a = nat] by simp_all
  then show ?thesis by (simp add: unat_word_ariths mod_if)
qed

lemma u32_less: "unat (a :: u32) < 2 ^ 32"
  using unsigned_less [of a, where ?'a = nat] by simp

lemma unat_succ: "unat (a + 1 :: u32) = (if unat a + 1 = 2 ^ 32 then 0 else unat a + 1)"
  using unat_add_u32 [of a 1] u32_less [of a] by auto

lemma u32_zero: "(a :: u32) = 0 \<longleftrightarrow> unat a = 0"
  by (simp add: unat_eq_0)

text \<open>Starting an alarm: \<open>n + 1\<close> ticks to wait, unless \<open>n\<close> is the largest number there is.\<close>

lemma waits_start:
  fixes n now :: u32
  assumes "n \<noteq> 0xFFFFFFFF"
  shows "waits now \<lparr>al_time = n + now + 1, al_callback = c, al_rollover = (if n + now + 1 < now then 1 else 0), al_context = x\<rparr> (unat n + 1)"
proof -
  have "unat n \<noteq> unat (0xFFFFFFFF :: u32)" using assms by (metis word_unat_eq_iff)
  then have "unat n + 1 < 2 ^ 32" using u32_less [of n] by simp
  then have "unat (n + now + 1) = (if unat n + unat now + 1 < 2 ^ 32 then unat n + unat now + 1 else unat n + unat now + 1 - 2 ^ 32)"
    using u32_less [of n] u32_less [of now] by (auto simp: unat_succ unat_add_u32)
  then show ?thesis
    using u32_less [of n] u32_less [of now] \<open>unat n + 1 < 2 ^ 32\<close> by (auto simp: waits_def word_less_nat_alt)
qed

text \<open>An alarm that is called waits as long as its callback says.\<close>

lemma waits_again:
  fixes p now :: u32
  assumes "p \<noteq> 0" "al_rollover al = 0" "al_time al = now"
  shows "waits now (let al = al\<lparr>al_time := al_time al + p\<rparr> in if al_time al < now then al\<lparr>al_rollover := 1\<rparr> else al) (unat p)"
proof -
  have "0 < unat p" using assms(1) by (simp add: unat_eq_0 neq0_conv [symmetric])
  then show ?thesis
    using assms(2,3) u32_less [of p] u32_less [of now] by (auto simp: waits_def word_less_nat_alt unat_add_u32 Let_def)
qed

definition cleared :: "u32 \<Rightarrow> alarm \<Rightarrow> alarm" where
  "cleared now al = (if al_rollover al \<noteq> 0 \<and> now = 0 then al\<lparr>al_rollover := 0\<rparr> else al)"

lemma waits_step:
  assumes "waits now al r"
  defines "al' \<equiv> cleared (now + 1) al"
  shows "r \<noteq> 1 \<Longrightarrow> waits (now + 1) al' (r - 1) \<and> \<not> (al_time al' \<le> now + 1 \<and> al_rollover al' = 0)"
    and "r = 1 \<Longrightarrow> al_time al' = now + 1 \<and> al_rollover al' = 0"
  using assms u32_less [of now] u32_less [of "al_time al"]
  by (auto simp: waits_def cleared_def word_less_nat_alt word_le_nat_alt unat_succ u32_zero word_unat_eq_iff [of _ "now + 1"] split: if_splits)

section \<open>One tick\<close>

lemma alarm_simps [simp]:
  "alarms (set_alarm a r t) = (alarms t)(a := r)" "nticks (set_alarm a r t) = nticks t" "tworld (set_alarm a r t) = tworld t"
  "alarm_links (set_alarm a r t) = alarm_links t" "tick_rate (set_alarm a r t) = tick_rate t"
  "alarms (alt_alarm_stop a t) = alarms t" "nticks (alt_alarm_stop a t) = nticks t" "tworld (alt_alarm_stop a t) = tworld t"
  "alarm_links (alt_alarm_stop a t) = alt_llist_remove a (alarm_links t)" "tick_rate (alt_alarm_stop a t) = tick_rate t"
  by (simp_all add: set_alarm_def alt_alarm_stop_def)

lemma cleared_fields [simp]:
  "al_callback (cleared n al) = al_callback al" "al_context (cleared n al) = al_context al"
  by (simp_all add: cleared_def)

text \<open>What the body does with one alarm, by the number of ticks it waited before this one.\<close>

lemma tick_body_cleared:
  "tick_body F a t =
    (let t = set_alarm a (cleared (nticks t) (alarms t a)) t
     in if al_time (alarms t a) \<le> nticks t \<and> al_rollover (alarms t a) = 0 then tick_fire F a t else t)"
proof -
  have "set_alarm a (alarms t a) t = t" by (simp add: set_alarm_def)
  then show ?thesis by (auto simp: tick_body_def cleared_def Let_def)
qed

lemma tick_body_waits:
  assumes "waits now (alarms t a) r" "nticks t = now + 1" "r \<noteq> 1"
  shows "tick_body (plain G) a t = set_alarm a (cleared (now + 1) (alarms t a)) t"
  using waits_step(1) [OF assms(1,3)] assms(2) by (auto simp: tick_body_cleared Let_def)

lemma tick_body_fires:
  assumes w: "waits now (alarms t a) 1" "nticks t = now + 1"
    and G: "G (al_callback (alarms t a)) (al_context (alarms t a)) (now + 1) (tworld t) = (p, w)"
  shows "\<exists>al. tick_body (plain G) a t =
      (if p = 0 then alt_alarm_stop a ((set_alarm a al t)\<lparr>tworld := w\<rparr>) else (set_alarm a al t)\<lparr>tworld := w\<rparr>) \<and>
    al_callback al = al_callback (alarms t a) \<and> al_context al = al_context (alarms t a) \<and>
    (p \<noteq> 0 \<longrightarrow> waits (now + 1) al (unat p))"
proof -
  let ?al = "cleared (now + 1) (alarms t a)"
  note z = waits_step(2) [OF w(1)]
  have fire: "tick_body (plain G) a t = tick_fire (plain G) a (set_alarm a ?al t)"
    using z w(2) by (simp add: tick_body_cleared Let_def)
  show ?thesis
  proof (cases "p = 0")
    case True
    then show ?thesis using fire G w(2) by (intro exI [of _ ?al]) (simp add: tick_fire_def plain_def)
  next
    case False
    let ?new = "let al = ?al\<lparr>al_time := al_time ?al + p\<rparr> in if al_time al < now + 1 then al\<lparr>al_rollover := 1\<rparr> else al"
    have "tick_body (plain G) a t = (set_alarm a ?new t)\<lparr>tworld := w\<rparr>"
      using fire G w(2) False by (simp add: tick_fire_def plain_def set_alarm_def Let_def)
    moreover have "waits (now + 1) ?new (unat p)" using waits_again [OF False] z by simp
    moreover have "al_callback ?new = al_callback (alarms t a)" "al_context ?new = al_context (alarms t a)"
      by (simp_all add: Let_def)
    ultimately show ?thesis using False by (intro exI [of _ ?new]) simp
  qed
qed

text \<open>
  The loop: \<open>ps\<close> are the alarms it has passed and kept; the others still wait as before the tick.
\<close>

lemma tick_loop_countdown:
  assumes "ring (alarm_links t) alt_alarm_list (ps @ map fst xs)" "nticks t = now + 1"
    and "\<forall>(a, r) \<in> set xs. waits now (alarms t a) r" "\<forall>(a, r) \<in> set xs. C a = whom t a"
  shows "\<exists>t'. tick_loop (plain G) (case map fst xs of [] \<Rightarrow> alt_alarm_list | y # _ \<Rightarrow> y) t = Some t' \<and>
    (\<exists>ys. countdown G C (now + 1) xs (tworld t) = (ys, tworld t') \<and>
      ring (alarm_links t') alt_alarm_list (ps @ map fst ys) \<and> (\<forall>(a, r) \<in> set ys. waits (now + 1) (alarms t' a) r)) \<and>
    nticks t' = now + 1 \<and> tick_rate t' = tick_rate t \<and> (\<forall>b. whom t' b = whom t b) \<and>
    (\<forall>b. b \<notin> set (map fst xs) \<longrightarrow> alarms t' b = alarms t b)"
  using assms
proof (induction xs arbitrary: ps t)
  case Nil
  then show ?case by (subst tick_loop.simps) simp
next
  case (Cons x xs)
  obtain a r where x: "x = (a, r)" by fastforce
  have ring: "ring (alarm_links t) alt_alarm_list (ps @ a # map fst xs)" using Cons.prems(1) x by simp
  have a: "a \<noteq> alt_alarm_list" "a \<notin> set (map fst xs)" "a \<notin> set ps"
    using ring by (auto simp: ring_def)
  have nxt: "ll_next (alarm_links t) a = (case map fst xs of [] \<Rightarrow> alt_alarm_list | y # _ \<Rightarrow> y)"
    using ring_step(1) [OF ring] .
  have step: "tick_loop (plain G) (case map fst (x # xs) of [] \<Rightarrow> alt_alarm_list | y # _ \<Rightarrow> y) t =
      tick_loop (plain G) (case map fst xs of [] \<Rightarrow> alt_alarm_list | y # _ \<Rightarrow> y) (tick_body (plain G) a t)"
    using a(1) nxt by (subst tick_loop.simps) (simp add: x)
  have wa: "waits now (alarms t a) r" and Ca: "C a = (al_callback (alarms t a), al_context (alarms t a))"
    using Cons.prems(3,4) x by (auto simp: whom_def)
  have rest: "\<forall>(b, q) \<in> set xs. waits now (alarms t b) q \<and> C b = whom t b \<and> b \<noteq> a"
  proof (clarify)
    fix b q assume "(b, q) \<in> set xs"
    moreover from this have "b \<in> set (map fst xs)" by force
    ultimately show "waits now (alarms t b) q \<and> C b = whom t b \<and> b \<noteq> a" using Cons.prems(3,4) a(2) by auto
  qed
  show ?case
  proof (cases "r = 1")
    case False
    let ?t = "tick_body (plain G) a t"
    have b: "?t = set_alarm a (cleared (now + 1) (alarms t a)) t" using tick_body_waits [OF wa Cons.prems(2) False] .
    have w': "waits (now + 1) (alarms ?t a) (r - 1)" using waits_step(1) [OF wa False] by (simp add: b)
    have who: "whom ?t c = whom t c" for c by (simp add: b whom_def)
    have pre: "ring (alarm_links ?t) alt_alarm_list ((ps @ [a]) @ map fst xs)" "nticks ?t = now + 1"
      "\<forall>(b, q) \<in> set xs. waits now (alarms ?t b) q" "\<forall>(b, q) \<in> set xs. C b = whom ?t b"
      using ring Cons.prems(2) rest unfolding who by (auto simp: b)
    obtain t' ys where t': "tick_loop (plain G) (case map fst xs of [] \<Rightarrow> alt_alarm_list | y # _ \<Rightarrow> y) ?t = Some t'"
      "countdown G C (now + 1) xs (tworld ?t) = (ys, tworld t')"
      "ring (alarm_links t') alt_alarm_list ((ps @ [a]) @ map fst ys)" "\<forall>(b, q) \<in> set ys. waits (now + 1) (alarms t' b) q"
      "nticks t' = now + 1" "tick_rate t' = tick_rate ?t" "\<forall>c. whom t' c = whom ?t c"
      "\<forall>c. c \<notin> set (map fst xs) \<longrightarrow> alarms t' c = alarms ?t c"
      using Cons.IH [OF pre] by blast
    have "waits (now + 1) (alarms t' a) (r - 1)" using w' t'(8) a(2) by simp
    then show ?thesis using step t' who False x by (auto simp: b)
  next
    case True
    obtain p w where G: "G (al_callback (alarms t a)) (al_context (alarms t a)) (now + 1) (tworld t) = (p, w)" by fastforce
    obtain al where b: "tick_body (plain G) a t =
      (if p = 0 then alt_alarm_stop a ((set_alarm a al t)\<lparr>tworld := w\<rparr>) else (set_alarm a al t)\<lparr>tworld := w\<rparr>)"
      and al: "al_callback al = al_callback (alarms t a)" "al_context al = al_context (alarms t a)"
        "p \<noteq> 0 \<longrightarrow> waits (now + 1) al (unat p)"
      using tick_body_fires [OF wa [unfolded True] Cons.prems(2), of G p w, OF G] by blast
    let ?t = "tick_body (plain G) a t" and ?ps = "if p = 0 then ps else ps @ [a]"
    have who: "whom ?t c = whom t c" for c using al by (simp add: b whom_def)
    have ring': "ring (alarm_links ?t) alt_alarm_list (?ps @ map fst xs)"
      using ring ring_remove(1) [OF ring] by (simp add: b)
    have pre: "nticks ?t = now + 1" "\<forall>(b, q) \<in> set xs. waits now (alarms ?t b) q" "\<forall>(b, q) \<in> set xs. C b = whom ?t b"
      using Cons.prems(2) rest unfolding who by (auto simp: b)
    obtain t' ys where t': "tick_loop (plain G) (case map fst xs of [] \<Rightarrow> alt_alarm_list | y # _ \<Rightarrow> y) ?t = Some t'"
      "countdown G C (now + 1) xs (tworld ?t) = (ys, tworld t')"
      "ring (alarm_links t') alt_alarm_list (?ps @ map fst ys)" "\<forall>(b, q) \<in> set ys. waits (now + 1) (alarms t' b) q"
      "nticks t' = now + 1" "tick_rate t' = tick_rate ?t" "\<forall>c. whom t' c = whom ?t c"
      "\<forall>c. c \<notin> set (map fst xs) \<longrightarrow> alarms t' c = alarms ?t c"
      using Cons.IH [OF ring' pre] by blast
    have cd: "countdown G C (now + 1) (x # xs) (tworld t) = (if p = 0 then ys else (a, unat p) # ys, tworld t')"
      using t'(2) G Ca x True by (auto simp: b)
    have "p \<noteq> 0 \<Longrightarrow> waits (now + 1) (alarms t' a) (unat p)" using t'(8) a(2) al(3) by (simp add: b)
    then show ?thesis using step t' cd who x by (auto simp: b)
  qed
qed

lemma alt_tick_countdown:
  assumes "timer_ok t xs"
  shows "\<exists>t' ys. alt_tick (plain G) t = Some t' \<and> countdown G (whom t) (nticks t + 1) xs (tworld t) = (ys, tworld t') \<and>
    timer_ok t' ys \<and> nticks t' = nticks t + 1 \<and> tick_rate t' = tick_rate t \<and> whom t' = whom t"
proof -
  let ?t = "t\<lparr>nticks := nticks t + 1\<rparr>"
  have r: "ring (alarm_links ?t) alt_alarm_list ([] @ map fst xs)" using assms by (simp add: timer_ok_def)
  have first: "ll_next (alarm_links t) alt_alarm_list = (case map fst xs of [] \<Rightarrow> alt_alarm_list | y # _ \<Rightarrow> y)"
    using ring_next r by simp
  have "\<forall>(a, q) \<in> set xs. waits (nticks t) (alarms ?t a) q" "\<forall>(a, q) \<in> set xs. whom t a = whom ?t a"
    using assms by (auto simp: timer_ok_def whom_def)
  from tick_loop_countdown [OF r _ this, of G]
  obtain t' ys where "tick_loop (plain G) (case map fst xs of [] \<Rightarrow> alt_alarm_list | y # _ \<Rightarrow> y) ?t = Some t'"
    "countdown G (whom t) (nticks t + 1) xs (tworld ?t) = (ys, tworld t')" "ring (alarm_links t') alt_alarm_list (map fst ys)"
    "\<forall>(a, q) \<in> set ys. waits (nticks t + 1) (alarms t' a) q" "nticks t' = nticks t + 1" "tick_rate t' = tick_rate t"
    "\<forall>b. whom t' b = whom ?t b" by auto
  then show ?thesis
    by (auto simp: alt_tick_def first timer_ok_def whom_def Let_def intro!: exI [of _ t'] exI [of _ ys])
qed

lemma alarm_start_ok:
  assumes "timer_ok t xs" "tick_rate t \<noteq> 0" "a \<noteq> alt_alarm_list" "a \<notin> set (map fst xs)" "n \<noteq> 0xFFFFFFFF"
  shows "\<exists>t'. alt_alarm_start (Some a) n c x t = (0, t') \<and> timer_ok t' ((a, unat n + 1) # xs) \<and> whom t' a = (c, x) \<and>
    (\<forall>b. b \<noteq> a \<longrightarrow> whom t' b = whom t b) \<and> nticks t' = nticks t \<and> tworld t' = tworld t"
proof -
  have "\<forall>(b, q) \<in> set xs. b \<noteq> a" using assms(4) by force
  then show ?thesis
    using assms ring_insert [of "alarm_links t" alt_alarm_list "map fst xs" a] waits_start [OF assms(5), of "nticks t"]
    by (fastforce simp: alt_alarm_start_def alt_ticks_per_second_def alt_nticks_def Let_def timer_ok_def whom_def)
qed

lemma alarm_stop_ok: "timer_ok t (xs @ (a, r) # ys) \<Longrightarrow> timer_ok (alt_alarm_stop a t) (xs @ ys)"
  using ring_remove(1) [of "alarm_links t" alt_alarm_list "map fst xs" a "map fst ys"] by (auto simp: timer_ok_def)

section \<open>The longest delay\<close>

text \<open>
  The one delay for which an alarm is not a countdown: with the largest number there is, the time
  of the alarm is the present one and its roll-over flag is clear, so the next tick calls it.
\<close>

lemma longest_delay_fires_at_once:
  assumes "ring (alarm_links t) alt_alarm_list []" "tick_rate t \<noteq> 0" "a \<noteq> alt_alarm_list" "nticks t \<noteq> 0xFFFFFFFF"
  shows "\<exists>t1 t2. alt_alarm_start (Some a) 0xFFFFFFFF c x t = (0, t1) \<and> alt_tick (plain G) t1 = Some t2 \<and>
    tworld t2 = snd (G c x (nticks t + 1) (tworld t))"
proof -
  let ?al = "\<lparr>al_time = nticks t, al_callback = c, al_rollover = 0, al_context = x\<rparr>"
  let ?t1 = "(set_alarm a ?al t)\<lparr>alarm_links := alt_llist_insert alt_alarm_list a (alarm_links t)\<rparr>"
  let ?t2 = "?t1\<lparr>nticks := nticks t + 1\<rparr>"
  have "(0xFFFFFFFF :: u32) = - 1" by simp
  then have sum: "0xFFFFFFFF + nticks t + 1 = nticks t" by (simp only:) simp
  then have start: "alt_alarm_start (Some a) 0xFFFFFFFF c x t = (0, ?t1)"
    using assms(2) unfolding alt_alarm_start_def alt_ticks_per_second_def alt_nticks_def Let_def option.case sum by simp
  have ring: "ring (alarm_links ?t1) alt_alarm_list ([] @ a # [])" using ring_insert [OF assms(1)] assms(3) by simp
  have "unat (nticks t) \<noteq> unat (0xFFFFFFFF :: u32)" using assms(4) by (metis word_unat_eq_iff)
  then have "nticks t \<le> nticks t + 1" using u32_less [of "nticks t"] by (simp add: word_le_nat_alt unat_succ)
  then have "tick_body (plain G) a ?t2 = tick_fire (plain G) a ?t2" by (simp add: tick_body_def)
  moreover have "tworld (tick_fire (plain G) a ?t2) = snd (G c x (nticks t + 1) (tworld t))"
    by (simp add: tick_fire_def plain_def split_beta Let_def)
  moreover have "ll_next (alarm_links ?t1) alt_alarm_list = a" "ll_next (alarm_links ?t1) a = alt_alarm_list"
    using ring_next [OF ring [unfolded append_Nil]] ring_step(1) [OF ring] by simp_all
  then have "alt_tick (plain G) ?t1 = Some (tick_body (plain G) a ?t2)"
    using assms(3) by (simp add: alt_tick_def tick_loop.simps [of _ a] tick_loop.simps [of _ alt_alarm_list])
  ultimately show ?thesis using start by auto
qed

section \<open>Properties\<close>

text \<open>
  C29. Alarms are countdowns. With callbacks that leave the timer alone, one tick of the clock
  returns and does to the registered alarms what the specification says: those that had one tick
  left are called, in the order of the list, and then wait as many ticks as they ask for or are
  removed, and all others wait one tick less; across the roll-over of the 32-bit tick counter as
  anywhere else. Starting an alarm of \<open>n\<close> ticks puts it in front with \<open>n + 1\<close> ticks to wait, for
  every \<open>n\<close> but the largest, and stopping one takes it out and leaves the others alone.
\<close>
theorem alarms_are_countdowns:
  assumes "timer_ok t xs"
  shows "(\<exists>t' ys. alt_tick (plain G) t = Some t' \<and> countdown G (whom t) (nticks t + 1) xs (tworld t) = (ys, tworld t') \<and>
      timer_ok t' ys \<and> nticks t' = nticks t + 1 \<and> tick_rate t' = tick_rate t \<and> whom t' = whom t) \<and>
    (\<forall>a n c x. tick_rate t \<noteq> 0 \<and> a \<noteq> alt_alarm_list \<and> a \<notin> set (map fst xs) \<and> n \<noteq> 0xFFFFFFFF \<longrightarrow>
      (\<exists>t'. alt_alarm_start (Some a) n c x t = (0, t') \<and> timer_ok t' ((a, unat n + 1) # xs) \<and> whom t' a = (c, x) \<and>
        (\<forall>b. b \<noteq> a \<longrightarrow> whom t' b = whom t b) \<and> nticks t' = nticks t \<and> tworld t' = tworld t)) \<and>
    (\<forall>ys a r zs. xs = ys @ (a, r) # zs \<longrightarrow> timer_ok (alt_alarm_stop a t) (ys @ zs))"
proof (intro conjI allI impI)
  show "\<exists>t' ys. alt_tick (plain G) t = Some t' \<and> countdown G (whom t) (nticks t + 1) xs (tworld t) = (ys, tworld t') \<and>
      timer_ok t' ys \<and> nticks t' = nticks t + 1 \<and> tick_rate t' = tick_rate t \<and> whom t' = whom t"
    by (rule alt_tick_countdown [OF assms])
qed (use alarm_start_ok [OF assms] alarm_stop_ok assms in blast)+

text \<open>
  Two ticks before the counter rolls over, an alarm of two ticks is started; its callback logs
  the tick and asks for no other.
\<close>

definition near_roll_over :: "u32 list timer" where
  "near_roll_over = (timer_init (\<lambda>_. \<lparr>al_time = 0, al_callback = 0, al_rollover = 0, al_context = 0\<rparr>) [])
     \<lparr>tick_rate := 1000, nticks := 0xFFFFFFFE\<rparr>"

lemma near_roll_over_ok: "timer_ok near_roll_over []"
  using ring_head [of alt_alarm_list] by (simp add: timer_ok_def near_roll_over_def timer_init_def)

theorem alarms_are_countdowns_witness:
  "\<exists>t1 t2. alt_alarm_start (Some 5) 0 0 7 near_roll_over = (0, t1) \<and>
    alt_tick (plain (\<lambda>c x now w. (0, now # w))) t1 = Some t2 \<and> tworld t2 = [0xFFFFFFFF] \<and> timer_ok t2 []"
proof -
  have n: "tick_rate near_roll_over \<noteq> 0" "nticks near_roll_over = 0xFFFFFFFE" "tworld near_roll_over = []"
    by (simp_all add: near_roll_over_def timer_init_def)
  note start = alarms_are_countdowns [OF near_roll_over_ok, of "\<lambda>c x now w. (0, now # w)", THEN conjunct2, THEN conjunct1,
    THEN spec, THEN spec, THEN spec, THEN spec, of 5 0 0 7]
  obtain t1 where t1: "alt_alarm_start (Some 5) 0 0 7 near_roll_over = (0, t1)" "timer_ok t1 [(5, 1)]"
    "nticks t1 = 0xFFFFFFFE" "tworld t1 = []"
    using start n by (auto simp: alt_alarm_list_def)
  show ?thesis
    using alarms_are_countdowns [OF t1(2), of "\<lambda>c x now w. (0, now # w)", THEN conjunct1] t1 by auto
qed

section \<open>Time of day\<close>

lemma long_of_int: "- (2 ^ 31) \<le> i \<Longrightarrow> i < 2 ^ 31 \<Longrightarrow> long_of (of_int i) = i"
  by (simp add: long_of_def signed_of_int signed_take_bit_int_eq_self)

lemma u32_as_int: "(w :: u32) = of_int (int (unat w))" by simp

text \<open>The microseconds of the ticks, in 32 bits as \<open>settimeofday\<close> computes them, and in 64 bits.\<close>

lemma unat_us: "unat (of_nat ALT_US :: u32) = 1000000" "unat (of_nat ALT_US :: u64) = 1000000"
  by (simp_all add: ALT_US_def)

lemma us_per_tick: "unat (of_nat ALT_US div rate :: u32) = 1000000 div unat rate"
  by (simp only: unat_div_distrib unat_us)

lemma usec_32:
  fixes n rate :: u32
  shows "unat ((n * (of_nat ALT_US div rate)) mod of_nat ALT_US) = (unat n * (1000000 div unat rate)) mod 2 ^ 32 mod 1000000"
proof -
  have "unat (n * (of_nat ALT_US div rate)) = unat n * (1000000 div unat rate) mod 2 ^ 32"
    by (simp only: unat_word_ariths(2) us_per_tick) simp
  then show ?thesis by (simp only: unat_mod_distrib unat_us)
qed

lemma usec_64:
  fixes n rate :: u32
  shows "unat (ucast (((ucast n :: u64) * ucast (of_nat ALT_US div rate)) mod of_nat ALT_US) :: u32) =
    (unat n * (1000000 div unat rate)) mod 1000000"
proof -
  let ?q = "of_nat ALT_US div rate :: u32"
  have up: "unat (ucast x :: u64) = unat x" for x :: u32
    using unsigned_less [of x, where ?'a = nat] by (simp add: unsigned_ucast_eq take_bit_nat_eq_self)
  have "1000000 div unat rate \<le> (1000000 :: nat)" by (rule div_le_dividend)
  then have "unat n * (1000000 div unat rate) \<le> 2 ^ 32 * 1000000"
    using unsigned_less [of n, where ?'a = nat] by (intro mult_le_mono) simp_all
  then have p: "unat n * (1000000 div unat rate) < 2 ^ 64" by simp
  have "unat ((ucast n :: u64) * ucast ?q) = unat n * (1000000 div unat rate)"
    using mod_less [OF p] by (simp only: unat_word_ariths(2) up us_per_tick) simp
  then have "unat (((ucast n :: u64) * ucast ?q) mod of_nat ALT_US) = unat n * (1000000 div unat rate) mod 1000000"
    by (simp only: unat_mod_distrib unat_us)
  then show ?thesis by (simp add: unsigned_ucast_eq take_bit_nat_eq_self)
qed

lemma borrow_once:
  assumes "0 < s" "- 1000000 < u" "u < 0"
  shows "borrow s u = (s - 1, u + 1000000)"
  using assms by (subst borrow.simps, simp add: ALT_US_def) (subst borrow.simps, simp)

lemma normalised:
  assumes "0 < s" "- 1000000 < u" "u < 2000000"
  shows "(case borrow s u of (s, u) \<Rightarrow> carry s u) =
    (if u < 0 then (s - 1, u + 1000000) else if u < 1000000 then (s, u) else (s + 1, u - 1000000))"
proof -
  consider "u < 0" | "0 \<le> u" "u < 1000000" | "1000000 \<le> u" by linarith
  then show ?thesis
  proof cases
    case 1
    then show ?thesis using borrow_once [OF assms(1,2)] by (simp add: carry.simps [of _ "u + 1000000"] ALT_US_def)
  next
    case 2
    then show ?thesis by (simp add: borrow.simps carry.simps ALT_US_def)
  next
    case 3
    have "carry s u = (s + 1, u - 1000000)"
      using 3 assms(3) by (subst carry.simps, simp add: ALT_US_def) (subst carry.simps, simp add: ALT_US_def)
    then show ?thesis using 3 by (simp add: borrow.simps)
  qed
qed

text \<open>
  C30. Setting and reading the clock. Reading the time of day right after it has been set gives
  back the time that was set exactly when the microseconds of the ticks so far do not depend on
  being computed in 32 or in 64 bits: \<open>settimeofday\<close> multiplies in 32 bits, \<open>gettimeofday\<close> in 64.
  That is always so until the product of the tick counter and the microseconds of a tick exceeds
  32 bits (after 71 minutes at any rate that divides a million), and usually not afterwards.
\<close>
theorem settimeofday_gettimeofday:
  assumes "tick_rate t \<noteq> 0" and "0 < s" and "s < 2 ^ 31" and "0 \<le> u" and "u < 1000000"
  defines "usecs \<equiv> unat (nticks t) * (1000000 div unat (tick_rate t))"
  shows "\<exists>c'. alt_settimeofday \<lparr>tv_sec = s, tv_usec = u\<rparr> tz c t = (0, c', t) \<and>
    (alt_gettimeofday tv otz c' t = (0, \<lparr>tv_sec = s, tv_usec = u\<rparr>, map_option (\<lambda>_. tz) otz) \<longleftrightarrow>
      usecs mod 2 ^ 32 mod 1000000 = usecs mod 1000000)"
proof -
  let ?n = "nticks t" and ?r = "tick_rate t"
  let ?w = "(?n * (of_nat ALT_US div ?r)) mod of_nat ALT_US"
  let ?v = "ucast (((ucast ?n :: u64) * ucast (of_nat ALT_US div ?r)) mod of_nat ALT_US) :: u32"
  define a b where "a = usecs mod 2 ^ 32 mod 1000000" and "b = usecs mod 1000000"
  have w: "?w = of_int (int a)" using usec_32 [of ?n ?r] u32_as_int [of ?w] by (simp add: a_def usecs_def)
  have v: "?v = of_int (int b)" using usec_64 [of ?n ?r] u32_as_int [of ?v] by (simp add: b_def usecs_def)
  have ab: "a < 1000000" "b < 1000000" by (simp_all add: a_def b_def)
  have set_usec: "long_of (of_int u - ?w) = u - int a"
    unfolding w using long_of_int [of "u - int a"] assms(4,5) ab by simp
  have get_usec: "long_of (of_int (u - int a) + ?v) = u - int a + int b"
    unfolding v using long_of_int [of "u - int a + int b"] assms(4,5) ab by simp
  have get_sec: "long_of (of_int (long_of (of_int s - ?n div ?r)) + ?n div ?r) = s"
    using long_of_int [of s] assms(2,3) by (simp add: long_of_def)
  let ?c = "c\<lparr>alt_resettime := \<lparr>tv_sec = long_of (of_int s - ?n div ?r), tv_usec = u - int a\<rparr>, alt_timezone := tz\<rparr>"
  have set: "alt_settimeofday \<lparr>tv_sec = s, tv_usec = u\<rparr> tz c t = (0, ?c, t)"
    using assms(1) set_usec by (simp add: alt_settimeofday_def alt_nticks_def alt_ticks_per_second_def Let_def)
  have "alt_gettimeofday tv otz ?c t = (0, (case (case borrow s (u - int a + int b) of (s, u) \<Rightarrow> carry s u) of (s, u) \<Rightarrow>
      \<lparr>tv_sec = s, tv_usec = u\<rparr>), map_option (\<lambda>_. tz) otz)"
    using assms(1) get_usec get_sec
    by (simp add: alt_gettimeofday_def alt_nticks_def alt_ticks_per_second_def Let_def split: prod.split)
  also have "(case borrow s (u - int a + int b) of (s, u) \<Rightarrow> carry s u) =
      (let x = u - int a + int b in if x < 0 then (s - 1, x + 1000000) else if x < 1000000 then (s, x) else (s + 1, x - 1000000))"
    using normalised [OF assms(2), of "u - int a + int b"] assms(4,5) ab by (simp add: Let_def)
  finally have "alt_gettimeofday tv otz ?c t = (0, \<lparr>tv_sec = s, tv_usec = u\<rparr>, map_option (\<lambda>_. tz) otz) \<longleftrightarrow> a = b"
    using assms(4,5) by (auto simp: Let_def)
  then show ?thesis using set unfolding a_def b_def by blast
qed

text \<open>
  At a rate of 1000, after 5 seconds the time comes back; after 72 minutes it is 0.967296 seconds off.
\<close>

definition utc :: timezone where "utc = \<lparr>tz_minuteswest = 0, tz_dsttime = 0\<rparr>"

definition epoch :: timeval where "epoch = \<lparr>tv_sec = 0, tv_usec = 0\<rparr>"

theorem settimeofday_gettimeofday_witness:
  "\<exists>c1 c2. alt_settimeofday \<lparr>tv_sec = 100, tv_usec = 0\<rparr> utc wall_clock_init (near_roll_over\<lparr>nticks := 5000\<rparr>) =
      (0, c1, near_roll_over\<lparr>nticks := 5000\<rparr>) \<and>
    alt_gettimeofday epoch None c1 (near_roll_over\<lparr>nticks := 5000\<rparr>) = (0, \<lparr>tv_sec = 100, tv_usec = 0\<rparr>, None) \<and>
    alt_settimeofday \<lparr>tv_sec = 100, tv_usec = 0\<rparr> utc wall_clock_init (near_roll_over\<lparr>nticks := 4294968\<rparr>) =
      (0, c2, near_roll_over\<lparr>nticks := 4294968\<rparr>) \<and>
    alt_gettimeofday epoch None c2 (near_roll_over\<lparr>nticks := 4294968\<rparr>) \<noteq> (0, \<lparr>tv_sec = 100, tv_usec = 0\<rparr>, None)"
proof -
  have r: "tick_rate (near_roll_over\<lparr>nticks := n\<rparr>) = 1000" for n by (simp add: near_roll_over_def)
  show ?thesis
    using settimeofday_gettimeofday [of "near_roll_over\<lparr>nticks := 5000\<rparr>" 100 0 utc wall_clock_init epoch None]
      settimeofday_gettimeofday [of "near_roll_over\<lparr>nticks := 4294968\<rparr>" 100 0 utc wall_clock_init epoch None]
    by (auto simp: r)
qed

end
