(* ===== verification/Hal_Irq_Proofs.thy ===== *)
theory Hal_Irq_Proofs
  imports Hal_Irq Hal_Time_Proofs
begin

text \<open>
  The dispatch of interrupts is a priority dispatcher: always the lowest pending and enabled
  line next, until none is pending. It returns if every handler does its work (the interface
  \<open>irq_sources\<close>, interpreted on a clock whose handler calls \<open>alt_tick\<close>). What registration and
  nesting do to the masks.
\<close>

unbundle bit_operations_syntax

section \<open>The search\<close>

lemma irq_scan_active: "irq_scan a m i = Some r \<Longrightarrow> a \<noteq> 0"
  by (rule irq_scan.raw_induct [of "\<lambda>a m i r. a \<noteq> 0" a m i r]) (auto split: if_splits)

lemma irq_scan_from:
  assumes "bit a l" "\<forall>j < l. \<not> bit a j" "i \<le> l"
  shows "irq_scan a (2 ^ i) i = Some l"
  using assms(3)
proof (induction rule: inc_induct)
  case base
  then show ?case using assms(1) by (subst irq_scan.simps) (simp add: bit_test)
next
  case (step n)
  then show ?case using assms(2) bit_test [of a n] by (subst irq_scan.simps) (simp add: push_bit_eq_mult mult.commute)
qed

lemma irq_scan_least:
  "irq_scan a 1 0 = (if a = 0 then None else Some (LEAST i. bit a i))"
proof (cases "a = 0")
  case True
  then show ?thesis using irq_scan_active [of a 1 0] by (cases "irq_scan a 1 0") auto
next
  case False
  then have "bit a (LEAST i. bit a i)" using nonzero_bit by (metis LeastI)
  moreover have "\<forall>j < (LEAST i. bit a i). \<not> bit a j" by (blast dest: not_less_Least)
  ultimately have "irq_scan a (2 ^ 0) 0 = Some (LEAST i. bit a i)" by (rule irq_scan_from) simp
  with False show ?thesis by simp
qed

lemma irq_scan_first:
  assumes "irq_scan a 1 0 = Some i"
  shows "bit a i" "\<forall>j < i. \<not> bit a j"
proof -
  have a: "a \<noteq> 0" using assms by (rule irq_scan_active)
  then have i: "i = (LEAST i. bit a i)" using assms irq_scan_least [of a] by simp
  from a obtain n where "bit a n" using nonzero_bit by blast
  then show "bit a i" unfolding i by (rule LeastI)
  show "\<forall>j < i. \<not> bit a j" unfolding i by (blast dest: not_less_Least)
qed

section \<open>Dispatch\<close>

text \<open>
  The specification: as long as an enabled line is raised, the handler of the lowest one is
  called, and the lines are read again. The list holds the interrupts served.
\<close>

inductive dispatched :: "'d lines \<Rightarrow> 'd isr_code \<Rightarrow> 'd cpu \<Rightarrow> nat list \<Rightarrow> 'd cpu \<Rightarrow> bool" for lines code where
  idle: "alt_irq_pending lines c = (0, c') \<Longrightarrow> dispatched lines code c [] c'"
| serve: "alt_irq_pending lines c = (active, c1) \<Longrightarrow> bit active i \<Longrightarrow> \<forall>j < i. \<not> bit active j \<Longrightarrow>
    call_handler code i c1 = Some c2 \<Longrightarrow> dispatched lines code c2 is c' \<Longrightarrow> dispatched lines code c (i # is) c'"

inductive_cases dispatched_none: "dispatched lines code c [] c'"
inductive_cases dispatched_first: "dispatched lines code c (i # is) c'"

lemma irq_loop_dispatched:
  assumes "irq_loop lines code active c1 = Some c'" and "alt_irq_pending lines c = (active, c1)"
  shows "\<exists>i is. dispatched lines code c (i # is) c'"
proof -
  have "L = lines \<longrightarrow> K = code \<longrightarrow> (\<forall>c. alt_irq_pending lines c = (active, c1) \<longrightarrow> (\<exists>i is. dispatched lines code c (i # is) c'))"
    if "irq_loop L K active c1 = Some c'" for L K active c1 c'
  proof (rule irq_loop.raw_induct [OF _ that, of "\<lambda>L K active c1 c'. L = lines \<longrightarrow> K = code \<longrightarrow>
      (\<forall>c. alt_irq_pending lines c = (active, c1) \<longrightarrow> (\<exists>i is. dispatched lines code c (i # is) c'))"], intro impI allI)
    fix loop L K active c1 c' c
    assume IH: "\<And>L K active c1 c'. loop L K active c1 = Some c' \<Longrightarrow> L = lines \<longrightarrow> K = code \<longrightarrow>
        (\<forall>c. alt_irq_pending lines c = (active, c1) \<longrightarrow> (\<exists>i is. dispatched lines code c (i # is) c'))"
      and run: "Option.bind (irq_scan active 1 0) (\<lambda>i. Option.bind (call_handler K i c1) (\<lambda>c.
        let (active, c) = alt_irq_pending L c in if active \<noteq> 0 then loop L K active c else Some c)) = Some c'"
      and [simp]: "L = lines" "K = code" and pend: "alt_irq_pending lines c = (active, c1)"
    from run obtain i c2 where i: "irq_scan active 1 0 = Some i" and c2: "call_handler code i c1 = Some c2"
      and rest: "(let (active, c) = alt_irq_pending lines c2 in if active \<noteq> 0 then loop lines code active c else Some c) = Some c'"
      by (simp only: \<open>L = lines\<close> \<open>K = code\<close> bind_eq_Some_conv) blast
    have first: "bit active i" "\<forall>j < i. \<not> bit active j"
      using irq_scan_first [OF i] by blast+
    obtain active' c3 where p: "alt_irq_pending lines c2 = (active', c3)" by fastforce
    have "\<exists>is. dispatched lines code c2 is c'"
    proof (cases "active' = 0")
      case True
      then show ?thesis using rest p by (auto intro: idle)
    next
      case False
      then show ?thesis using rest p IH [of lines code active' c3 c'] by auto
    qed
    then show "\<exists>i is. dispatched lines code c (i # is) c'" using serve [OF pend first c2] by blast
  qed
  then show ?thesis using assms by blast
qed

lemma dispatched_irq_loop:
  assumes "dispatched lines code c (i # is) c'" and "alt_irq_pending lines c = (active, c1)"
  shows "irq_loop lines code active c1 = Some c'"
  using assms
proof (induction c "i # is" c' arbitrary: i "is" active c1)
  case (serve c active' c1' i c2 "is" c')
  then have [simp]: "active' = active" "c1' = c1" by auto
  have scan: "irq_scan active 1 0 = Some i" using irq_scan_from [of active i 0] serve.hyps by simp
  obtain a c3 where p: "alt_irq_pending lines c2 = (a, c3)" by fastforce
  have "(if a \<noteq> 0 then irq_loop lines code a c3 else Some c3) = Some c'"
  proof (cases "is")
    case Nil
    then have "dispatched lines code c2 [] c'" using serve.hyps by simp
    then show ?thesis using p by (auto elim: dispatched_none)
  next
    case (Cons j js)
    then have s: "dispatched lines code c2 (j # js) c'" using serve.hyps by simp
    then have "a \<noteq> 0" using p by (auto elim!: dispatched_first)
    then show ?thesis using serve.hyps(6) Cons p by simp
  qed
  then show ?case using scan serve.hyps(4) p by (subst irq_loop.simps) simp
qed

lemma handler_iff_dispatched:
  "alt_irq_handler lines code c = Some c' \<longleftrightarrow> (\<exists>i is. dispatched lines code c (i # is) c')"
proof -
  obtain active c1 where p: "alt_irq_pending lines c = (active, c1)" by fastforce
  then show ?thesis
    using irq_loop_dispatched [OF _ p] dispatched_irq_loop [OF _ p] by (auto simp: alt_irq_handler_def)
qed

section \<open>Handlers that do their work\<close>

text \<open>
  A handler that is called for a raised line brings the amount of outstanding \<open>work\<close> down, and
  leaves the table and the masks alone; reading the lines adds no work.
\<close>

locale irq_sources =
  fixes lines :: "'d lines" and code :: "'d isr_code" and ok :: "'d \<Rightarrow> bool" and work :: "'d \<Rightarrow> nat"
    and table :: "(nat \<times> nat) list"
  assumes table_law: "length table = ALT_NIRQ"
    and read_law: "ok d \<Longrightarrow> lines d = (l, d') \<Longrightarrow> ok d' \<and> work d' \<le> work d"
    and isr_law: "alt_irq c = table \<Longrightarrow> ok d \<Longrightarrow> lines d = (l, devices c) \<Longrightarrow> bit (l AND ienable c) i \<Longrightarrow>
      fst (table ! i) \<noteq> 0 \<and> (\<exists>c'. code (fst (table ! i)) (snd (table ! i)) c = Some c' \<and> alt_irq c' = table \<and>
        ienable c' = ienable c \<and> ok (devices c') \<and> work (devices c') < work (devices c))"
begin

definition quiet :: "'d cpu \<Rightarrow> bool" where
  "quiet c \<longleftrightarrow> (\<exists>d l. ok d \<and> lines d = (l, devices c) \<and> l AND ienable c = 0)"

lemma call_serves:
  assumes "alt_irq c = table" "ok (devices c)" "alt_irq_pending lines c = (active, c1)" "bit active i"
  shows "\<exists>c2. call_handler code i c1 = Some c2 \<and> alt_irq c2 = table \<and> ienable c2 = ienable c \<and>
    ok (devices c2) \<and> work (devices c2) < work (devices c)"
proof -
  obtain l d where l: "lines (devices c) = (l, d)" by fastforce
  then have c1: "c1 = c\<lparr>devices := d\<rparr>" "active = l AND ienable c"
    using assms(3) by (auto simp: alt_irq_pending_def)
  have i: "i < length table" using assms(4) table_law by (auto simp: ALT_NIRQ_def dest: bit_imp_le_length)
  have "work d \<le> work (devices c)" using read_law [OF assms(2) l] by simp
  then show ?thesis
    using isr_law [of c1 "devices c" l i] assms l c1 i by (fastforce simp: call_handler_def split: prod.split)
qed

lemma handler_dispatches:
  assumes "alt_irq c = table" "ok (devices c)"
  shows "\<exists>is c'. dispatched lines code c is c' \<and> alt_irq c' = table \<and> ienable c' = ienable c \<and> quiet c'"
  using assms
proof (induction "work (devices c)" arbitrary: c rule: less_induct)
  case less
  obtain active c1 where p: "alt_irq_pending lines c = (active, c1)" by fastforce
  show ?case
  proof (cases "active = 0")
    case True
    obtain l d where l: "lines (devices c) = (l, d)" by fastforce
    with p have c1: "c1 = c\<lparr>devices := d\<rparr>" "active = l AND ienable c" by (auto simp: alt_irq_pending_def)
    then have "quiet c1" using True l less.prems by (auto simp: quiet_def)
    then show ?thesis using idle p True c1 less.prems by (intro exI [of _ "[]"] exI [of _ c1]) simp
  next
    case False
    from irq_scan_least [of active] False obtain i where i: "irq_scan active 1 0 = Some i" by simp
    note first = irq_scan_first [OF this]
    from call_serves [OF less.prems p first(1)] obtain c2 where c2: "call_handler code i c1 = Some c2"
      "alt_irq c2 = table" "ienable c2 = ienable c" "ok (devices c2)" "work (devices c2) < work (devices c)" by blast
    from less.hyps [OF c2(5,2,4)] obtain "is" c' where "dispatched lines code c2 is c'" "alt_irq c' = table"
      "ienable c' = ienable c2" "quiet c'" by blast
    then show ?thesis using serve [OF p first c2(1)] c2(3) by metis
  qed
qed

lemma handler_returns:
  assumes "alt_irq c = table" "ok (devices c)" "fst (alt_irq_pending lines c) \<noteq> 0"
  shows "\<exists>c'. alt_irq_handler lines code c = Some c' \<and> alt_irq c' = table \<and> ienable c' = ienable c \<and> quiet c'"
proof -
  obtain "is" c' where d: "dispatched lines code c is c'" "alt_irq c' = table" "ienable c' = ienable c" "quiet c'"
    using handler_dispatches [OF assms(1,2)] by blast
  have "is \<noteq> []" using d(1) assms(3) by (auto elim: dispatched_none)
  then obtain i js where "is = i # js" by (cases "is") auto
  then show ?thesis using d handler_iff_dispatched by blast
qed

end

section \<open>Masks\<close>

lemma bit_irq_bit: "unat n < 32 \<Longrightarrow> bit (irq_bit n) i \<longleftrightarrow> i = unat n"
  by (auto simp: irq_bit_def bit_simps)

lemma bit_below: "unat n < 32 \<Longrightarrow> bit (irq_bit n - 1) i \<longleftrightarrow> i < unat n"
proof -
  assume n: "unat n < 32"
  have "irq_bit n - 1 = mask (unat n)" by (simp add: irq_bit_def mask_eq_exp_minus_1 push_bit_eq_mult)
  then show ?thesis using n by (auto simp: bit_simps)
qed

lemma enable_one:
  assumes "unat n < 32"
  shows "\<exists>c'. alt_irq_enable n c = Some (0, c') \<and> ienable c' = alt_irq_active c' \<and> status c' = status c \<and>
    alt_irq c' = alt_irq c \<and> devices c' = devices c \<and> alt_priority_mask c' = alt_priority_mask c \<and>
    (\<forall>i. bit (alt_irq_active c') i \<longleftrightarrow> i = unat n \<or> bit (alt_irq_active c) i)"
  using assms by (auto simp: alt_irq_enable_def alt_irq_disable_all_def alt_irq_enable_all_def bit_or_iff bit_irq_bit)

lemma disable_one:
  assumes "unat n < 32"
  shows "\<exists>c'. alt_irq_disable n c = Some (0, c') \<and> ienable c' = alt_irq_active c' \<and> status c' = status c \<and>
    alt_irq c' = alt_irq c \<and> devices c' = devices c \<and> alt_priority_mask c' = alt_priority_mask c \<and>
    (\<forall>i. bit (alt_irq_active c') i \<longleftrightarrow> i \<noteq> unat n \<and> bit (alt_irq_active c) i)"
  using assms
  by (auto simp: alt_irq_disable_def alt_irq_disable_all_def alt_irq_enable_all_def bit_and_iff bit_not_iff bit_irq_bit
      dest: bit_imp_le_length)

lemma sint_small: "unat (n :: u32) < 2 ^ 31 \<Longrightarrow> sint n = int (unat n)"
  by (simp add: sint_u32)

lemma sint_large:
  assumes "2 ^ 31 \<le> unat (n :: u32)"
  shows "sint n < 0"
proof -
  have "int (unat n) < int (2 ^ 32)" unfolding of_nat_less_iff using unsigned_less [of n, where ?'a = nat] by simp
  then show ?thesis using assms by (simp add: sint_u32)
qed

text \<open>Registering a handler: the entry of the table, and the interrupt enabled unless it is null.\<close>

definition registered_isr :: "nat \<Rightarrow> nat \<Rightarrow> nat \<Rightarrow> 'd cpu \<Rightarrow> 'd cpu \<Rightarrow> bool" where
  "registered_isr i isr context c c' \<longleftrightarrow>
     alt_irq c' = (alt_irq c)[i := (isr, context)] \<and>
     (\<forall>k. bit (alt_irq_active c') k \<longleftrightarrow> (if k = i then isr \<noteq> 0 else bit (alt_irq_active c) k)) \<and>
     ienable c' = alt_irq_active c' \<and> status c' = status c \<and> alt_priority_mask c' = alt_priority_mask c \<and>
     devices c' = devices c"

lemma register_legacy:
  assumes "unat n < 32"
  shows "\<exists>c'. alt_irq_register n context isr c = Some (0, c') \<and> registered_isr (unat n) isr context c c'"
proof -
  let ?c = "(snd (alt_irq_disable_all c))\<lparr>alt_irq := (alt_irq c)[unat n := (isr, context)]\<rparr>"
  show ?thesis
    using enable_one [OF assms, of ?c] disable_one [OF assms, of ?c] assms
    by (cases "isr = 0")
      (auto simp: alt_irq_register_def ALT_NIRQ_def registered_isr_def alt_irq_disable_all_def alt_irq_enable_all_def)
qed

lemma register_enhanced:
  assumes "unat n < 32"
  shows "alt_ic_isr_register ic_id n isr context c = alt_irq_register n context isr c"
proof -
  have "int (unat n) < int 32" using assms by (simp only: of_nat_less_iff)
  then have "sint n = int (unat n)" "uint n < 32" using sint_small [of n] assms by simp_all
  then show ?thesis using assms unfolding alt_ic_isr_register_def alt_iic_isr_register_def alt_irq_register_def
  by (simp add: ALT_NIRQ_def alt_ic_irq_enable_def alt_ic_irq_disable_def Let_def cong: if_cong)
qed

lemma register_refused:
  "32 \<le> unat n \<Longrightarrow> alt_irq_register n context isr c = Some (- EINVAL_IRQ, c)"
  "32 \<le> unat n \<Longrightarrow> unat n < 2 ^ 31 \<Longrightarrow> alt_ic_isr_register ic_id n isr context c = Some (- EINVAL_IRQ, c)"
  "2 ^ 31 \<le> unat n \<Longrightarrow> alt_ic_isr_register ic_id n isr context c = None"
proof -
  show "32 \<le> unat n \<Longrightarrow> alt_irq_register n context isr c = Some (- EINVAL_IRQ, c)"
    by (simp add: alt_irq_register_def ALT_NIRQ_def)
  assume "32 \<le> unat n" "unat n < 2 ^ 31"
  then have "int 32 \<le> sint n" unfolding sint_small [OF \<open>unat n < 2 ^ 31\<close>] by (simp only: of_nat_le_iff)
  then show "alt_ic_isr_register ic_id n isr context c = Some (- EINVAL_IRQ, c)"
    by (simp add: alt_ic_isr_register_def alt_iic_isr_register_def ALT_NIRQ_def Let_def)
next
  assume "2 ^ 31 \<le> unat n"
  from sint_large [OF this] show "alt_ic_isr_register ic_id n isr context c = None"
    by (simp add: alt_ic_isr_register_def alt_iic_isr_register_def ALT_NIRQ_def Let_def)
qed

section \<open>A clock\<close>

text \<open>
  A timer that has some ticks outstanding on line 5, and the handler a system clock driver would
  register: it acknowledges one tick and calls \<open>alt_tick\<close>.
\<close>

record 'w clock =
  due :: nat
  clk :: "'w timer"

definition clock_lines :: "'w clock lines" where
  "clock_lines d = (if 0 < due d then 2 ^ 5 else 0, d)"

definition clock_isr :: "'w plain_callbacks \<Rightarrow> 'w clock isr_code" where
  "clock_isr G handler context c =
    (if handler = 1 then do {
       t \<leftarrow> alt_tick (plain G) (clk (devices c));
       Some (c\<lparr>devices := \<lparr>due = due (devices c) - 1, clk = t\<rparr>\<rparr>)
     } else None)"

definition clock_table :: "(nat \<times> nat) list" where
  "clock_table = (replicate 32 (0, 0))[5 := (1, 0)]"

definition clock_ok :: "'w clock \<Rightarrow> bool" where
  "clock_ok d \<longleftrightarrow> (\<exists>xs. timer_ok (clk d) xs)"

interpretation clock: irq_sources clock_lines "clock_isr G" clock_ok due clock_table
proof
  fix c :: "'a clock cpu" and d l i
  assume t: "alt_irq c = clock_table" and ok: "clock_ok d" and l: "clock_lines d = (l, devices c)" and b: "bit (l AND ienable c) i"
  have d: "devices c = d" "0 < due d" "i = 5"
    using l b unfolding clock_lines_def bit_and_iff by (auto simp only: bit_exp_iff bit_0_eq bot_apply bot_bool_def prod.inject split: if_splits)
  obtain xs where "timer_ok (clk d) xs" using ok by (auto simp: clock_ok_def)
  from alt_tick_countdown [OF this, of G] obtain t' ys where "alt_tick (plain G) (clk d) = Some t'" "timer_ok t' ys" by blast
  then show "fst (clock_table ! i) \<noteq> 0 \<and> (\<exists>c'. clock_isr G (fst (clock_table ! i)) (snd (clock_table ! i)) c = Some c' \<and>
      alt_irq c' = clock_table \<and> ienable c' = ienable c \<and> clock_ok (devices c') \<and> due (devices c') < due (devices c))"
    using d t by (auto simp: clock_isr_def clock_table_def clock_ok_def)
qed (auto simp: clock_table_def ALT_NIRQ_def clock_lines_def)

text \<open>A handler that waits with 3 ticks outstanding, the interrupt registered and enabled.\<close>

definition clock_cpu :: "nat \<Rightarrow> u32 list clock cpu" where
  "clock_cpu n = (cpu_reset 1 0 \<lparr>due = n, clk = near_roll_over\<rparr>)\<lparr>ienable := 2 ^ 5, alt_irq_active := 2 ^ 5, alt_irq := clock_table\<rparr>"

lemma clock_cpu_simps:
  "alt_irq (clock_cpu n) = clock_table" "clock_ok (devices (clock_cpu n))" "0 < n \<Longrightarrow> fst (alt_irq_pending clock_lines (clock_cpu n)) \<noteq> 0"
  "ienable (clock_cpu n) = 2 ^ 5"
  using near_roll_over_ok by (auto simp: clock_cpu_def clock_ok_def alt_irq_pending_def clock_lines_def cpu_reset_def)

lemma clock_quiet: "clock.quiet c \<Longrightarrow> ienable c = 2 ^ 5 \<Longrightarrow> due (devices c) = 0"
  by (auto simp: clock.quiet_def clock_lines_def split: if_splits)

section \<open>Properties\<close>

text \<open>
  C31. Dispatch. The interrupt handler of the HAL returns in a state exactly when that state comes
  from serving at least one interrupt, each time the lowest line that is raised and enabled, read
  again before every choice, until none is. If no enabled line is raised when it is called (a
  spurious interrupt), it never returns.
\<close>
theorem irq_dispatch:
  "(alt_irq_handler lines code c = Some c' \<longleftrightarrow> (\<exists>i is. dispatched lines code c (i # is) c')) \<and>
   (fst (alt_irq_pending lines c) = 0 \<longrightarrow> alt_irq_handler lines code c = None)"
proof
  show "fst (alt_irq_pending lines c) = 0 \<longrightarrow> alt_irq_handler lines code c = None"
  proof
    assume "fst (alt_irq_pending lines c) = 0"
    then obtain c1 where p: "alt_irq_pending lines c = (0, c1)" by (cases "alt_irq_pending lines c") auto
    then show "alt_irq_handler lines code c = None"
      using irq_scan_least [of 0] by (simp add: alt_irq_handler_def) (subst irq_loop.simps, simp)
  qed
qed (rule handler_iff_dispatched)

theorem irq_dispatch_witness: "alt_irq_handler clock_lines (clock_isr (\<lambda>_ _ _ w. (0, w))) (clock_cpu 0) = None"
proof -
  have "fst (alt_irq_pending clock_lines (clock_cpu 0)) = 0"
    by (simp add: clock_cpu_def alt_irq_pending_def clock_lines_def cpu_reset_def)
  then show ?thesis using irq_dispatch [of clock_lines _ "clock_cpu 0"] by blast
qed

text \<open>
  C32. The handler returns. If every registered handler, called for its raised line, does some of
  the finitely much outstanding work and leaves the table and the masks alone, then the interrupt
  handler returns, with no enabled line raised at the end and the masks as before.
\<close>
theorem irq_handler_returns:
  assumes "irq_sources lines code ok work table" and "alt_irq c = table" and "ok (devices c)"
    and "fst (alt_irq_pending lines c) \<noteq> 0"
  shows "\<exists>c'. alt_irq_handler lines code c = Some c' \<and> alt_irq c' = table \<and> ienable c' = ienable c \<and>
    (\<exists>d l. ok d \<and> lines d = (l, devices c') \<and> l AND ienable c' = 0)"
  using irq_sources.handler_returns [OF assms] by (simp add: irq_sources.quiet_def [OF assms(1)])

theorem irq_handler_returns_witness:
  "\<exists>c'. alt_irq_handler clock_lines (clock_isr (\<lambda>_ _ _ w. (0, w))) (clock_cpu 3) = Some c' \<and> due (devices c') = 0"
proof -
  from irq_handler_returns [OF clock.irq_sources_axioms clock_cpu_simps(1,2,3), of 3 "\<lambda>_ _ _ w. (0, w)"]
  obtain c' where "alt_irq_handler clock_lines (clock_isr (\<lambda>_ _ _ w. (0, w))) (clock_cpu 3) = Some c'"
    "ienable c' = 2 ^ 5" "clock.quiet c'" unfolding clock.quiet_def clock_cpu_simps(4) by force
  then show ?thesis using clock_quiet by blast
qed

text \<open>
  Registration. For the 32 interrupts there are, the enhanced and the legacy interface do the
  same: they set the entry of the table, enable the interrupt (disable it for a null handler),
  leave every other interrupt as it was and the global enable as they found it. Larger numbers
  are refused with \<open>-EINVAL\<close>, but the enhanced interface reads the number as signed: from
  \<open>2 ^ 31\<close> on it writes in front of the table.
\<close>
theorem isr_registration:
  assumes "length (alt_irq c) = ALT_NIRQ"
  shows "(unat n < 32 \<longrightarrow> (\<exists>c'. alt_ic_isr_register ic_id n isr context c = Some (0, c') \<and>
      alt_irq_register n context isr c = Some (0, c') \<and> registered_isr (unat n) isr context c c' \<and> length (alt_irq c') = ALT_NIRQ)) \<and>
    (32 \<le> unat n \<longrightarrow> alt_irq_register n context isr c = Some (- EINVAL_IRQ, c) \<and>
      alt_ic_isr_register ic_id n isr context c = (if unat n < 2 ^ 31 then Some (- EINVAL_IRQ, c) else None))"
proof (intro conjI impI)
  assume "unat n < 32"
  from register_legacy [OF this] register_enhanced [OF this]
  obtain c' where "alt_ic_isr_register ic_id n isr context c = Some (0, c')"
    "alt_irq_register n context isr c = Some (0, c')" "registered_isr (unat n) isr context c c'" by metis
  then show "\<exists>c'. alt_ic_isr_register ic_id n isr context c = Some (0, c') \<and> alt_irq_register n context isr c = Some (0, c') \<and>
      registered_isr (unat n) isr context c c' \<and> length (alt_irq c') = ALT_NIRQ"
    using assms by (intro exI [of _ c'] conjI) (simp_all add: registered_isr_def)
next
  assume n: "32 \<le> unat n"
  show "alt_irq_register n context isr c = Some (- EINVAL_IRQ, c)" by (rule register_refused(1) [OF n])
  show "alt_ic_isr_register ic_id n isr context c = (if unat n < 2 ^ 31 then Some (- EINVAL_IRQ, c) else None)"
    using register_refused(2) [OF n] register_refused(3) [of n] by (cases "unat n < 2 ^ 31") (simp_all add: not_less)
qed

theorem isr_registration_witness:
  "alt_ic_isr_register 0 0xFFFFFFFF 1 0 (cpu_reset 1 0 ()) = None \<and>
   (\<exists>c'. alt_ic_isr_register 0 5 1 0 (cpu_reset 1 0 ()) = Some (0, c') \<and> bit (ienable c') 5 \<and> \<not> bit (ienable c') 4)"
proof -
  have len: "length (alt_irq (cpu_reset 1 0 ())) = ALT_NIRQ" by (simp add: cpu_reset_def)
  show ?thesis
    using isr_registration [OF len, of "0xFFFFFFFF" 0 1 0] isr_registration [OF len, of 5 0 1 0]
    by (auto simp: registered_isr_def cpu_reset_def)
qed

text \<open>
  C33. Nesting. A handler that makes itself interruptible at its own number lets through exactly
  the active interrupts with smaller numbers, and the matching call restores the masks. But if
  any interrupt is enabled or registered in between, the priority is forgotten: every active
  interrupt gets through again, its own included.
\<close>
theorem nested_priorities:
  assumes "ienable c = alt_irq_active c AND alt_priority_mask c" and "unat p < 32"
  shows "\<exists>c1. alt_irq_interruptible p c = Some (alt_priority_mask c, c1) \<and>
    (\<forall>i. bit (ienable c1) i \<longleftrightarrow> bit (alt_irq_active c) i \<and> i < unat p) \<and> alt_irq_enabled c1 \<noteq> 0 \<and>
    (let c2 = alt_irq_non_interruptible (alt_priority_mask c) c1
     in ienable c2 = ienable c \<and> alt_priority_mask c2 = alt_priority_mask c \<and> alt_irq_active c2 = alt_irq_active c \<and>
        alt_irq_enabled c2 = 0) \<and>
    (\<forall>n < 32. \<exists>c3. alt_ic_irq_enable ic_id (of_nat n) c1 = Some (0, c3) \<and>
      (\<forall>i. bit (ienable c3) i \<longleftrightarrow> i = n \<or> bit (alt_irq_active c) i))"
proof -
  let ?c1 = "c\<lparr>alt_priority_mask := irq_bit p - 1, ienable := alt_irq_active c AND (irq_bit p - 1), status := 1\<rparr>"
  have int: "alt_irq_interruptible p c = Some (alt_priority_mask c, ?c1)"
    using assms(2) by (simp add: alt_irq_interruptible_def Let_def)
  have "\<exists>c3. alt_ic_irq_enable ic_id (of_nat n) ?c1 = Some (0, c3) \<and> (\<forall>i. bit (ienable c3) i \<longleftrightarrow> i = n \<or> bit (alt_irq_active c) i)"
    if "n < 32" for n
  proof -
    have n: "unat (of_nat n :: u32) = n" using that by (simp add: unsigned_of_nat take_bit_nat_eq_self)
    show ?thesis using enable_one [of "of_nat n" ?c1] that unfolding n alt_ic_irq_enable_def by auto
  qed
  then show ?thesis using int assms(1) bit_below [OF assms(2)]
    by (intro exI [of _ ?c1]) (auto simp: alt_irq_non_interruptible_def alt_irq_enabled_def STATUS_PIE_MSK_def Let_def bit_and_iff and.commute)
qed

text \<open>Interrupts 2 and 7 are active; the handler of 5 runs, makes itself interruptible, and enables 9.\<close>

definition busy_cpu :: "unit cpu" where
  "busy_cpu = (cpu_reset 0 0x84 ())\<lparr>alt_irq_active := 0x84\<rparr>"

theorem nested_priorities_witness:
  "\<exists>m c1 c3. alt_irq_interruptible 5 busy_cpu = Some (m, c1) \<and> \<not> bit (ienable c1) 7 \<and>
    bit (ienable c1) 2 \<and> alt_ic_irq_enable 0 (of_nat 9) c1 = Some (0, c3) \<and> bit (ienable c3) 7"
proof -
  have c: "ienable busy_cpu = alt_irq_active busy_cpu AND alt_priority_mask busy_cpu" "unat (5 :: u32) < 32"
    and b: "bit (alt_irq_active busy_cpu) 2" "bit (alt_irq_active busy_cpu) 7" and five: "unat (5 :: u32) = 5"
    by (simp_all add: busy_cpu_def cpu_reset_def bit_iff_odd)
  from nested_priorities [OF c, of 0, unfolded five] obtain c1 where
    "alt_irq_interruptible 5 busy_cpu = Some (alt_priority_mask busy_cpu, c1)"
    "\<forall>i. bit (ienable c1) i \<longleftrightarrow> bit (alt_irq_active busy_cpu) i \<and> i < 5"
    and en: "\<forall>n < 32. \<exists>c3. alt_ic_irq_enable 0 (of_nat n) c1 = Some (0, c3) \<and>
      (\<forall>i. bit (ienable c3) i \<longleftrightarrow> i = n \<or> bit (alt_irq_active busy_cpu) i)" by blast
  moreover obtain c3 where "alt_ic_irq_enable 0 (of_nat 9) c1 = Some (0, c3)" "bit (ienable c3) 7"
    using b(2) spec [OF en, of 9] by auto
  ultimately show ?thesis using b by (intro exI [of _ "alt_priority_mask busy_cpu"] exI [of _ c1] exI [of _ c3]) simp
qed

end
