(* ===== verification/Hal_Printf.thy ===== *)
theory Hal_Printf
  imports Jtag_Uart
begin

text \<open>
  The two printing functions of the HAL: \<open>alt_printf\<close> (\<open>HAL/src/alt_printf.c\<close>), and the logging
  functions of \<open>HAL/src/alt_log_printf.c\<close>, which poll the JTAG UART (the port type of the log when
  logging is enabled). \<open>putc\<close> stands for \<open>alt_putchar\<close>, which is \<open>putchar\<close> of the C library in this
  configuration, and for \<open>alt_log_txchar\<close>; it gets an \<open>int\<close>.

  A format is the list of its bytes before the terminating 0. The variable arguments are a list;
  a call has the value \<open>None\<close> when a directive finds no argument of its type, and when \<open>putc\<close> does
  not return.
\<close>

unbundle bit_operations_syntax

section \<open>Characters and arguments\<close>

datatype arg = Int_arg u32 | Str_arg "u8 list"

type_synonym 's putc = "u32 \<Rightarrow> 's \<Rightarrow> 's option"

text \<open>A \<open>char\<close> is signed.\<close>

definition char_int :: "u8 \<Rightarrow> u32" where "char_int c = scast c"

definition ch :: "char \<Rightarrow> u8" where "ch c = of_char c"

fun int_arg :: "arg list \<Rightarrow> (u32 \<times> arg list) option" where
  "int_arg (Int_arg v # args) = Some (v, args)"
| "int_arg _ = None"

fun str_arg :: "arg list \<Rightarrow> (u8 list \<times> arg list) option" where
  "str_arg (Str_arg s # args) = Some (s, args)"
| "str_arg _ = None"

primrec put_string :: "'s putc \<Rightarrow> u8 list \<Rightarrow> 's \<Rightarrow> 's option" where
  "put_string putc [] s = Some s"
| "put_string putc (c # cs) s = do { s \<leftarrow> putc (char_int c) s; put_string putc cs s }"

section \<open>\<open>alt_printf\<close>\<close>

text \<open>The search for the first non-zero digit, and the digits from there on.\<close>

partial_function (option) hex_first :: "u32 \<Rightarrow> int \<Rightarrow> int option" where
  "hex_first v digit_shift =
    (if digit_shift < 0 then None
     else if v AND push_bit (nat digit_shift) 0xF = 0 then hex_first v (digit_shift - 4)
     else Some digit_shift)"

declare hex_first.simps [code]

function hex_digits :: "'s putc \<Rightarrow> u32 \<Rightarrow> int \<Rightarrow> 's \<Rightarrow> 's option" where
  "hex_digits putc v digit_shift s =
    (if digit_shift \<ge> 0 then
       (let digit = drop_bit (nat digit_shift) (v AND push_bit (nat digit_shift) 0xF);
            c = (if digit \<le> 9 then ucast (char_int (ch CHR ''0'') + digit)
                 else ucast (char_int (ch CHR ''a'') + digit - 10)) :: u8
        in do { s \<leftarrow> putc (char_int c) s; hex_digits putc v (digit_shift - 4) s })
     else Some s)"
  by pat_completeness auto
termination by (relation "measure (\<lambda>(_, _, k, _). nat (k + 4))") auto

declare hex_digits.simps [simp del]

definition print_hex :: "'s putc \<Rightarrow> u32 \<Rightarrow> 's \<Rightarrow> 's option" where
  "print_hex putc v s =
    (if v = 0 then putc (char_int (ch CHR ''0'')) s
     else do { k \<leftarrow> hex_first v 28; hex_digits putc v k s })"

fun alt_printf :: "'s putc \<Rightarrow> u8 list \<Rightarrow> arg list \<Rightarrow> 's \<Rightarrow> 's option" where
  "alt_printf putc [] args s = Some s"
| "alt_printf putc (c # w) args s =
    (if c \<noteq> ch CHR ''%'' then do { s \<leftarrow> putc (char_int c) s; alt_printf putc w args s }
     else case w of
       [] \<Rightarrow> Some s
     | c # w \<Rightarrow>
        (if c = ch CHR ''%'' then do { s \<leftarrow> putc (char_int c) s; alt_printf putc w args s }
         else if c = ch CHR ''c'' then
           do { (v, args) \<leftarrow> int_arg args; s \<leftarrow> putc v s; alt_printf putc w args s }
         else if c = ch CHR ''x'' then
           do { (v, args) \<leftarrow> int_arg args; s \<leftarrow> print_hex putc v s; alt_printf putc w args s }
         else if c = ch CHR ''s'' then
           do { (str, args) \<leftarrow> str_arg args; s \<leftarrow> put_string putc str s; alt_printf putc w args s }
         else alt_printf putc w args s))"

section \<open>The log\<close>

partial_function (option) alt_log_txchar :: "'h jtag_hw \<Rightarrow> u32 \<Rightarrow> 'h \<Rightarrow> 'h option" where
  "alt_log_txchar hw c h =
    (let (control, h) = jt_ctl_rd hw h
     in if control AND CONTROL_WSPACE_MSK = 0 then alt_log_txchar hw c h
        else Some (jt_data_wr hw c h))"

declare alt_log_txchar.simps [code]

function alt_log_repchar :: "'s putc \<Rightarrow> u8 \<Rightarrow> int \<Rightarrow> 's \<Rightarrow> 's option" where
  "alt_log_repchar putc c r s =
    (if r > 0 then do { s \<leftarrow> putc (char_int c) s; alt_log_repchar putc c (r - 1) s } else Some s)"
  by pat_completeness auto
termination by (relation "measure (\<lambda>(_, _, r, _). nat r)") auto

declare alt_log_repchar.simps [simp del]

datatype pf_state = Pf_chars | Pf_first | Pf_other

record pf_vars =
  pfState :: pf_state
  fmtLeadingZero :: bool
  fmtLong :: bool
  fmtBeforeDecimal :: int
  fmtAfterDecimal :: int
  fmtBase :: u32
  fmtSigned :: bool
  fmtCase :: bool

definition pf_init :: pf_vars where
  "pf_init = \<lparr>pfState = Pf_chars, fmtLeadingZero = False, fmtLong = False, fmtBeforeDecimal = 0,
     fmtAfterDecimal = 0, fmtBase = 0, fmtSigned = False, fmtCase = False\<rparr>"

text \<open>Counting the digits, with the place value of the first one.\<close>

partial_function (option) place_value :: "u32 \<Rightarrow> u32 \<Rightarrow> u32 \<Rightarrow> int \<Rightarrow> (u32 \<times> int) option" where
  "place_value fmt_base vShrink p digitCount =
    (let vShrink = vShrink div fmt_base
     in if vShrink > 0 then place_value fmt_base vShrink (p * fmt_base) (digitCount + 1)
        else Some (p, digitCount))"

declare place_value.simps [code]

definition digit_char :: "bool \<Rightarrow> u8 \<Rightarrow> u8" where
  "digit_char upper d =
    (let d = d + ch CHR ''0''
     in if d > ch CHR ''9'' then d + ((if upper then ch CHR ''A'' else ch CHR ''a'') - ch CHR ''0'' - 10) else d)"

partial_function (option) print_digits :: "'s putc \<Rightarrow> u32 \<Rightarrow> bool \<Rightarrow> u32 \<Rightarrow> u32 \<Rightarrow> 's \<Rightarrow> 's option" where
  "print_digits putc fmt_base upper v p s =
    (if p \<noteq> 0 then
       Option.bind (putc (ucast (digit_char upper (ucast (v div p)))) s) (\<lambda>s.
         print_digits putc fmt_base upper (v mod p) (p div fmt_base) s)
     else Some s)"

declare print_digits.simps [code]

text \<open>The code at the label \<open>doIntegerPrint\<close>; \<open>long\<close> and \<open>int\<close> are equally wide.\<close>

definition print_integer :: "'s putc \<Rightarrow> pf_vars \<Rightarrow> arg list \<Rightarrow> 's \<Rightarrow> (pf_vars \<times> arg list \<times> 's) option" where
  "print_integer putc f args s =
    do {
      (v, args) \<leftarrow> int_arg args;
      let (v, sign) = (if fmtSigned f \<and> v AND 0x80000000 \<noteq> 0 then (NOT v + 1, True) else (v, False));
      (p, digitCount) \<leftarrow> place_value (fmtBase f) v 1 1;
      let width = fmtBeforeDecimal f - digitCount;
      (width, s) \<leftarrow>
        (if fmtLeadingZero f then
           do {
             (width, s) \<leftarrow> (if sign then do { s \<leftarrow> putc (char_int (ch CHR ''-'')) s; Some (width - 1, s) }
                              else Some (width, s));
             s \<leftarrow> alt_log_repchar putc (ch CHR ''0'') width s;
             Some (width, s)
           }
         else
           do {
             let width = (if sign then width - 1 else width);
             s \<leftarrow> alt_log_repchar putc (ch CHR '' '') width s;
             s \<leftarrow> (if sign then putc (char_int (ch CHR ''-'')) s else Some s);
             Some (width, s)
           });
      s \<leftarrow> print_digits putc (fmtBase f) (fmtCase f) v p s;
      Some (f\<lparr>fmtBeforeDecimal := width, pfState := Pf_chars\<rparr>, args, s)
    }"

text \<open>The code at the label \<open>otherFmtChar\<close>.\<close>

definition other_char :: "'s putc \<Rightarrow> u8 \<Rightarrow> pf_vars \<Rightarrow> arg list \<Rightarrow> 's \<Rightarrow> (pf_vars \<times> arg list \<times> 's) option" where
  "other_char putc c f args s =
    (if c = ch CHR ''.'' then Some (f\<lparr>fmtAfterDecimal := 0\<rparr>, args, s)
     else if ch CHR ''0'' \<le> c \<and> c \<le> ch CHR ''9'' then
       (let d = int (unat (c - ch CHR ''0''))
        in if fmtAfterDecimal f < 0
           then (let width = (if fmtBeforeDecimal f < 0 then 0 else to_int32 (fmtBeforeDecimal f * 10))
                 in Some (f\<lparr>fmtBeforeDecimal := to_int32 (width + d)\<rparr>, args, s))
           else Some (f\<lparr>fmtAfterDecimal := to_int32 (to_int32 (fmtAfterDecimal f * 10) + d)\<rparr>, args, s))
     else if c = ch CHR ''l'' then Some (f\<lparr>fmtLong := True\<rparr>, args, s)
     else if c = ch CHR ''d'' \<or> c = ch CHR ''i'' then print_integer putc f args s
     else if c = ch CHR ''u'' then print_integer putc (f\<lparr>fmtSigned := False\<rparr>) args s
     else if c = ch CHR ''o'' then print_integer putc (f\<lparr>fmtSigned := False, fmtBase := 8\<rparr>) args s
     else if c = ch CHR ''x'' then print_integer putc (f\<lparr>fmtSigned := False, fmtBase := 16\<rparr>) args s
     else if c = ch CHR ''X'' then print_integer putc (f\<lparr>fmtSigned := False, fmtBase := 16, fmtCase := True\<rparr>) args s
     else if c = ch CHR ''c'' then
       do {
         s \<leftarrow> alt_log_repchar putc (ch CHR '' '') (fmtBeforeDecimal f - 1) s;
         (v, args) \<leftarrow> int_arg args;
         s \<leftarrow> putc v s;
         Some (f\<lparr>pfState := Pf_chars\<rparr>, args, s)
       }
     else if c = ch CHR ''s'' then
       do {
         (str, args) \<leftarrow> str_arg args;
         s \<leftarrow> alt_log_repchar putc (ch CHR '' '') (to_int32 (fmtBeforeDecimal f - int (length str))) s;
         s \<leftarrow> put_string putc str s;
         Some (f\<lparr>pfState := Pf_chars\<rparr>, args, s)
       }
     else Some (f\<lparr>pfState := Pf_chars\<rparr>, args, s))"

definition pf_char :: "'s putc \<Rightarrow> u8 \<Rightarrow> pf_vars \<Rightarrow> arg list \<Rightarrow> 's \<Rightarrow> (pf_vars \<times> arg list \<times> 's) option" where
  "pf_char putc c f args s =
    (case pfState f of
       Pf_chars \<Rightarrow>
         (if c = ch CHR ''%''
          then Some (f\<lparr>fmtLeadingZero := False, fmtLong := False, fmtBase := 10, fmtSigned := True, fmtCase := False,
                       fmtBeforeDecimal := - 1, fmtAfterDecimal := - 1, pfState := Pf_first\<rparr>, args, s)
          else do { s \<leftarrow> putc (char_int c) s; Some (f, args, s) })
     | Pf_first \<Rightarrow>
         (if c = ch CHR ''0'' then Some (f\<lparr>fmtLeadingZero := True, pfState := Pf_other\<rparr>, args, s)
          else if c = ch CHR ''%'' then do { s \<leftarrow> putc (char_int c) s; Some (f\<lparr>pfState := Pf_chars\<rparr>, args, s) }
          else other_char putc c (f\<lparr>pfState := Pf_other\<rparr>) args s)
     | Pf_other \<Rightarrow> other_char putc c f args s)"

primrec pf_loop :: "'s putc \<Rightarrow> u8 list \<Rightarrow> pf_vars \<Rightarrow> arg list \<Rightarrow> 's \<Rightarrow> 's option" where
  "pf_loop putc [] f args s = Some s"
| "pf_loop putc (c # w) f args s = do { (f, args, s) \<leftarrow> pf_char putc c f args s; pf_loop putc w f args s }"

definition alt_log_private_printf :: "'s putc \<Rightarrow> u8 list \<Rightarrow> arg list \<Rightarrow> 's \<Rightarrow> 's option" where
  "alt_log_private_printf putc fmt args s = pf_loop putc fmt pf_init args s"

definition alt_log_printf_proc :: "'h jtag_hw \<Rightarrow> u8 list \<Rightarrow> arg list \<Rightarrow> 'h \<Rightarrow> (int \<times> 'h) option" where
  "alt_log_printf_proc hw fmt args h =
    do { h \<leftarrow> alt_log_private_printf (alt_log_txchar hw) fmt args h; Some (0, h) }"

end
