(* ===== verification/Hal_Format.thy ===== *)
theory Hal_Format
  imports Hal_Printf Jtag_Console
begin

text \<open>
  What a format means. The digits of a number in a base, and the functions of \<open>Hal_Printf\<close> that print
  them; formats as lists of directives, how they are written (\<open>format\<close>) and the characters they print
  (\<open>render\<close>); and the lemma that the state machine of \<open>alt_log_private_printf\<close> prints exactly those
  characters on every well-formed format (\<open>format_loop\<close>). A printed number can be read back
  (\<open>number_text_read\<close>).
\<close>

unbundle bit_operations_syntax

section \<open>Numbers as digits\<close>

text \<open>The digits of a number in base \<open>b\<close>, the most significant first, and back.\<close>

function digits :: "nat \<Rightarrow> nat \<Rightarrow> nat list" where
  "digits b n = (if b < 2 \<or> n < b then [n] else digits b (n div b) @ [n mod b])"
  by pat_completeness auto
termination by (relation "measure snd") auto

declare digits.simps [simp del]

definition number :: "nat \<Rightarrow> nat list \<Rightarrow> nat" where
  "number b = foldl (\<lambda>a d. a * b + d) 0"

lemma number_snoc: "number b (ds @ [d]) = number b ds * b + d"
  by (simp add: number_def)

lemma digits_small: "n < b \<Longrightarrow> digits b n = [n]"
  by (subst digits.simps) simp

lemma digits_step: "2 \<le> b \<Longrightarrow> b \<le> n \<Longrightarrow> digits b n = digits b (n div b) @ [n mod b]"
  by (subst digits.simps) simp

lemma digits_induct [consumes 1, case_names small step]:
  fixes b n :: nat
  assumes "2 \<le> b" and "\<And>n. n < b \<Longrightarrow> P n" and "\<And>n. b \<le> n \<Longrightarrow> 0 < n div b \<Longrightarrow> P (n div b) \<Longrightarrow> P n"
  shows "P n"
proof (induction n rule: less_induct)
  case (less n)
  show ?case
  proof (cases "n < b")
    case False
    then have "n div b < n" "0 < n div b" using assms(1) by (simp_all add: div_less_dividend div_greater_zero_iff)
    then show ?thesis using less False assms(3) by simp
  qed (rule assms(2))
qed

lemma number_digits:
  assumes "2 \<le> b"
  shows "number b (digits b n) = n"
  using assms
proof (induction n rule: digits_induct)
  case (small n)
  then show ?case by (simp add: digits_small number_def)
next
  case (step n)
  then show ?case using assms by (simp add: digits_step [OF assms step(1)] number_snoc)
qed

lemma digits_less:
  assumes "2 \<le> b"
  shows "\<forall>d \<in> set (digits b n). d < b"
  using assms
proof (induction n rule: digits_induct)
  case (step n)
  then show ?case using assms by (auto simp: digits_step [OF assms step(1)])
qed (simp add: digits_small)

lemma digits_nonempty [simp]: "digits b n \<noteq> []"
  by (subst digits.simps) simp

lemma digits_first:
  assumes "2 \<le> b"
  shows "0 < n \<longrightarrow> hd (digits b n) \<noteq> 0"
  using assms
proof (induction n rule: digits_induct)
  case (step n)
  then show ?case using assms by (simp add: digits_step [OF assms step(1)])
qed (simp add: digits_small)

lemma digits_power:
  assumes "2 \<le> b"
  shows "0 < n \<longrightarrow> b ^ (length (digits b n) - 1) \<le> n"
  using assms
proof (induction n rule: digits_induct)
  case (step n)
  then have "b ^ (length (digits b (n div b)) - 1) * b \<le> n" using assms by (simp add: less_eq_div_iff_mult_less_eq)
  then show ?case using step assms digits_nonempty [of b "n div b"]
    by (cases "digits b (n div b)") (simp_all add: digits_step [OF assms step(1)] mult.commute)
qed (simp add: digits_small)

lemma digits_bound:
  assumes "2 \<le> b"
  shows "n < b ^ length (digits b n)"
  using assms
proof (induction n rule: digits_induct)
  case (step n)
  then have "n < b ^ length (digits b (n div b)) * b" using assms by (simp add: div_less_iff_less_mult)
  then show ?case using step assms by (simp add: digits_step [OF assms step(1)] mult.commute)
qed (simp add: digits_small)

text \<open>A fixed number of digits, from the place value \<open>b ^ k\<close> down.\<close>

fun fixed :: "nat \<Rightarrow> nat \<Rightarrow> nat \<Rightarrow> nat list" where
  "fixed b 0 v = [v]"
| "fixed b (Suc k) v = v div b ^ Suc k # fixed b k (v mod b ^ Suc k)"

lemma fixed_snoc: "2 \<le> b \<Longrightarrow> fixed b (Suc k) v = fixed b k (v div b) @ [v mod b]"
proof (induction k arbitrary: v)
  case (Suc k)
  have "v mod b ^ Suc (Suc k) = b * (v div b mod b ^ Suc k) + v mod b"
    using mod_mult2_eq [of v b "b ^ Suc k"] by simp
  then have "v mod b ^ Suc (Suc k) div b = v div b mod b ^ Suc k" "v mod b ^ Suc (Suc k) mod b = v mod b"
    using Suc.prems by simp_all
  moreover have "v div b ^ Suc (Suc k) = v div b div b ^ Suc k" by (simp add: div_mult2_eq)
  ultimately have "fixed b (Suc (Suc k)) v = v div b div b ^ Suc k # fixed b k (v div b mod b ^ Suc k) @ [v mod b]"
    using Suc.IH [OF Suc.prems, of "v mod b ^ Suc (Suc k)"] by (simp only: fixed.simps(2) [of b "Suc k" v])
  then show ?case by (simp only: fixed.simps(2) [of b k "v div b"] append_Cons)
qed simp

lemma fixed_digits:
  assumes "2 \<le> b"
  shows "fixed b (length (digits b n) - 1) n = digits b n"
  using assms
proof (induction n rule: digits_induct)
  case (step n)
  obtain k where k: "length (digits b (n div b)) = Suc k" using digits_nonempty [of b "n div b"] by (cases "digits b (n div b)") auto
  then show ?case using step fixed_snoc [OF assms, of k n] assms by (simp add: digits_step [OF assms step(1)])
qed (simp add: digits_small)

section \<open>Output\<close>

primrec put_all :: "'s putc \<Rightarrow> u32 list \<Rightarrow> 's \<Rightarrow> 's option" where
  "put_all putc [] s = Some s"
| "put_all putc (v # vs) s = do { s \<leftarrow> putc v s; put_all putc vs s }"

lemma put_all_append: "put_all putc (xs @ ys) s = do { s \<leftarrow> put_all putc xs s; put_all putc ys s }"
  by (induction xs arbitrary: s) (simp_all add: Option.bind_assoc)

lemma put_string_all: "put_string putc cs s = put_all putc (map char_int cs) s"
  by (induction cs arbitrary: s) simp_all

lemma repchar_all: "alt_log_repchar putc c r s = put_all putc (replicate (nat r) (char_int c)) s"
proof (induction "nat r" arbitrary: r s)
  case 0
  then show ?case by (subst alt_log_repchar.simps) simp
next
  case (Suc n)
  then have r: "0 < r" "n = nat (r - 1)" "nat r = Suc n" by simp_all
  from Suc.hyps(1) [OF r(2)] have "alt_log_repchar putc c (r - 1) = put_all putc (replicate n (char_int c))" using r(2) by auto
  then show ?case using r by (subst alt_log_repchar.simps) simp
qed

section \<open>The digits the code prints\<close>

lemma unat_of_nat_u32: "n < 2 ^ 32 \<Longrightarrow> unat (of_nat n :: u32) = n"
  by (simp add: unsigned_of_nat take_bit_nat_eq_self)

lemma of_nat_div_u32: "n < 2 ^ 32 \<Longrightarrow> (of_nat n :: u32) div of_nat m = of_nat (n div m)" if "m < 2 ^ 32"
proof -
  assume n: "n < 2 ^ 32"
  have "n div m < 2 ^ 32" by (rule le_less_trans [OF div_le_dividend n])
  then have "unat ((of_nat n :: u32) div of_nat m) = unat (of_nat (n div m) :: u32)"
    using n that by (simp add: unat_div_distrib unat_of_nat_u32)
  then show ?thesis by (simp only: word_unat_eq_iff)
qed

lemma place_value_digits:
  assumes "2 \<le> b" "b < 2 ^ 32"
  shows "place_value (of_nat b) v (of_nat p) k =
    Some (of_nat (p * b ^ (length (digits b (unat v)) - 1)), k + int (length (digits b (unat v)) - 1))"
  using assms(1)
proof (induction "unat v" arbitrary: v p k rule: digits_induct)
  case (small v)
  then have "v div of_nat b = 0" using assms unat_div_distrib [of v "of_nat b"] by (simp add: unat_of_nat_u32 unat_eq_0 [symmetric] del: unat_eq_0)
  then show ?case using small by (subst place_value.simps) (simp add: digits_small)
next
  case (step v)
  have d: "unat (v div of_nat b) = unat v div b" using assms by (simp add: unat_div_distrib unat_of_nat_u32)
  then have "0 < v div of_nat b" using step(2) by (simp add: word_greater_zero_iff unat_eq_0 [symmetric] del: unat_eq_0)
  moreover obtain n where "length (digits b (unat v div b)) = Suc n" using digits_nonempty [of b "unat v div b"] by (cases "digits b (unat v div b)") auto
  moreover have "of_nat p * of_nat b = (of_nat (p * b) :: u32)" by simp
  ultimately show ?case
    using step(3) [of "v div of_nat b" "p * b" "k + 1"] d digits_step [OF assms(1) step(1)]
    by (subst place_value.simps) (simp add: Let_def mult.assoc)
qed

lemma print_digits_end: "print_digits putc fb up v 0 = Some"
  by (rule ext, subst print_digits.simps) simp

lemma print_digits_fixed:
  assumes "2 \<le> b" "b \<le> 16" "b ^ k < 2 ^ 32" "unat v < b ^ Suc k"
  shows "print_digits putc (of_nat b) up v (of_nat (b ^ k)) s =
    put_all putc (map (\<lambda>d. ucast (digit_char up (of_nat d))) (fixed b k (unat v))) s"
  using assms(3,4)
proof (induction k arbitrary: v s)
  case 0
  have "(1 :: u32) div of_nat b = 0"
    using of_nat_div_u32 [of b 1] assms by simp
  moreover have "ucast v = (of_nat (unat v) :: u8)" by simp
  ultimately show ?case using 0
    by (subst print_digits.simps) (simp add: print_digits_end)
next
  case (Suc k)
  let ?p = "of_nat (b ^ Suc k) :: u32"
  have p: "unat ?p = b ^ Suc k" using Suc.prems(1) by (rule unat_of_nat_u32)
  then have nz: "?p \<noteq> 0" using assms(1) by (metis power_not_zero unat_0 not_numeral_le_zero)
  have dv: "unat (v div ?p) = unat v div b ^ Suc k" by (simp only: unat_div_distrib p)
  have md: "unat (v mod ?p) = unat v mod b ^ Suc k" by (simp only: unat_mod_distrib p)
  have "?p div of_nat b = of_nat (b ^ Suc k div b)" using Suc.prems(1) assms(2) by (intro of_nat_div_u32) simp_all
  also have "b ^ Suc k div b = b ^ k" using assms(1) by simp
  finally have next_p: "?p div of_nat b = of_nat (b ^ k)" .
  have "b ^ k \<le> b ^ Suc k" using assms(1) by simp
  then have less: "b ^ k < 2 ^ 32" using Suc.prems(1) by linarith
  have "unat (v mod ?p) < b ^ Suc k" unfolding md using assms(1) by simp
  then have IH: "print_digits putc (of_nat b) up (v mod ?p) (of_nat (b ^ k)) =
      put_all putc (map (\<lambda>d. ucast (digit_char up (of_nat d))) (fixed b k (unat v mod b ^ Suc k)))"
    using Suc.IH [OF less] by (intro ext) (simp only: md)
  have "ucast (v div ?p) = (of_nat (unat v div b ^ Suc k) :: u8)" by (simp only: of_nat_unat flip: dv)
  then show ?case
    by (subst print_digits.simps) (simp only: nz if_True IH next_p md fixed.simps list.map put_all.simps not_False_eq_True simp_thms)
qed

text \<open>The characters of a number, padded to a width (-1 for none).\<close>

definition number_text :: "bool \<Rightarrow> int \<Rightarrow> nat \<Rightarrow> bool \<Rightarrow> bool \<Rightarrow> u32 \<Rightarrow> u8 list" where
  "number_text zero width b sg up v =
    (let neg = sg \<and> 2 ^ 31 \<le> unat v;
         ds = map (\<lambda>d. digit_char up (of_nat d)) (digits b (if neg then 2 ^ 32 - unat v else unat v));
         sign = (if neg then [ch CHR ''-''] else []);
         pad = nat (width - int (length ds + length sign))
     in if zero then sign @ replicate pad (ch CHR ''0'') @ ds else replicate pad (ch CHR '' '') @ sign @ ds)"

lemma ch_simps:
  "ch CHR ''0'' = 48" "ch CHR ''9'' = 57" "ch CHR ''a'' = 97" "ch CHR ''A'' = 65" "ch CHR ''-'' = 45" "ch CHR '' '' = 32"
  "ch CHR ''%'' = 37" "ch CHR ''.'' = 46" "ch CHR ''l'' = 108" "ch CHR ''d'' = 100" "ch CHR ''i'' = 105" "ch CHR ''u'' = 117"
  "ch CHR ''o'' = 111" "ch CHR ''x'' = 120" "ch CHR ''X'' = 88" "ch CHR ''c'' = 99" "ch CHR ''s'' = 115" "ch CHR ''D'' = 68"
  by (simp_all add: ch_def)

text \<open>The sixteen digits are ASCII.\<close>

lemma small_cases: "d < 16 \<Longrightarrow> (\<And>n. n \<in> set [0..<16] \<Longrightarrow> P n) \<Longrightarrow> P d"
  by simp

lemma digit_char_ascii: "d < 16 \<Longrightarrow> char_int (digit_char up (of_nat d)) = ucast (digit_char up (of_nat d))"
  by (erule small_cases) (cases up, auto simp: upt_rec digit_char_def char_int_def ch_simps Let_def)

lemma sign_bit: "v AND 0x80000000 \<noteq> 0 \<longleftrightarrow> 2 ^ 31 \<le> unat (v :: u32)"
proof -
  have "v AND 0x80000000 \<noteq> 0 \<longleftrightarrow> bit v 31"
    using bit_test [of v 31] by simp
  also have "bit v 31 \<longleftrightarrow> bit (unat v) 31" by (simp add: bit_unsigned_iff)
  also have "\<dots> \<longleftrightarrow> odd (unat v div 2 ^ 31)" by (simp only: bit_iff_odd)
  also have "\<dots> \<longleftrightarrow> 2 ^ 31 \<le> unat v"
  proof (cases "2 ^ 31 \<le> unat v")
    case True
    moreover have "unat v < 2 * 2 ^ 31" using unsigned_less [of v, where ?'a = nat] by simp
    ultimately have "unat v div 2 ^ 31 = 1" by (intro div_nat_eqI) simp_all
    then show ?thesis using True by simp
  qed simp
  finally show ?thesis .
qed

lemma magnitude: "2 ^ 31 \<le> unat (v :: u32) \<Longrightarrow> unat (NOT v + 1) = 2 ^ 32 - unat v"
  using unat_sub_if_size [of 0 v] by (simp add: minus_eq_not_plus_1 [symmetric] word_size)

lemma print_value:
  assumes "2 \<le> b" "b \<le> 16"
  shows "place_value (of_nat b) v 1 1 = Some (of_nat (b ^ (length (digits b (unat v)) - 1)), int (length (digits b (unat v))))"
    and "print_digits putc (of_nat b) up v (of_nat (b ^ (length (digits b (unat v)) - 1))) s =
      put_all putc (map char_int (map (\<lambda>d. digit_char up (of_nat d)) (digits b (unat v)))) s"
proof -
  let ?n = "length (digits b (unat v)) - 1"
  have n: "Suc ?n = length (digits b (unat v))" using digits_nonempty [of b "unat v"] by (cases "digits b (unat v)") auto
  show "place_value (of_nat b) v 1 1 = Some (of_nat (b ^ ?n), int (length (digits b (unat v))))"
    using place_value_digits [of b v 1 1] assms n by simp
  have v: "unat v < 2 ^ 32" using unsigned_less [of v, where ?'a = nat] by simp
  have "b ^ ?n < 2 ^ 32"
  proof (cases "unat v = 0")
    case True
    then show ?thesis using assms by (simp add: digits_small)
  next
    case False
    then show ?thesis using digits_power [OF assms(1), of "unat v"] v by (simp add: order.strict_trans1)
  qed
  moreover have "unat v < b ^ Suc ?n" using digits_bound [OF assms(1), of "unat v"] by (simp only: n)
  ultimately have "print_digits putc (of_nat b) up v (of_nat (b ^ ?n)) s =
      put_all putc (map (\<lambda>d. ucast (digit_char up (of_nat d))) (digits b (unat v))) s"
    using print_digits_fixed [OF assms, of ?n v putc up s] by (simp only: fixed_digits [OF assms(1)])
  moreover have "map (\<lambda>d. ucast (digit_char up (of_nat d))) (digits b (unat v)) =
      map char_int (map (\<lambda>d. digit_char up (of_nat d)) (digits b (unat v)))"
    using digits_less [OF assms(1), of "unat v"] assms(2) by (auto simp: digit_char_ascii)
  ultimately show "print_digits putc (of_nat b) up v (of_nat (b ^ ?n)) s =
      put_all putc (map char_int (map (\<lambda>d. digit_char up (of_nat d)) (digits b (unat v)))) s" by (simp only:)
qed

lemma print_integer_text:
  assumes "fmtBase f = of_nat b" "2 \<le> b" "b \<le> 16"
  shows "\<exists>g. (\<forall>v. pfState (g v) = Pf_chars) \<and> (\<forall>args s. print_integer putc f args s =
    do {
      (v, args) \<leftarrow> int_arg args;
      s \<leftarrow> put_all putc (map char_int (number_text (fmtLeadingZero f) (fmtBeforeDecimal f) b (fmtSigned f) (fmtCase f) v)) s;
      Some (g v, args, s)
    })"
proof -
  define neg where "neg v \<longleftrightarrow> fmtSigned f \<and> 2 ^ 31 \<le> unat v" for v :: u32
  define m where "m v = (if neg v then NOT v + 1 else v)" for v
  define g where "g v = f\<lparr>fmtBeforeDecimal := fmtBeforeDecimal f - int (length (digits b (unat (m v)))) - (if neg v then 1 else 0),
    pfState := Pf_chars\<rparr>" for v
  have m: "unat (m v) = (if neg v then 2 ^ 32 - unat v else unat v)" for v
    by (simp add: m_def neg_def magnitude)
  have sign: "(if fmtSigned f \<and> v AND 0x80000000 \<noteq> 0 then (NOT v + 1, True) else (v, False)) = (m v, neg v)" for v
    by (simp add: m_def neg_def sign_bit)
  have "print_integer putc f args s =
    do {
      (v, args) \<leftarrow> int_arg args;
      s \<leftarrow> put_all putc (map char_int (number_text (fmtLeadingZero f) (fmtBeforeDecimal f) b (fmtSigned f) (fmtCase f) v)) s;
      Some (g v, args, s)
    }" for args s
  proof (cases "int_arg args")
    case None
    then show ?thesis by (simp add: print_integer_def)
  next
    case (Some va)
    then obtain v args' where v: "int_arg args = Some (v, args')" by (cases va) auto
    have out: "number_text (fmtLeadingZero f) (fmtBeforeDecimal f) b (fmtSigned f) (fmtCase f) v =
      (let ds = map (\<lambda>d. digit_char (fmtCase f) (of_nat d)) (digits b (unat (m v)));
           sign = (if neg v then [ch CHR ''-''] else []);
           pad = nat (fmtBeforeDecimal f - int (length ds + length sign))
       in if fmtLeadingZero f then sign @ replicate pad (ch CHR ''0'') @ ds else replicate pad (ch CHR '' '') @ sign @ ds)"
      unfolding number_text_def m neg_def Let_def by (rule refl)
    have rhs: "do {
        (v, args) \<leftarrow> int_arg args;
        s \<leftarrow> put_all putc (map char_int (number_text (fmtLeadingZero f) (fmtBeforeDecimal f) b (fmtSigned f) (fmtCase f) v)) s;
        Some (g v, args, s)
      } = do {
        s \<leftarrow> put_all putc (map char_int (number_text (fmtLeadingZero f) (fmtBeforeDecimal f) b (fmtSigned f) (fmtCase f) v)) s;
        Some (g v, args', s)
      }" by (simp add: v)
    show ?thesis
      unfolding rhs out
      by (cases "fmtLeadingZero f"; cases "neg v")
        (simp_all add: print_integer_def v sign print_value(2) [OF assms(2,3), simplified] assms(1) print_value [OF assms(2,3)] repchar_all put_all_append Option.bind_assoc Let_def g_def
          algebra_simps)
  qed
  then show ?thesis by (intro exI [of _ g]) (simp add: g_def)
qed

section \<open>Formats\<close>

text \<open>A format as a list of directives, how they are written, and what they print.\<close>

datatype conversion = Conv_d | Conv_i | Conv_u | Conv_o | Conv_x | Conv_X | Conv_c | Conv_s

datatype directive = Text u8 | Percent | Field bool "nat option" "nat option" nat conversion

fun letter :: "conversion \<Rightarrow> u8" where
  "letter Conv_d = ch CHR ''d''"
| "letter Conv_i = ch CHR ''i''"
| "letter Conv_u = ch CHR ''u''"
| "letter Conv_o = ch CHR ''o''"
| "letter Conv_x = ch CHR ''x''"
| "letter Conv_X = ch CHR ''X''"
| "letter Conv_c = ch CHR ''c''"
| "letter Conv_s = ch CHR ''s''"

definition decimal :: "nat \<Rightarrow> u8 list" where
  "decimal n = map (\<lambda>d. ch CHR ''0'' + of_nat d) (digits 10 n)"

fun unparse :: "directive \<Rightarrow> u8 list" where
  "unparse (Text c) = [c]"
| "unparse Percent = [ch CHR ''%'', ch CHR ''%'']"
| "unparse (Field zero width precision longs conv) =
     ch CHR ''%'' # (if zero then [ch CHR ''0''] else []) @ (case width of None \<Rightarrow> [] | Some n \<Rightarrow> decimal n) @
     (case precision of None \<Rightarrow> [] | Some n \<Rightarrow> ch CHR ''.'' # decimal n) @ replicate longs (ch CHR ''l'') @ [letter conv]"

definition format :: "directive list \<Rightarrow> u8 list" where
  "format ds = concat (map unparse ds)"

fun directive_ok :: "directive \<Rightarrow> bool" where
  "directive_ok (Text c) \<longleftrightarrow> c \<noteq> ch CHR ''%''"
| "directive_ok Percent \<longleftrightarrow> True"
| "directive_ok (Field zero width precision longs conv) \<longleftrightarrow>
     (\<forall>n. width = Some n \<longrightarrow> 0 < n \<and> n < 2 ^ 31) \<and> (\<forall>n. precision = Some n \<longrightarrow> n < 2 ^ 31)"

definition number_field :: "bool \<Rightarrow> int \<Rightarrow> nat \<Rightarrow> bool \<Rightarrow> bool \<Rightarrow> arg list \<Rightarrow> (u32 list \<times> arg list) option" where
  "number_field zero width b sg up args =
    do { (v, args) \<leftarrow> int_arg args; Some (map char_int (number_text zero width b sg up v), args) }"

fun field_out :: "bool \<Rightarrow> int \<Rightarrow> conversion \<Rightarrow> arg list \<Rightarrow> (u32 list \<times> arg list) option" where
  "field_out zero width Conv_d args = number_field zero width 10 True False args"
| "field_out zero width Conv_i args = number_field zero width 10 True False args"
| "field_out zero width Conv_u args = number_field zero width 10 False False args"
| "field_out zero width Conv_o args = number_field zero width 8 False False args"
| "field_out zero width Conv_x args = number_field zero width 16 False False args"
| "field_out zero width Conv_X args = number_field zero width 16 False True args"
| "field_out zero width Conv_c args =
     do { (v, args) \<leftarrow> int_arg args; Some (replicate (nat (width - 1)) (char_int (ch CHR '' '')) @ [v], args) }"
| "field_out zero width Conv_s args =
     do {
       (str, args) \<leftarrow> str_arg args;
       Some (replicate (nat (width - int (length str))) (char_int (ch CHR '' '')) @ map char_int str, args)
     }"

fun directive_out :: "directive \<Rightarrow> arg list \<Rightarrow> (u32 list \<times> arg list) option" where
  "directive_out (Text c) args = Some ([char_int c], args)"
| "directive_out Percent args = Some ([char_int (ch CHR ''%'')], args)"
| "directive_out (Field zero width precision longs conv) args =
     field_out zero (case width of None \<Rightarrow> - 1 | Some n \<Rightarrow> int n) conv args"

text \<open>The output of a whole format; \<open>None\<close> if an argument is missing or of the wrong type.\<close>

fun render :: "directive list \<Rightarrow> arg list \<Rightarrow> u32 list option" where
  "render [] args = Some []"
| "render (d # ds) args =
     do { (out, args) \<leftarrow> directive_out d args; rest \<leftarrow> render ds args; Some (out @ rest) }"

fun arg_ok :: "arg \<Rightarrow> bool" where
  "arg_ok (Int_arg v) \<longleftrightarrow> True"
| "arg_ok (Str_arg s) \<longleftrightarrow> length s < 2 ^ 31"

section \<open>The state machine\<close>

text \<open>After a percent sign all variables are set, whatever they were.\<close>

definition pf_start :: pf_vars where
  "pf_start = \<lparr>pfState = Pf_first, fmtLeadingZero = False, fmtLong = False, fmtBeforeDecimal = - 1,
     fmtAfterDecimal = - 1, fmtBase = 10, fmtSigned = True, fmtCase = False\<rparr>"

lemma pf_chars_step:
  assumes "pfState f = Pf_chars"
  shows "pf_char putc c f args s =
    (if c = ch CHR ''%'' then Some (pf_start, args, s) else do { s \<leftarrow> putc (char_int c) s; Some (f, args, s) })"
proof -
  have "f\<lparr>fmtLeadingZero := False, fmtLong := False, fmtBase := 10, fmtSigned := True, fmtCase := False,
      fmtBeforeDecimal := - 1, fmtAfterDecimal := - 1, pfState := Pf_first\<rparr> = pf_start"
    by (cases f) (simp add: pf_start_def)
  then show ?thesis using assms by (simp add: pf_char_def)
qed

lemma pf_loop_chars:
  assumes "pfState f = Pf_chars"
  shows "pf_loop putc w f args s = pf_loop putc w pf_init args s"
  using assms
proof (induction w arbitrary: f args s)
  case (Cons c w)
  have "pf_loop putc w f args = pf_loop putc w pf_init args" for args
    using Cons by blast
  moreover have "pfState pf_init = Pf_chars" by (simp add: pf_init_def)
  ultimately show ?case using Cons.prems by (simp add: pf_chars_step Option.bind_assoc)
qed simp

lemma digit_less:
  assumes "d < 10"
  shows "(48 :: u8) \<le> 48 + of_nat d" "48 + of_nat d \<le> (57 :: u8)" "unat (of_nat d :: u8) = d"
    "48 + of_nat d \<noteq> (46 :: u8)" "48 + of_nat d \<noteq> (37 :: u8)" "0 < d \<Longrightarrow> 48 + of_nat d \<noteq> (48 :: u8)"
proof -
  have "d \<in> {0, 1, 2, 3, 4, 5, 6, 7, 8, 9}" using assms by auto
  then show "(48 :: u8) \<le> 48 + of_nat d" "48 + of_nat d \<le> (57 :: u8)" "unat (of_nat d :: u8) = d"
    "48 + of_nat d \<noteq> (46 :: u8)" "48 + of_nat d \<noteq> (37 :: u8)" "0 < d \<Longrightarrow> 48 + of_nat d \<noteq> (48 :: u8)" by auto
qed

lemma width_digits:
  assumes "pfState f = Pf_other" "fmtAfterDecimal f < 0" "fmtBeforeDecimal f < 0" "n < 2 ^ 31"
  shows "pf_loop putc (decimal n @ w) f args s = pf_loop putc w (f\<lparr>fmtBeforeDecimal := int n\<rparr>) args s"
proof -
  have "2 \<le> (10 :: nat)" by simp
  then show ?thesis using assms(4)
  proof (induction n arbitrary: w rule: digits_induct)
    case (small n)
    then show ?case using digit_less [of n] assms
      by (simp add: decimal_def digits_small pf_char_def other_char_def ch_simps to_int32_id)
  next
    case (step n)
    have n: "n div 10 < 2 ^ 31" "int n = int (n div 10) * 10 + int (n mod 10)"
      using step(4) div_mult_mod_eq [of n 10] by (simp, presburger)
    have "to_int32 (int (n div 10) * 10) = int (n div 10) * 10" "to_int32 (int n) = int n"
      using step(4) n by (intro to_int32_id; simp)+
    then show ?case using digit_less [of "n mod 10"] assms step(3) [OF n(1)] n(2)
      by (simp add: decimal_def digits_step [OF _ step(1)] pf_char_def other_char_def ch_simps)
  qed
qed

lemma precision_digits:
  assumes "pfState f = Pf_other" "fmtAfterDecimal f = 0" "n < 2 ^ 31"
  shows "pf_loop putc (decimal n @ w) f args s = pf_loop putc w (f\<lparr>fmtAfterDecimal := int n\<rparr>) args s"
proof -
  have "2 \<le> (10 :: nat)" by simp
  then show ?thesis using assms(3)
  proof (induction n arbitrary: w rule: digits_induct)
    case (small n)
    then show ?case using digit_less [of n] assms
      by (simp add: decimal_def digits_small pf_char_def other_char_def ch_simps to_int32_id)
  next
    case (step n)
    have n: "n div 10 < 2 ^ 31" "int n = int (n div 10) * 10 + int (n mod 10)"
      using step(4) div_mult_mod_eq [of n 10] by (simp, presburger)
    have "to_int32 (int (n div 10) * 10) = int (n div 10) * 10" "to_int32 (int n) = int n"
      using step(4) n by (intro to_int32_id; simp)+
    then show ?case using digit_less [of "n mod 10"] assms step(3) [OF n(1)] n(2)
      by (simp add: decimal_def digits_step [OF _ step(1)] pf_char_def other_char_def ch_simps)
  qed
qed

lemma first_other:
  assumes "pfState f = Pf_first" "c \<noteq> ch CHR ''0''" "c \<noteq> ch CHR ''%''"
  shows "pf_loop putc (c # w) f args s = pf_loop putc (c # w) (f\<lparr>pfState := Pf_other\<rparr>) args s"
  using assms by (simp add: pf_char_def)

lemma longs_skipped:
  assumes "pfState f = Pf_other"
  shows "pf_loop putc (replicate k (ch CHR ''l'') @ w) f args s = pf_loop putc w (if k = 0 then f else f\<lparr>fmtLong := True\<rparr>) args s"
  using assms
proof (induction k arbitrary: f)
  case (Suc k)
  then show ?case by (simp add: pf_char_def other_char_def ch_simps)
qed simp

lemma number_letter:
  assumes "fmtBase f = of_nat b" "2 \<le> b" "b \<le> 16"
  shows "do { (f, args, s) \<leftarrow> print_integer putc f args s; pf_loop putc w f args s } =
    do { (out, args) \<leftarrow> number_field (fmtLeadingZero f) (fmtBeforeDecimal f) b (fmtSigned f) (fmtCase f) args;
         s \<leftarrow> put_all putc out s; pf_loop putc w pf_init args s }"
proof -
  obtain g where g: "\<forall>v. pfState (g v) = Pf_chars" and p: "\<forall>args s. print_integer putc f args s =
    do {
      (v, args) \<leftarrow> int_arg args;
      s \<leftarrow> put_all putc (map char_int (number_text (fmtLeadingZero f) (fmtBeforeDecimal f) b (fmtSigned f) (fmtCase f) v)) s;
      Some (g v, args, s)
    }" using print_integer_text [OF assms] by blast
  have after: "pf_loop putc w (g v) args = pf_loop putc w pf_init args" for v args
    by (rule ext, rule pf_loop_chars) (use g in simp)
  show ?thesis
  proof (cases "int_arg args")
    case None
    then show ?thesis using p by (simp add: number_field_def)
  next
    case (Some va)
    then obtain v args' where v: "int_arg args = Some (v, args')" by (cases va) auto
    show ?thesis unfolding p [rule_format] number_field_def v by (simp add: after Option.bind_assoc)
  qed
qed

lemma letter_out:
  assumes "pfState f = Pf_other" "fmtBase f = 10" "fmtSigned f" "\<not> fmtCase f" "- 1 \<le> fmtBeforeDecimal f"
    "fmtBeforeDecimal f < 2 ^ 31" "list_all arg_ok args"
  shows "pf_loop putc (letter conv # w) f args s =
    do { (out, args) \<leftarrow> field_out (fmtLeadingZero f) (fmtBeforeDecimal f) conv args;
         s \<leftarrow> put_all putc out s; pf_loop putc w pf_init args s }"
proof -
  have after: "pf_loop putc w (f\<lparr>pfState := Pf_chars\<rparr>) args = pf_loop putc w pf_init args" for args
    by (rule ext, rule pf_loop_chars) simp
  have num: "do { (f, args, s) \<leftarrow> print_integer putc f' args s; pf_loop putc w f args s } =
      do { (out, args) \<leftarrow> number_field (fmtLeadingZero f') (fmtBeforeDecimal f') b (fmtSigned f') (fmtCase f') args;
         s \<leftarrow> put_all putc out s; pf_loop putc w pf_init args s }"
    if "fmtBase f' = of_nat b" "b = 8 \<or> b = 10 \<or> b = 16" for f' b
    using that by (intro number_letter) auto
  have width: "to_int32 (fmtBeforeDecimal f - int (length str)) = fmtBeforeDecimal f - int (length str)"
    if "str_arg args = Some (str, args')" for str args'
  proof (rule to_int32_id)
    have "length str < 2 ^ 31" using that assms(7) by (cases args rule: str_arg.cases) auto
    then show "- (2 ^ 31) \<le> fmtBeforeDecimal f - int (length str)" "fmtBeforeDecimal f - int (length str) < 2 ^ 31"
      using assms(5,6) by simp_all
  qed
  show ?thesis
  proof (cases conv)
    case Conv_c
    then show ?thesis using assms(1)
      by (cases "int_arg args")
        (auto simp: pf_char_def other_char_def ch_simps repchar_all put_all_append Option.bind_assoc after)
  next
    case Conv_s
    then show ?thesis using assms(1)
      by (cases "str_arg args")
        (auto simp: pf_char_def other_char_def ch_simps repchar_all put_all_append put_string_all Option.bind_assoc after width)
  qed (use assms(1-4) num [of _ 10] num [of _ 8] num [of _ 16] in \<open>simp_all add: pf_char_def other_char_def ch_simps\<close>)
qed

text \<open>One field, after its percent sign.\<close>

lemma precision_part:
  assumes "pfState f = Pf_other" "fmtAfterDecimal f < 0" "\<forall>n. precision = Some n \<longrightarrow> n < 2 ^ 31"
  shows "\<exists>k. pf_loop putc ((case precision of None \<Rightarrow> [] | Some n \<Rightarrow> ch CHR ''.'' # decimal n) @ w) f args s =
    pf_loop putc w (f\<lparr>fmtAfterDecimal := k\<rparr>) args s"
proof (cases precision)
  case None
  then show ?thesis by (intro exI [of _ "fmtAfterDecimal f"]) simp
next
  case (Some n)
  then have "pf_loop putc (decimal n @ w) (f\<lparr>fmtAfterDecimal := 0\<rparr>) args s =
      pf_loop putc w (f\<lparr>fmtAfterDecimal := int n\<rparr>) args s"
    using precision_digits [of "f\<lparr>fmtAfterDecimal := 0\<rparr>" n] assms by simp
  then show ?thesis using Some assms(1) by (auto simp: pf_char_def other_char_def)
qed

lemma width_part:
  assumes "pfState f = Pf_other" "fmtAfterDecimal f < 0" "fmtBeforeDecimal f = - 1" "\<forall>n. width = Some n \<longrightarrow> n < 2 ^ 31"
  shows "pf_loop putc ((case width of None \<Rightarrow> [] | Some n \<Rightarrow> decimal n) @ w) f args s =
    pf_loop putc w (f\<lparr>fmtBeforeDecimal := case width of None \<Rightarrow> - 1 | Some n \<Rightarrow> int n\<rparr>) args s"
proof (cases width)
  case None
  then show ?thesis using assms(3) by (cases f) simp
next
  case (Some n)
  then show ?thesis using width_digits [OF assms(1,2)] assms(3,4) by simp
qed

lemma zero_part:
  fixes width precision :: "nat option" and longs :: nat and conv :: conversion and w :: "u8 list"
  assumes "\<forall>n. width = Some n \<longrightarrow> 0 < n"
  defines "rest \<equiv> (case width of None \<Rightarrow> [] | Some n \<Rightarrow> decimal n) @
    (case precision of None \<Rightarrow> [] | Some n \<Rightarrow> ch CHR ''.'' # decimal n) @ replicate longs (ch CHR ''l'') @ [letter conv] @ w"
  shows "pf_loop putc ((if zero then [ch CHR ''0''] else []) @ rest) pf_start args s =
    pf_loop putc rest (pf_start\<lparr>fmtLeadingZero := zero, pfState := Pf_other\<rparr>) args s"
proof (cases zero)
  case True
  then show ?thesis by (simp add: pf_start_def pf_char_def)
next
  case False
  have l: "letter conv \<noteq> ch CHR ''0''" "letter conv \<noteq> ch CHR ''%''" for conv by (cases conv; simp add: ch_simps)+
  have d: "hd (decimal n) \<noteq> ch CHR ''0'' \<and> hd (decimal n) \<noteq> ch CHR ''%''" if "0 < n" for n
  proof -
    have "hd (digits 10 n) < 10" using digits_less [of 10 n] hd_in_set [OF digits_nonempty] by simp
    moreover have "0 < hd (digits 10 n)" using digits_first [of 10 n] that by simp
    ultimately show ?thesis using digit_less [of "hd (digits 10 n)"] by (simp add: decimal_def hd_map ch_simps)
  qed
  have "decimal n \<noteq> []" for n by (simp add: decimal_def)
  then have "rest = hd rest # tl rest" "hd rest \<noteq> ch CHR ''0''" "hd rest \<noteq> ch CHR ''%''"
    using assms(1) d l unfolding rest_def
    by (cases width; cases precision; cases longs; auto simp: hd_append ch_simps neq_Nil_conv)+
  then obtain c cs where "rest = c # cs" "c \<noteq> ch CHR ''0''" "c \<noteq> ch CHR ''%''" by metis
  then show ?thesis using False first_other [of pf_start c] by (simp add: pf_start_def)
qed

lemma field_loop:
  assumes "directive_ok (Field zero width precision longs conv)" "list_all arg_ok args" "pfState f = Pf_chars"
  shows "pf_loop putc (unparse (Field zero width precision longs conv) @ w) f args s =
    do { (out, args) \<leftarrow> directive_out (Field zero width precision longs conv) args;
         s \<leftarrow> put_all putc out s; pf_loop putc w pf_init args s }"
proof -
  let ?b = "case width of None \<Rightarrow> - 1 | Some n \<Rightarrow> int n"
  let ?f = "pf_start\<lparr>fmtLeadingZero := zero, pfState := Pf_other\<rparr>"
  let ?l = "replicate longs (ch CHR ''l'') @ [letter conv] @ w"
  have ok: "\<forall>n. width = Some n \<longrightarrow> 0 < n" "\<forall>n. width = Some n \<longrightarrow> n < 2 ^ 31" "\<forall>n. precision = Some n \<longrightarrow> n < 2 ^ 31"
    using assms(1) by auto
  obtain k where k: "pf_loop putc ((case precision of None \<Rightarrow> [] | Some n \<Rightarrow> ch CHR ''.'' # decimal n) @ ?l)
      (?f\<lparr>fmtBeforeDecimal := ?b\<rparr>) args s = pf_loop putc ?l (?f\<lparr>fmtBeforeDecimal := ?b, fmtAfterDecimal := k\<rparr>) args s"
    using precision_part [of "?f\<lparr>fmtBeforeDecimal := ?b\<rparr>" precision putc ?l args s] ok(3) by (auto simp: pf_start_def)
  let ?g = "?f\<lparr>fmtBeforeDecimal := ?b, fmtAfterDecimal := k\<rparr>"
  let ?h = "if longs = 0 then ?g else ?g\<lparr>fmtLong := True\<rparr>"
  have "pf_loop putc (unparse (Field zero width precision longs conv) @ w) f args s = pf_loop putc ([letter conv] @ w) ?h args s"
    using zero_part [OF ok(1), of putc zero precision longs conv w args s] width_part [of ?f width putc _ args s] k ok(2)
      longs_skipped [of ?g putc longs "[letter conv] @ w" args s] assms(3)
    by (simp add: pf_chars_step pf_start_def)
  also have "\<dots> = do { (out, args) \<leftarrow> field_out zero ?b conv args; s \<leftarrow> put_all putc out s; pf_loop putc w pf_init args s }"
    using letter_out [of ?h args putc conv w s] ok(2) assms(2) by (auto simp: pf_start_def split: option.splits)
  finally show ?thesis by simp
qed

lemma directive_args: "directive_out d args = Some (out, args') \<Longrightarrow> list_all arg_ok args \<Longrightarrow> list_all arg_ok args'"
proof -
  have "int_arg args = Some (v, args') \<Longrightarrow> list_all arg_ok args \<Longrightarrow> list_all arg_ok args'" for v args args'
    by (cases args rule: int_arg.cases) auto
  moreover have "str_arg args = Some (v, args') \<Longrightarrow> list_all arg_ok args \<Longrightarrow> list_all arg_ok args'" for v args args'
    by (cases args rule: str_arg.cases) auto
  ultimately show "directive_out d args = Some (out, args') \<Longrightarrow> list_all arg_ok args \<Longrightarrow> list_all arg_ok args'"
    by (cases "(d, args)" rule: directive_out.cases; cases "case d of Field _ _ _ _ cv \<Rightarrow> cv | _ \<Rightarrow> Conv_d")
      (auto simp: number_field_def bind_eq_Some_conv split: directive.splits)
qed

lemma format_loop:
  assumes "list_all directive_ok ds" "list_all arg_ok args"
  shows "alt_log_private_printf putc (format ds) args s = do { out \<leftarrow> render ds args; put_all putc out s }"
  using assms unfolding alt_log_private_printf_def
proof (induction ds arbitrary: args s)
  case Nil
  then show ?case by (simp add: format_def)
next
  case (Cons d ds)
  have "pf_loop putc (unparse d @ format ds) pf_init args s =
    do { (out, args) \<leftarrow> directive_out d args; s \<leftarrow> put_all putc out s; pf_loop putc (format ds) pf_init args s }"
  proof (cases d)
    case (Field zero width precision longs conv)
    then show ?thesis using field_loop [of zero width precision longs conv args pf_init putc "format ds" s] Cons.prems
      by (simp add: pf_init_def del: unparse.simps directive_out.simps)
  next
    case (Text c)
    then show ?thesis using Cons.prems by (simp add: pf_chars_step pf_init_def)
  next
    case Percent
    have "pf_char putc (ch CHR ''%'') pf_start args s =
        do { s \<leftarrow> putc (char_int (ch CHR ''%'')) s; Some (pf_start\<lparr>pfState := Pf_chars\<rparr>, args, s) }"
      by (simp add: pf_char_def pf_start_def ch_simps)
    moreover have "pf_loop putc (format ds) (pf_start\<lparr>pfState := Pf_chars\<rparr>) args = pf_loop putc (format ds) pf_init args"
      by (rule ext, rule pf_loop_chars) simp
    moreover have "pfState pf_init = Pf_chars" by (simp add: pf_init_def)
    ultimately show ?thesis using Percent by (simp add: pf_chars_step Option.bind_assoc)
  qed
  then have step: "pf_loop putc (format (d # ds)) pf_init args s =
    do { (out, args) \<leftarrow> directive_out d args; s \<leftarrow> put_all putc out s; pf_loop putc (format ds) pf_init args s }"
    by (simp add: format_def)
  show ?case
  proof (cases "directive_out d args")
    case None
    then show ?thesis by (simp add: step)
  next
    case (Some r)
    then obtain out args' where d: "directive_out d args = Some (out, args')" by (cases r) auto
    have IH: "pf_loop putc (format ds) pf_init args' = (\<lambda>s. do { out \<leftarrow> render ds args'; put_all putc out s })"
      using Cons directive_args [OF d] by (intro ext) simp
    show ?thesis unfolding step by (cases "render ds args'"; cases "put_all putc out s") (simp_all add: d IH put_all_append)
  qed
qed

section \<open>Reading numbers back\<close>

definition digit_value :: "u8 \<Rightarrow> nat" where
  "digit_value c = (if c \<le> ch CHR ''9'' then unat (c - ch CHR ''0'')
    else if c < ch CHR ''a'' then unat (c - ch CHR ''A'') + 10 else unat (c - ch CHR ''a'') + 10)"

definition read_number :: "nat \<Rightarrow> u8 list \<Rightarrow> int" where
  "read_number b t =
    (case dropWhile (\<lambda>c. c = ch CHR '' '') t of
       [] \<Rightarrow> 0
     | c # cs \<Rightarrow> if c = ch CHR ''-'' then - int (number b (map digit_value cs)) else int (number b (map digit_value (c # cs))))"

lemma digit_value_char:
  assumes "d < 16"
  shows "digit_value (digit_char up (of_nat d)) = d" "digit_char up (of_nat d) \<noteq> ch CHR '' ''"
    "digit_char up (of_nat d) \<noteq> ch CHR ''-''"
proof -
  have "d \<in> {0, 1, 2, 3, 4, 5, 6, 7, 8, 9, 10, 11, 12, 13, 14, 15}" using assms by simp presburger
  then show "digit_value (digit_char up (of_nat d)) = d" "digit_char up (of_nat d) \<noteq> ch CHR '' ''"
    "digit_char up (of_nat d) \<noteq> ch CHR ''-''"
    by (cases up; auto simp: digit_char_def digit_value_def ch_simps)+
qed

lemma number_zeros: "number b (replicate k 0 @ ds) = number b ds"
  by (induction k) (simp_all add: number_def)

lemma drop_spaces: "dropWhile (\<lambda>c. c = x) (replicate k x @ ys) = dropWhile (\<lambda>c. c = x) ys"
  by (induction k) simp_all

lemma magnitude_value:
  assumes "2 ^ 31 \<le> unat (v :: u32)"
  shows "- int (2 ^ 32 - unat v) = sint v"
proof -
  have "unat v < 2 ^ 32" using unsigned_less [of v, where ?'a = nat] by simp
  then show ?thesis using assms by (simp add: sint_u32 of_nat_diff)
qed

lemma number_text_read:
  assumes "2 \<le> b" "b \<le> 16"
  shows "read_number b (number_text zero width b sg up v) = (if sg then sint v else uint v)"
proof -
  define neg where "neg \<longleftrightarrow> sg \<and> 2 ^ 31 \<le> unat v"
  define m where "m = (if neg then 2 ^ 32 - unat v else unat v)"
  define ds where "ds = map (\<lambda>d. digit_char up (of_nat d)) (digits b m)"
  let ?sign = "if neg then [ch CHR ''-''] else []"
  have small: "\<forall>d \<in> set (digits b m). d < 16" using digits_less [OF assms(1), of m] assms(2) by auto
  then have restored: "map digit_value ds = digits b m"
    by (auto simp: ds_def digit_value_char intro!: map_idI)
  have plain: "\<forall>c \<in> set ds. c \<noteq> ch CHR '' '' \<and> c \<noteq> ch CHR ''-''" using small by (auto simp: ds_def digit_value_char)
  obtain c cs where c: "ds = c # cs" by (cases ds) (auto simp: ds_def)
  have zero0: "digit_value (ch CHR ''0'') = 0" by (simp add: digit_value_def ch_simps)
  have number_ds: "number b (map digit_value (replicate k (ch CHR ''0'') @ ds)) = m" for k
    by (simp add: zero0 number_zeros restored number_digits [OF assms(1)])
  have shape: "number_text zero width b sg up v =
    (if zero then ?sign @ replicate (nat (width - int (length ds + length ?sign))) (ch CHR ''0'') @ ds
     else replicate (nat (width - int (length ds + length ?sign))) (ch CHR '' '') @ ?sign @ ds)"
    unfolding number_text_def Let_def neg_def ds_def m_def by (rule refl)
  have read: "read_number b (?sign @ replicate k (ch CHR ''0'') @ ds) = (if neg then - int m else int m)" for k
  proof (cases neg)
    case True
    then show ?thesis using number_ds [of k] by (simp add: read_number_def ch_simps)
  next
    case False
    then show ?thesis using number_ds [of k] plain c by (cases k) (simp_all add: read_number_def ch_simps)
  qed
  have "read_number b (number_text zero width b sg up v) = (if neg then - int m else int m)"
  proof (cases zero)
    case False
    then have "read_number b (number_text zero width b sg up v) = read_number b (?sign @ ds)"
      unfolding shape read_number_def by (simp add: drop_spaces)
    then show ?thesis using read [of 0] by simp
  next
    case True
    then show ?thesis using shape read by simp
  qed
  also have "\<dots> = (if sg then sint v else uint v)"
    using magnitude_value [of v] by (auto simp: neg_def m_def sint_u32)
  finally show ?thesis .
qed

lemma number_text_length:
  "length (number_text zero width b sg up v) =
    (let n = length (digits b (if sg \<and> 2 ^ 31 \<le> unat v then 2 ^ 32 - unat v else unat v)) + (if sg \<and> 2 ^ 31 \<le> unat v then 1 else 0)
     in max n (nat width))"
  by (auto simp: number_text_def Let_def)

end
