(* ===== verification/Hal_Log.thy ===== *)
theory Hal_Log
  imports Hal_Printf Hal_Time
begin

text \<open>
  The users of the log (\<open>HAL/src/alt_log_printf.c\<close>, from line 353): the report of the JTAG UART's
  control register, the echo of \<open>write\<close>, and the sign of life of the system clock, for the
  small UART driver.
\<close>

unbundle bit_operations_syntax

definition ALT_LOG_WRITE_ECHO_LEN :: nat where "ALT_LOG_WRITE_ECHO_LEN = 15"
definition ALT_LOG_JTAG_UART_TICKS_DIVISOR :: u32 where "ALT_LOG_JTAG_UART_TICKS_DIVISOR = 10"
definition ALT_LOG_SYS_CLK_INTERVAL_MULTIPLIER :: u32 where "ALT_LOG_SYS_CLK_INTERVAL_MULTIPLIER = 1"

text \<open>The settings of the flags for a value of \<open>ALT_LOG_FLAGS\<close> (0 when it is not defined), with a JTAG UART.\<close>

definition ALT_LOG_BOOT_ON_FLAG_SETTING :: "int \<Rightarrow> u32" where
  "ALT_LOG_BOOT_ON_FLAG_SETTING level =
    (if level = 1 then 1 else if level = 2 then 1 else if level = 3 then 1
     else if level = - 1 then 0 else 1)"

definition ALT_LOG_SYS_CLK_ON_FLAG_SETTING :: "int \<Rightarrow> u8" where
  "ALT_LOG_SYS_CLK_ON_FLAG_SETTING level =
    (if level = 1 then 1 else if level = 2 then 1 else if level = 3 then 1
     else if level = - 1 then 0 else 0)"

definition ALT_LOG_WRITE_ON_FLAG_SETTING :: "int \<Rightarrow> u8" where
  "ALT_LOG_WRITE_ON_FLAG_SETTING level =
    (if level = 1 then 0 else if level = 2 then 1 else if level = 3 then 1
     else if level = - 1 then 0 else 0)"

definition ALT_LOG_JTAG_UART_ALARM_ON_FLAG_SETTING :: "int \<Rightarrow> u8" where
  "ALT_LOG_JTAG_UART_ALARM_ON_FLAG_SETTING level =
    (if level = 1 then 0 else if level = 2 then 1 else if level = 3 then 1
     else if level = - 1 then 0 else 0)"

definition ALT_LOG_JTAG_UART_STARTUP_INFO_ON_FLAG_SETTING :: "int \<Rightarrow> u8" where
  "ALT_LOG_JTAG_UART_STARTUP_INFO_ON_FLAG_SETTING level =
    (if level = 1 then 1 else if level = 2 then 1 else if level = 3 then 1
     else if level = - 1 then 0 else 0)"

definition ALT_LOG_JTAG_UART_ISR_ON_FLAG_SETTING :: "int \<Rightarrow> u8" where
  "ALT_LOG_JTAG_UART_ISR_ON_FLAG_SETTING level =
    (if level = 1 then 0 else if level = 2 then 0 else if level = 3 then 1
     else if level = - 1 then 0 else 0)"

record log_vars =
  alt_log_write_buf :: "u8 list"
  alt_log_boot_on_flag :: u32
  alt_log_write_on_flag :: u8
  alt_log_sys_clk_on_flag :: u8
  alt_log_jtag_uart_alarm_on_flag :: u8
  alt_log_jtag_uart_isr_on_flag :: u8
  alt_log_jtag_uart_startup_info_on_flag :: u8
  alt_log_sys_clk_count :: u32
  alt_system_clock_in_sec :: u32

definition log_init :: "int \<Rightarrow> log_vars" where
  "log_init level = \<lparr>alt_log_write_buf = replicate (ALT_LOG_WRITE_ECHO_LEN + 2) 0,
     alt_log_boot_on_flag = ALT_LOG_BOOT_ON_FLAG_SETTING level,
     alt_log_write_on_flag = ALT_LOG_WRITE_ON_FLAG_SETTING level,
     alt_log_sys_clk_on_flag = ALT_LOG_SYS_CLK_ON_FLAG_SETTING level,
     alt_log_jtag_uart_alarm_on_flag = ALT_LOG_JTAG_UART_ALARM_ON_FLAG_SETTING level,
     alt_log_jtag_uart_isr_on_flag = ALT_LOG_JTAG_UART_ISR_ON_FLAG_SETTING level,
     alt_log_jtag_uart_startup_info_on_flag = ALT_LOG_JTAG_UART_STARTUP_INFO_ON_FLAG_SETTING level,
     alt_log_sys_clk_count = 0, alt_system_clock_in_sec = 0\<rparr>"

definition ALT_LOG_PRINT_BOOT :: "'h jtag_hw \<Rightarrow> u8 list \<Rightarrow> arg list \<Rightarrow> log_vars \<Rightarrow> 'h \<Rightarrow> 'h option" where
  "ALT_LOG_PRINT_BOOT hw fmt args l h =
    (if alt_log_boot_on_flag l = 1 then do { (_, h) \<leftarrow> alt_log_printf_proc hw fmt args h; Some h } else Some h)"

definition c_string :: "string \<Rightarrow> u8 list" where "c_string = List.map ch"

definition CRLF :: "u8 list" where "CRLF = [13, 10]"

section \<open>The JTAG UART\<close>

definition control_fields :: "u32 \<Rightarrow> u32 list" where
  "control_fields control =
    [drop_bit CONTROL_WSPACE_OFST (control AND CONTROL_WSPACE_MSK),
     drop_bit 10 (control AND CONTROL_AC_MSK), drop_bit 9 (control AND CONTROL_WI_MSK),
     drop_bit 8 (control AND CONTROL_RI_MSK), drop_bit 1 (control AND CONTROL_WE_MSK), control AND CONTROL_RE_MSK]"

definition alt_log_jtag_uart_print_control_reg :: "'h jtag_hw \<Rightarrow> u8 list \<Rightarrow> 'h \<Rightarrow> 'h option" where
  "alt_log_jtag_uart_print_control_reg hw header h =
    (let (control, h) = jt_ctl_rd hw h
     in do {
       (_, h) \<leftarrow> alt_log_printf_proc hw (c_string ''%s HW FIFO wspace=%d AC=%d WI=%d RI=%d WE=%d RE=%d'' @ CRLF)
         (Str_arg header # List.map Int_arg (control_fields control)) h;
       Some h
     })"

definition altera_avalon_jtag_uart_report_log :: "'h jtag_hw \<Rightarrow> u32 \<Rightarrow> log_vars \<Rightarrow> 'h \<Rightarrow> (u32 \<times> 'h) option" where
  "altera_avalon_jtag_uart_report_log hw ticks_per_second l h =
    (if alt_log_jtag_uart_alarm_on_flag l \<noteq> 0
     then do {
       h \<leftarrow> alt_log_jtag_uart_print_control_reg hw (c_string ''JTAG Alarm:'') h;
       Some (ticks_per_second div ALT_LOG_JTAG_UART_TICKS_DIVISOR, h)
     }
     else Some (0, h))"

definition alt_log_jtag_uart_startup_info :: "'h jtag_hw \<Rightarrow> 'h \<Rightarrow> 'h option" where
  "alt_log_jtag_uart_startup_info hw h =
    alt_log_jtag_uart_print_control_reg hw (c_string ''JTAG Startup Info:'') h"

definition alt_log_jtag_uart_isr_proc :: "'h jtag_hw \<Rightarrow> log_vars \<Rightarrow> 'h \<Rightarrow> 'h option" where
  "alt_log_jtag_uart_isr_proc hw l h =
    (if alt_log_jtag_uart_isr_on_flag l \<noteq> 0
     then alt_log_jtag_uart_print_control_reg hw (c_string ''JTAG IRQ:'') h else Some h)"

text \<open>
  The macro in the initialisation of the driver. \<open>callback\<close> is the number of \<open>altera_avalon_jtag_uart_report_log\<close>,
  \<open>dev\<close> its context; the UART is in the world of the timer.
\<close>

definition ALT_LOG_JTAG_UART_ALARM_REGISTER ::
  "'h jtag_hw \<Rightarrow> ptr \<Rightarrow> nat \<Rightarrow> nat \<Rightarrow> log_vars \<Rightarrow> 'h timer \<Rightarrow> 'h timer option" where
  "ALT_LOG_JTAG_UART_ALARM_REGISTER hw alt_log_jtag_uart_alarm_1 callback dev l t =
    (let t = (if alt_log_jtag_uart_alarm_on_flag l = 1
              then snd (alt_alarm_start (Some alt_log_jtag_uart_alarm_1)
                     (alt_ticks_per_second t div ALT_LOG_JTAG_UART_TICKS_DIVISOR) callback dev t)
              else t)
     in if alt_log_jtag_uart_startup_info_on_flag l = 1
        then do { h \<leftarrow> alt_log_jtag_uart_startup_info hw (tworld t); Some (t\<lparr>tworld := h\<rparr>) }
        else Some t)"

section \<open>The echo of \<open>write\<close>\<close>

text \<open>What \<open>strncpy\<close> stores: at most \<open>n\<close> bytes of the string, filled up with zeros.\<close>

definition strncpy_bytes :: "nat \<Rightarrow> u8 list \<Rightarrow> u8 list" where
  "strncpy_bytes n src =
    (let t = takeWhile (\<lambda>c. c \<noteq> 0) (List.take n src) in t @ replicate (n - length t) 0)"

definition CTRL_D :: u8 where "CTRL_D = 4"

definition echo_buffer :: "nat \<Rightarrow> u8 list \<Rightarrow> u8 list \<Rightarrow> u8 list" where
  "echo_buffer n bytes buf =
    (let buf = blit buf 0 (strncpy_bytes n bytes);
         buf = buf[n - 1 := 10];
         buf = buf[n := 13];
         buf = buf[n + 1 := 0]
     in List.map (\<lambda>c. if c = CTRL_D then ch CHR ''D'' else c) (List.take n buf) @ drop n buf)"

definition alt_log_write :: "'h jtag_hw \<Rightarrow> u8 list \<Rightarrow> log_vars \<Rightarrow> 'h \<Rightarrow> (log_vars \<times> 'h) option" where
  "alt_log_write hw bytes l h =
    (if alt_log_write_on_flag l \<noteq> 0 then
       (let n = (if ALT_LOG_WRITE_ECHO_LEN > length bytes then length bytes else ALT_LOG_WRITE_ECHO_LEN)
        in if n < 2 then Some (l, h)
           else (let l = l\<lparr>alt_log_write_buf := echo_buffer n bytes (alt_log_write_buf l)\<rparr>
                 in do {
                   (_, h) \<leftarrow> alt_log_printf_proc hw (c_string ''Write Echo: %s'')
                     [Str_arg (takeWhile (\<lambda>c. c \<noteq> 0) (alt_log_write_buf l))] h;
                   Some (l, h)
                 }))
     else Some (l, h))"

section \<open>The system clock\<close>

definition alt_log_system_clock :: "'h jtag_hw \<Rightarrow> u32 \<Rightarrow> log_vars \<Rightarrow> 'h \<Rightarrow> (log_vars \<times> 'h) option" where
  "alt_log_system_clock hw ticks_per_second l h =
    (if alt_log_sys_clk_on_flag l \<noteq> 0 then
       (let l = l\<lparr>alt_log_sys_clk_count := alt_log_sys_clk_count l + 1\<rparr>
        in if alt_log_sys_clk_count l > ticks_per_second * ALT_LOG_SYS_CLK_INTERVAL_MULTIPLIER
           then do {
             (_, h) \<leftarrow> alt_log_printf_proc hw (c_string ''System Clock On %u'' @ CRLF) [Int_arg (alt_system_clock_in_sec l)] h;
             Some (l\<lparr>alt_log_sys_clk_count := 0, alt_system_clock_in_sec := alt_system_clock_in_sec l + 1\<rparr>, h)
           }
           else Some (l, h))
     else Some (l, h))"

end
