(* ===== verification/Hal_Printf_Proofs.thy ===== *)
theory Hal_Printf_Proofs
  imports Hal_Format Hal_Log
begin

text \<open>
  What printing does. \<open>alt_printf\<close> prints what the format means (\<open>alt_printf_loop\<close>), so it agrees with
  the logging \<open>printf\<close> where both know the directive. On a UART with a host (\<open>jtag_live\<close>) the log
  sends exactly the characters of its formats (\<open>log_printf\<close>), and from that follow the echo of
  \<open>write\<close> and the sign of life of the clock.
\<close>

unbundle bit_operations_syntax

section \<open>The hexadecimal digits of \<open>alt_printf\<close>\<close>

lemma nibble:
  assumes "k < 8"
  shows "drop_bit (4 * k) (v AND push_bit (4 * k) 0xF) = (of_nat (unat (v :: u32) div 16 ^ k mod 16) :: u32)"
    and "v AND push_bit (4 * k) 0xF = 0 \<longleftrightarrow> unat v div 16 ^ k mod 16 = 0"
proof -
  have mask: "(0xF :: u32) = Bit_Operations.mask 4" by (simp add: mask_eq_exp_minus_1)
  have "drop_bit (4 * k) (v AND push_bit (4 * k) 0xF) = take_bit 4 (drop_bit (4 * k) v)"
    unfolding mask using assms by (intro bit_eqI) (auto simp: bit_simps)
  then have "unat (drop_bit (4 * k) (v AND push_bit (4 * k) 0xF)) = take_bit 4 (drop_bit (4 * k) (unat v))"
    using unsigned_less [of v, where ?'a = nat]
    by (simp only: unsigned_take_bit_eq unsigned_drop_bit_eq) (simp add: take_bit_nat_eq_self)
  also have "\<dots> = unat v div 16 ^ k mod 16"
    by (simp add: take_bit_eq_mod drop_bit_eq_div power_mult)
  finally have u: "unat (drop_bit (4 * k) (v AND push_bit (4 * k) 0xF)) = unat v div 16 ^ k mod 16" .
  then show d: "drop_bit (4 * k) (v AND push_bit (4 * k) 0xF) = (of_nat (unat v div 16 ^ k mod 16) :: u32)"
    by (metis of_nat_unat ucast_id)
  have "v AND push_bit (4 * k) 0xF = push_bit (4 * k) (drop_bit (4 * k) (v AND push_bit (4 * k) 0xF))"
    unfolding mask by (intro bit_eqI) (auto simp: bit_simps)
  then show "v AND push_bit (4 * k) 0xF = 0 \<longleftrightarrow> unat v div 16 ^ k mod 16 = 0"
    using u by (metis drop_bit_of_0 push_bit_of_0 unat_eq_zero)
qed

lemma hex_first_digit:
  assumes "v \<noteq> 0" "unat v < 16 ^ Suc k" "k < 8"
  shows "hex_first v (int (4 * k)) = Some (int (4 * (length (digits 16 (unat v)) - 1)))"
  using assms
proof (induction k)
  case 0
  then have "v AND push_bit 0 0xF \<noteq> 0" using nibble(2) [of 0 v] by (simp add: unat_eq_zero)
  then show ?case using 0 by (subst hex_first.simps) (simp add: digits_small)
next
  case (Suc k)
  have pos: "\<not> int (4 * Suc k) < 0" "nat (int (4 * Suc k)) = 4 * Suc k" "int (4 * Suc k) - 4 = int (4 * k)" by simp_all
  have "unat v div 16 ^ Suc k < 16" using Suc.prems(2) by (simp add: div_less_iff_less_mult)
  then have top: "v AND push_bit (4 * Suc k) 0xF = 0 \<longleftrightarrow> unat v < 16 ^ Suc k"
    using nibble(2) [OF Suc.prems(3), of v] by (simp add: div_eq_0_iff)
  show ?case
  proof (cases "unat v < 16 ^ Suc k")
    case True
    then show ?thesis using Suc.IH [OF Suc.prems(1) True Suc_lessD [OF Suc.prems(3)]] top
      by (subst hex_first.simps) (simp only: pos if_False if_True)
  next
    case False
    have "length (digits 16 (unat v)) = Suc (Suc k)"
    proof (rule antisym)
      have "16 ^ (length (digits 16 (unat v)) - 1) < (16 :: nat) ^ Suc (Suc k)"
        using digits_power [of 16 "unat v"] Suc.prems(1,2) by (simp add: unat_gt_0 le_less_trans)
      then have "length (digits 16 (unat v)) - 1 < Suc (Suc k)" by (rule power_less_imp_less_exp [rotated]) simp
      then show "length (digits 16 (unat v)) \<le> Suc (Suc k)" by simp
      have "(16 :: nat) ^ Suc k < 16 ^ length (digits 16 (unat v))"
        using False digits_bound [of 16 "unat v"] by linarith
      then have "Suc k < length (digits 16 (unat v))" by (rule power_less_imp_less_exp [rotated]) simp
      then show "Suc (Suc k) \<le> length (digits 16 (unat v))" by simp
    qed
    then show ?thesis using False top by (subst hex_first.simps) (simp only: pos if_False diff_Suc_1)
  qed
qed

lemma hex_digit_char:
  assumes "d < 16"
  shows "(if of_nat d \<le> (9 :: u32) then ucast (char_int (ch CHR ''0'') + of_nat d) :: u8
    else ucast (char_int (ch CHR ''a'') + of_nat d - 10)) = digit_char False (of_nat d)"
proof -
  have "d \<in> {0, 1, 2, 3, 4, 5, 6, 7, 8, 9, 10, 11, 12, 13, 14, 15}" using assms by simp presburger
  then show ?thesis by (auto simp: digit_char_def char_int_def ch_simps)
qed

lemma hex_digits_text:
  assumes "k < 8"
  shows "hex_digits putc v (int (4 * k)) s =
    put_all putc (map char_int (map (\<lambda>d. digit_char False (of_nat d)) (fixed 16 k (unat v mod 16 ^ Suc k)))) s"
  using assms
proof (induction k arbitrary: s)
  case 0
  have "hex_digits putc v (- 4) = Some" by (rule ext) (subst hex_digits.simps, simp)
  then show ?case using nibble(1) [of 0 v] hex_digit_char [of "unat v mod 16"]
    by (subst hex_digits.simps) (simp add: Let_def)
next
  case (Suc k)
  let ?d = "unat v div 16 ^ Suc k mod 16"
  have pos: "int (4 * Suc k) \<ge> 0" "nat (int (4 * Suc k)) = 4 * Suc k" "int (4 * Suc k) - 4 = int (4 * k)" by simp_all
  have "unat v mod 16 ^ Suc (Suc k) = 16 ^ Suc k * ?d + unat v mod 16 ^ Suc k"
    using mod_mult2_eq [of "unat v" "16 ^ Suc k" 16] by (simp add: mult.commute)
  then have f: "fixed 16 (Suc k) (unat v mod 16 ^ Suc (Suc k)) = ?d # fixed 16 k (unat v mod 16 ^ Suc k)"
    by simp
  have IH: "hex_digits putc v (int (4 * k)) =
      put_all putc (map char_int (map (\<lambda>d. digit_char False (of_nat d)) (fixed 16 k (unat v mod 16 ^ Suc k))))"
    using Suc by (intro ext) simp
  have c: "(if of_nat ?d \<le> (9 :: u32) then ucast (char_int (ch CHR ''0'') + of_nat ?d) :: u8
    else ucast (char_int (ch CHR ''a'') + of_nat ?d - 10)) = digit_char False (of_nat ?d)"
    by (rule hex_digit_char) simp
  show ?case unfolding f
    by (subst hex_digits.simps) (simp only: pos if_True Let_def nibble(1) [OF Suc.prems] c IH list.map put_all.simps)
qed

lemma print_hex_text:
  "print_hex putc v s = put_all putc (map char_int (number_text False (- 1) 16 False False v)) s"
proof (cases "v = 0")
  case True
  then show ?thesis by (simp add: print_hex_def number_text_def digits_small digit_char_def ch_simps)
next
  case False
  let ?n = "length (digits 16 (unat v)) - 1"
  have small: "unat v < 16 ^ 8" using unsigned_less [of v, where ?'a = nat] by simp
  have "16 ^ ?n < (16 :: nat) ^ 8"
    using digits_power [of 16 "unat v"] small False by (simp only: unat_gt_0) (simp add: le_less_trans)
  then have n: "?n < 8" by (rule power_less_imp_less_exp [rotated]) simp
  have "unat v < 16 ^ Suc ?n" using digits_bound [of 16 "unat v"] by (simp add: Suc_diff_le Suc_le_eq)
  then have "unat v mod 16 ^ Suc ?n = unat v" by (rule mod_less)
  then have "hex_digits putc v (int (4 * ?n)) s =
      put_all putc (map char_int (map (\<lambda>d. digit_char False (of_nat d)) (digits 16 (unat v)))) s"
    using hex_digits_text [OF n, of putc v s] fixed_digits [of 16 "unat v"] by (simp only: simp_thms)
  moreover have "hex_first v 28 = Some (int (4 * ?n))" using hex_first_digit [of v 7] False small by simp
  ultimately show ?thesis using False by (simp add: print_hex_def number_text_def)
qed

section \<open>The directives both functions know\<close>

definition common_directive :: "directive \<Rightarrow> bool" where
  "common_directive d \<longleftrightarrow> (case d of Text c \<Rightarrow> c \<noteq> ch CHR ''%'' | Percent \<Rightarrow> True
    | Field zero width precision longs conv \<Rightarrow>
        \<not> zero \<and> width = None \<and> precision = None \<and> longs = 0 \<and> conv \<in> {Conv_x, Conv_c, Conv_s})"

lemma common_directive_ok: "common_directive d \<Longrightarrow> directive_ok d"
  by (cases d) (simp_all add: common_directive_def)

lemma alt_printf_directive:
  assumes "common_directive d"
  shows "alt_printf putc (unparse d @ w) args s =
    do { (out, args) \<leftarrow> directive_out d args; s \<leftarrow> put_all putc out s; alt_printf putc w args s }"
proof (cases d)
  case (Field zero width precision longs conv)
  then have "d = Field False None None 0 conv" "conv \<in> {Conv_x, Conv_c, Conv_s}" using assms by (auto simp: common_directive_def)
  then consider "d = Field False None None 0 Conv_x" | "d = Field False None None 0 Conv_c" | "d = Field False None None 0 Conv_s"
    by auto
  then show ?thesis
  proof cases
    case 1
    then show ?thesis by (cases args rule: int_arg.cases) (simp_all add: ch_simps print_hex_text number_field_def)
  next
    case 2
    then show ?thesis by (cases args rule: int_arg.cases) (simp_all add: ch_simps)
  next
    case 3
    then show ?thesis by (cases args rule: str_arg.cases) (simp_all add: ch_simps put_string_all)
  qed
qed (use assms in \<open>auto simp: common_directive_def Option.bind_assoc\<close>)

lemma alt_printf_loop:
  assumes "list_all common_directive ds"
  shows "alt_printf putc (format ds) args s = do { out \<leftarrow> render ds args; put_all putc out s }"
  using assms
proof (induction ds arbitrary: args s)
  case Nil
  then show ?case by (simp add: format_def)
next
  case (Cons d ds)
  have step: "alt_printf putc (format (d # ds)) args s =
    do { (out, args) \<leftarrow> directive_out d args; s \<leftarrow> put_all putc out s; alt_printf putc (format ds) args s }"
    using Cons.prems alt_printf_directive [of d putc "format ds" args s] by (simp add: format_def)
  have IH: "alt_printf putc (format ds) args = (\<lambda>s. do { out \<leftarrow> render ds args; put_all putc out s })" for args
    using Cons by (intro ext) simp
  show ?case
  proof (cases "directive_out d args")
    case (Some r)
    obtain out args' where r: "r = (out, args')" by (cases r)
    show ?thesis unfolding step IH using Some r
      by (cases "render ds args'"; cases "put_all putc out s") (simp_all add: put_all_append)
  qed (simp add: step)
qed

section \<open>The log on a connected UART\<close>

context jtag_live begin

lemma txchar_total:
  "\<exists>h'. alt_log_txchar hw v h = Some h' \<and> sent h' = sent h @ [ucast v] \<and> received h' = received h"
proof (induction "drain h" arbitrary: h rule: less_induct)
  case less
  obtain c h1 where rd: "jt_ctl_rd hw h = (c, h1)" by fastforce
  note law = ctl_rd_law [OF rd]
  show ?case
  proof (cases "c AND CONTROL_WSPACE_MSK = 0")
    case True
    then obtain h' where "alt_log_txchar hw v h1 = Some h'" "sent h' = sent h1 @ [ucast v]" "received h' = received h1"
      using less.hyps [OF drain_law [OF rd True]] by blast
    then show ?thesis using rd True law by (subst alt_log_txchar.simps) simp
  next
    case False
    then have "0 < wspace h1" using law wspace_field [OF False] by (metis le_zero_eq neq0_conv unat_eq_0)
    then show ?thesis using rd False law data_wr_law [of h1 v] by (subst alt_log_txchar.simps) simp
  qed
qed

lemma log_put_all:
  "\<exists>h'. put_all (alt_log_txchar hw) vs h = Some h' \<and> sent h' = sent h @ map ucast vs \<and> received h' = received h"
proof (induction vs arbitrary: h)
  case (Cons v vs)
  obtain h1 where h1: "alt_log_txchar hw v h = Some h1" "sent h1 = sent h @ [ucast v]" "received h1 = received h"
    using txchar_total by blast
  obtain h2 where "put_all (alt_log_txchar hw) vs h1 = Some h2" "sent h2 = sent h1 @ map ucast vs" "received h2 = received h1"
    using Cons.IH by blast
  then show ?case using h1 by simp
qed simp

lemma log_printf:
  assumes "list_all directive_ok ds" "list_all arg_ok args" "render ds args = Some out"
  shows "\<exists>h'. alt_log_printf_proc hw (format ds) args h = Some (0, h') \<and> sent h' = sent h @ map ucast out \<and> received h' = received h"
  using log_put_all [of out h] by (auto simp: alt_log_printf_proc_def format_loop [OF assms(1,2)] assms(3))

end


lemma ucast_char_int [simp]: "ucast (char_int c) = c"
  unfolding char_int_def by (rule bit_word_eqI) (auto simp: bit_simps)


section \<open>The echo of \<open>write\<close> and the sign of life\<close>

definition echo_char :: "u8 \<Rightarrow> u8" where "echo_char c = (if c = CTRL_D then ch CHR ''D'' else c)"

text \<open>What the log shows of a call of \<open>write\<close>.\<close>

definition echo_text :: "u8 list \<Rightarrow> u8 list" where
  "echo_text bytes =
    (let n = min ALT_LOG_WRITE_ECHO_LEN (length bytes)
     in takeWhile (\<lambda>c. c \<noteq> 0) (map echo_char (take (n - 1) bytes) @ [10, 13]))"

lemma echo_char_zero [simp]: "echo_char c = 0 \<longleftrightarrow> c = 0"
  by (simp add: echo_char_def CTRL_D_def ch_simps)

lemma takeWhile_strncpy:
  assumes "k \<le> length zs" "length zs \<le> m + length (takeWhile (\<lambda>c. c \<noteq> 0) zs)"
  shows "takeWhile (\<lambda>c. c \<noteq> (0 :: u8)) (map echo_char (take k (takeWhile (\<lambda>c. c \<noteq> 0) zs @ replicate m 0)) @ w) =
    takeWhile (\<lambda>c. c \<noteq> 0) (map echo_char (take k zs) @ w)"
  using assms
proof (induction zs arbitrary: k)
  case (Cons z zs)
  then show ?case by (cases k; cases "z = 0"; cases m) auto
qed simp

lemma list_update_last: "xs \<noteq> [] \<Longrightarrow> xs[length xs - 1 := x] = take (length xs - 1) xs @ [x]"
  by (cases xs rule: rev_cases) simp_all

lemma echo_buffer_text:
  assumes "2 \<le> n" "n \<le> length bytes" "length buf = n + 2 + k"
  shows "takeWhile (\<lambda>c. c \<noteq> 0) (echo_buffer n bytes buf) =
      takeWhile (\<lambda>c. c \<noteq> 0) (map echo_char (take (n - 1) bytes) @ [10, 13])"
    and "length (echo_buffer n bytes buf) = length buf"
proof -
  let ?t = "strncpy_bytes n bytes"
  have t: "length ?t = n" using assms(2) length_takeWhile_le [of "\<lambda>c. c \<noteq> 0" "take n bytes"]
    by (simp add: strncpy_bytes_def Let_def)
  obtain a b r where r: "drop n buf = a # b # r"
    using assms(3) by (metis (no_types, lifting) Cons_nth_drop_Suc add.commute add_2_eq_Suc' add_diff_cancel_left' drop_eq_Nil
        leD le_add1 length_drop less_add_Suc1 list.exhaust list.size(3) nat.simps(3) length_Cons add_Suc_right)
  have rest: "length r = k" using arg_cong [OF r, of length] assms(3) by simp
  have "blit buf 0 ?t = ?t @ a # b # r" by (simp add: blit_def t r)
  moreover have "?t[n - 1 := 10] = take (n - 1) ?t @ [10]" using t assms(1) list_update_last [of ?t 10] by force
  then have "(?t @ a # b # r)[n - 1 := 10, n := 13, n + 1 := 0] = take (n - 1) ?t @ 10 # 13 # 0 # r"
    using t assms(1) by (cases n) (simp_all add: list_update_append)
  moreover have "take n (take (n - 1) ?t @ 10 # 13 # 0 # r) = take (n - 1) ?t @ [10]"
    and "drop n (take (n - 1) ?t @ 10 # 13 # 0 # r) = 13 # 0 # r"
    using t assms(1) by (cases n; simp)+
  ultimately have e: "echo_buffer n bytes buf = map echo_char (take (n - 1) ?t) @ [10, 13] @ 0 # r"
    unfolding echo_buffer_def Let_def echo_char_def by (simp add: CTRL_D_def)
  have "takeWhile (\<lambda>c. c \<noteq> 0) (map echo_char (take (n - 1) ?t) @ [10, 13] @ 0 # r) =
      takeWhile (\<lambda>c. c \<noteq> 0) (map echo_char (take (n - 1) (take n bytes)) @ [10, 13] @ 0 # r)"
    unfolding strncpy_bytes_def Let_def
    by (rule takeWhile_strncpy) (use assms length_takeWhile_le [of "\<lambda>c. c \<noteq> 0" "take n bytes"] in simp_all)
  also have "take (n - 1) (take n bytes) = take (n - 1) bytes" by (simp add: min_def)
  also have "takeWhile (\<lambda>c. c \<noteq> 0) (map echo_char (take (n - 1) bytes) @ [10, 13] @ 0 # r) =
      takeWhile (\<lambda>c. c \<noteq> 0) (map echo_char (take (n - 1) bytes) @ [10, 13])"
    by (cases "\<forall>c \<in> set (map echo_char (take (n - 1) bytes)). c \<noteq> 0") (auto simp: takeWhile_append)
  finally show "takeWhile (\<lambda>c. c \<noteq> 0) (echo_buffer n bytes buf) =
      takeWhile (\<lambda>c. c \<noteq> 0) (map echo_char (take (n - 1) bytes) @ [10, 13])" by (simp only: e)
  show "length (echo_buffer n bytes buf) = length buf"
    using assms t rest by (simp add: e)
qed

lemma echo_format: "c_string ''Write Echo: %s'' = format (map Text (c_string ''Write Echo: '') @ [Field False None None 0 Conv_s])"
  by (simp add: format_def c_string_def)

lemma render_text: "render (map Text cs @ ds) args = do { out \<leftarrow> render ds args; Some (map char_int cs @ out) }"
  by (induction cs) (simp_all add: Option.bind_assoc)

lemma clock_format:
  "c_string ''System Clock On %u'' @ CRLF =
    format (map Text (c_string ''System Clock On '') @ [Field False None None 0 Conv_u] @ map Text CRLF)"
  by (simp add: format_def c_string_def CRLF_def)

lemma text_ok: "list_all directive_ok (map Text cs) \<longleftrightarrow> ch CHR ''%'' \<notin> set cs"
  by (induction cs) auto

definition clock_text :: "u32 \<Rightarrow> u8 list" where
  "clock_text sec = c_string ''System Clock On '' @ number_text False (- 1) 10 False False sec @ CRLF"

context jtag_live begin

lemma write_echo:
  assumes "alt_log_write_on_flag l \<noteq> 0" "length (alt_log_write_buf l) = ALT_LOG_WRITE_ECHO_LEN + 2" "2 \<le> length bytes"
  shows "\<exists>buf h'. alt_log_write hw bytes l h = Some (l\<lparr>alt_log_write_buf := buf\<rparr>, h') \<and>
    length buf = ALT_LOG_WRITE_ECHO_LEN + 2 \<and> sent h' = sent h @ c_string ''Write Echo: '' @ echo_text bytes \<and> received h' = received h"
proof -
  let ?n = "min ALT_LOG_WRITE_ECHO_LEN (length bytes)"
  let ?b = "echo_buffer ?n bytes (alt_log_write_buf l)"
  let ?ds = "map Text (c_string ''Write Echo: '') @ [Field False None None 0 Conv_s]"
  have n: "2 \<le> ?n" "?n \<le> length bytes" "length (alt_log_write_buf l) = ?n + 2 + (ALT_LOG_WRITE_ECHO_LEN - ?n)"
    using assms by (simp_all add: ALT_LOG_WRITE_ECHO_LEN_def)
  note buffer = echo_buffer_text [OF n]
  have c: "(if ALT_LOG_WRITE_ECHO_LEN > length bytes then length bytes else ALT_LOG_WRITE_ECHO_LEN) = ?n" by simp
  have t: "takeWhile (\<lambda>c. c \<noteq> 0) ?b = echo_text bytes" by (simp add: buffer(1) echo_text_def)
  have "length (echo_text bytes) \<le> 2 + 15"
    using length_takeWhile_le [of "\<lambda>c. c \<noteq> 0" "map echo_char (take (?n - 1) bytes) @ [10, 13]"]
    by (simp add: echo_text_def Let_def ALT_LOG_WRITE_ECHO_LEN_def)
  then have "list_all arg_ok [Str_arg (echo_text bytes)]" by simp
  moreover have "list_all directive_ok ?ds" by (simp add: text_ok c_string_def ch_simps) (simp add: ch_def)
  moreover have "render ?ds [Str_arg (echo_text bytes)] = Some (map char_int (c_string ''Write Echo: '' @ echo_text bytes))"
    by (simp add: render_text)
  ultimately obtain h' where "alt_log_printf_proc hw (format ?ds) [Str_arg (echo_text bytes)] h = Some (0, h')"
    "sent h' = sent h @ c_string ''Write Echo: '' @ echo_text bytes" "received h' = received h"
    using log_printf [of ?ds "[Str_arg (echo_text bytes)]" _ h] by (auto simp: comp_def)
  moreover have "\<not> ?n < 2" using n(1) by linarith
  ultimately show ?thesis using assms buffer(2) t
    by (intro exI [of _ ?b] exI [of _ h']) (simp add: alt_log_write_def Let_def c echo_format not_less min_less_iff_disj)
qed

lemma clock_tick:
  assumes "alt_log_sys_clk_on_flag l \<noteq> 0" "alt_log_sys_clk_count l < 0xFFFFFFFF"
  shows "\<exists>h'. received h' = received h \<and>
   (if alt_log_sys_clk_count l < ticks
    then alt_log_system_clock hw ticks l h = Some (l\<lparr>alt_log_sys_clk_count := alt_log_sys_clk_count l + 1\<rparr>, h') \<and> sent h' = sent h
    else alt_log_system_clock hw ticks l h =
        Some (l\<lparr>alt_log_sys_clk_count := 0, alt_system_clock_in_sec := alt_system_clock_in_sec l + 1\<rparr>, h') \<and>
      sent h' = sent h @ clock_text (alt_system_clock_in_sec l))"
proof -
  let ?sec = "alt_system_clock_in_sec l"
  let ?ds = "map Text (c_string ''System Clock On '') @ [Field False None None 0 Conv_u] @ map Text CRLF"
  have cmp: "ticks < alt_log_sys_clk_count l + 1 \<longleftrightarrow> \<not> alt_log_sys_clk_count l < ticks"
    using assms(2) by (simp add: word_less_nat_alt unat_plus_if_size word_size not_less less_Suc_eq_le)
  have "list_all directive_ok ?ds" by (simp add: text_ok c_string_def CRLF_def ch_simps) (simp add: ch_def)
  moreover have "render ?ds [Int_arg ?sec] = Some (map char_int (clock_text ?sec))"
    using render_text [of CRLF "[]" "[]"] by (simp add: render_text number_field_def clock_text_def)
  ultimately obtain h' where h': "alt_log_printf_proc hw (format ?ds) [Int_arg ?sec] h = Some (0, h')"
    "sent h' = sent h @ clock_text ?sec" "received h' = received h"
    using log_printf [of ?ds "[Int_arg ?sec]" _ h] by (auto simp: comp_def)
  show ?thesis
  proof (cases "alt_log_sys_clk_count l < ticks")
    case True
    then show ?thesis using assms(1) cmp by (auto simp: alt_log_system_clock_def ALT_LOG_SYS_CLK_INTERVAL_MULTIPLIER_def)
  next
    case False
    then show ?thesis using assms(1) cmp h'
      by (auto simp: alt_log_system_clock_def ALT_LOG_SYS_CLK_INTERVAL_MULTIPLIER_def clock_format)
  qed
qed

end

text \<open>Successive calls of \<open>alt_log_system_clock\<close>, one for each tick.\<close>

primrec clock_calls :: "'h jtag_hw \<Rightarrow> u32 \<Rightarrow> nat \<Rightarrow> log_vars \<Rightarrow> 'h \<Rightarrow> (log_vars \<times> 'h) option" where
  "clock_calls hw ticks 0 l h = Some (l, h)"
| "clock_calls hw ticks (Suc n) l h = do { (l, h) \<leftarrow> clock_calls hw ticks n l h; alt_log_system_clock hw ticks l h }"

context jtag_live begin

lemma clock_silent:
  assumes "alt_log_sys_clk_on_flag l \<noteq> 0" "alt_log_sys_clk_count l = 0" "ticks < 0xFFFFFFFF" "n \<le> unat ticks"
  shows "\<exists>h'. clock_calls hw ticks n l h = Some (l\<lparr>alt_log_sys_clk_count := of_nat n\<rparr>, h') \<and> sent h' = sent h \<and> received h' = received h"
  using assms(4)
proof (induction n)
  case 0
  then show ?case using assms(2) by (cases l) simp
next
  case (Suc n)
  then obtain h1 where h1: "clock_calls hw ticks n l h = Some (l\<lparr>alt_log_sys_clk_count := of_nat n\<rparr>, h1)"
    "sent h1 = sent h" "received h1 = received h" by auto
  have "n < 2 ^ 32" using Suc.prems unsigned_less [of ticks, where ?'a = nat] by simp
  then have "(of_nat n :: u32) < ticks" using Suc.prems by (simp add: word_less_nat_alt unat_of_nat_u32)
  moreover from this have "(of_nat n :: u32) < 0xFFFFFFFF" using assms(3) by (rule less_trans)
  ultimately show ?case
    using clock_tick [of "l\<lparr>alt_log_sys_clk_count := of_nat n\<rparr>" h1 ticks] assms(1) h1 by (auto simp: ac_simps)
qed

lemma clock_period:
  assumes "alt_log_sys_clk_on_flag l \<noteq> 0" "alt_log_sys_clk_count l = 0" "ticks < 0xFFFFFFFF"
  shows "\<exists>h'. clock_calls hw ticks (Suc (unat ticks)) l h = Some (l\<lparr>alt_system_clock_in_sec := alt_system_clock_in_sec l + 1\<rparr>, h') \<and>
    sent h' = sent h @ clock_text (alt_system_clock_in_sec l) \<and> received h' = received h"
proof -
  obtain h1 where h1: "clock_calls hw ticks (unat ticks) l h = Some (l\<lparr>alt_log_sys_clk_count := ticks\<rparr>, h1)"
    "sent h1 = sent h" "received h1 = received h" using clock_silent [OF assms order_refl] by auto
  have "l\<lparr>alt_log_sys_clk_count := 0, alt_system_clock_in_sec := x\<rparr> = l\<lparr>alt_system_clock_in_sec := x\<rparr>" for x
    using assms(2) by (cases l) simp
  then show ?thesis using clock_tick [of "l\<lparr>alt_log_sys_clk_count := ticks\<rparr>" h1 ticks] assms h1 by auto
qed

end

section \<open>Properties\<close>



text \<open>The base of a number conversion, and whether it is signed.\<close>

fun conv_base :: "conversion \<Rightarrow> (nat \<times> bool) option" where
  "conv_base Conv_d = Some (10, True)"
| "conv_base Conv_i = Some (10, True)"
| "conv_base Conv_u = Some (10, False)"
| "conv_base Conv_o = Some (8, False)"
| "conv_base Conv_x = Some (16, False)"
| "conv_base Conv_X = Some (16, False)"
| "conv_base _ = None"

definition collect :: "u32 \<Rightarrow> u8 list \<Rightarrow> u8 list option" where
  "collect v s = Some (s @ [ucast v])"

lemma collect_all: "put_all collect vs s = Some (s @ map ucast vs)"
  by (induction vs arbitrary: s) (simp_all add: collect_def)

text \<open>
  C35. Printed numbers can be read back: a number printed in decimal, octal or hexadecimal, with or without
  leading zeros and with any width, reads as the value of the argument (signed for \<open>%d\<close> and \<open>%i\<close>), for all
  \<open>2 ^ 32\<close> arguments, the most negative one included; and the text is as wide as asked, or wider.
\<close>
theorem number_roundtrip:
  assumes "directive_ok (Field zero width precision longs conv)" and "conv_base conv = Some (b, sg)"
  shows "\<exists>t. alt_log_private_printf collect (format [Field zero width precision longs conv]) [Int_arg v] s = Some (s @ t) \<and>
    read_number b t = (if sg then sint v else uint v) \<and> (\<forall>n. width = Some n \<longrightarrow> n \<le> length t)"
proof -
  define w where "w = (case width of None \<Rightarrow> - 1 | Some n \<Rightarrow> int n)"
  have b: "2 \<le> b" "b \<le> 16" using assms(2) by (cases conv; auto)+
  obtain up where up: "field_out zero w conv [Int_arg v] = Some (map char_int (number_text zero w b sg up v), [])"
    using assms(2) by (cases conv) (auto simp: number_field_def)
  have "alt_log_private_printf collect (format [Field zero width precision longs conv]) [Int_arg v] s =
      Some (s @ number_text zero w b sg up v)"
    using format_loop [of "[Field zero width precision longs conv]" "[Int_arg v]" collect s] assms(1) up
    by (simp add: w_def collect_all comp_def)
  moreover have "\<forall>n. width = Some n \<longrightarrow> n \<le> length (number_text zero w b sg up v)"
    by (auto simp: number_text_length Let_def w_def)
  ultimately show ?thesis using number_text_read [OF b] by blast
qed

theorem number_roundtrip_witness:
  "\<exists>t. alt_log_private_printf collect (format [Field True (Some 12) None 1 Conv_d]) [Int_arg 0x80000000] [] = Some t \<and>
    read_number 10 t = - (2 ^ 31) \<and> 12 \<le> length t"
  using number_roundtrip [where zero = True and width = "Some 12" and precision = None and longs = 1 and conv = Conv_d and b = 10
    and sg = True and v = "0x80000000" and s = "[]"] by simp

text \<open>
  The two printing functions agree: on formats of text, \<open>%%\<close>, \<open>%x\<close>, \<open>%c\<close> and \<open>%s\<close>, all that \<open>alt_printf\<close> has,
  its nibble by nibble printing of hexadecimal numbers and the division loop of the logging \<open>printf\<close> put the same
  characters, whatever they are put to.
\<close>
theorem printf_agree:
  assumes "list_all common_directive ds" "list_all arg_ok args"
  shows "alt_printf putc (format ds) args s = alt_log_private_printf putc (format ds) args s"
proof -
  have "list_all directive_ok ds" using assms(1) common_directive_ok by (auto simp: list_all_iff)
  then show ?thesis by (simp only: alt_printf_loop [OF assms(1)] format_loop [OF _ assms(2)])
qed

theorem printf_agree_witness:
  "alt_printf collect (format [Text 61, Field False None None 0 Conv_x, Field False None None 0 Conv_s]) [Int_arg 0xC0FFEE, Str_arg [33]] [] =
    alt_log_private_printf collect (format [Text 61, Field False None None 0 Conv_x, Field False None None 0 Conv_s]) [Int_arg 0xC0FFEE, Str_arg [33]] []"
  by (rule printf_agree) (simp_all add: common_directive_def ch_simps)

text \<open>
  The echo of \<open>write\<close>. With logging on, a call with at least two bytes sends \<open>Write Echo: \<close>, then the first bytes
  (fifteen at most) with the last one replaced by a line feed and a carriage return after it, Ctrl-D shown as \<open>D\<close>, up to the
  first zero byte; a shorter call sends nothing. The buffer keeps its length: nothing is written outside it.
\<close>
theorem log_write_echo:
  assumes "jtag_live hw sent received wspace drain arrive"
    and "alt_log_write_on_flag l \<noteq> 0" "length (alt_log_write_buf l) = ALT_LOG_WRITE_ECHO_LEN + 2"
  shows "\<exists>buf h'. alt_log_write hw bytes l h = Some (l\<lparr>alt_log_write_buf := buf\<rparr>, h') \<and>
    length buf = ALT_LOG_WRITE_ECHO_LEN + 2 \<and> received h' = received h \<and>
    sent h' = sent h @ (if length bytes < 2 then [] else c_string ''Write Echo: '' @ echo_text bytes)"
proof (cases "length bytes < 2")
  case True
  then show ?thesis using assms(3)
    by (intro exI [of _ "alt_log_write_buf l"] exI [of _ h]) (simp add: alt_log_write_def Let_def ALT_LOG_WRITE_ECHO_LEN_def)
next
  case False
  then have "2 \<le> length bytes" by simp
  from jtag_live.write_echo [OF assms this, of h] show ?thesis using False by auto
qed

theorem log_write_echo_witness:
  "\<exists>l' h'. alt_log_write jtag_sim_hw [72, 4, 33, 10] (log_init 2) jtag_sim_start = Some (l', h') \<and>
    jsent h' = c_string ''Write Echo: '' @ [72, 68, 33, 10, 13]"
proof -
  have "echo_text [72, 4, 33, 10] = [72, 68, 33, 10, 13]"
    by (simp add: echo_text_def echo_char_def CTRL_D_def ch_simps ALT_LOG_WRITE_ECHO_LEN_def)
  moreover have "alt_log_write_on_flag (log_init 2) \<noteq> 0" "length (alt_log_write_buf (log_init 2)) = ALT_LOG_WRITE_ECHO_LEN + 2"
    by (simp_all add: log_init_def ALT_LOG_WRITE_ON_FLAG_SETTING_def)
  ultimately show ?thesis
    using log_write_echo [OF jtag_core.jtag_live_axioms, of "log_init 2" "[72, 4, 33, 10]" jtag_sim_start]
    by (auto simp: jtag_sim_start_def)
qed

text \<open>
  The sign of life of the system clock comes once in \<open>ticks_per_second + 1\<close> calls, not once in
  \<open>ticks_per_second\<close>: nothing is sent by the first \<open>ticks_per_second\<close> calls.
\<close>
theorem log_clock_interval:
  assumes "jtag_live hw sent received wspace drain arrive"
    and "alt_log_sys_clk_on_flag l \<noteq> 0" "alt_log_sys_clk_count l = 0" "ticks < 0xFFFFFFFF"
  shows "(\<forall>n \<le> unat ticks. \<exists>l' h'. clock_calls hw ticks n l h = Some (l', h') \<and> sent h' = sent h) \<and>
    (\<exists>h'. clock_calls hw ticks (Suc (unat ticks)) l h =
        Some (l\<lparr>alt_system_clock_in_sec := alt_system_clock_in_sec l + 1\<rparr>, h') \<and>
      sent h' = sent h @ clock_text (alt_system_clock_in_sec l))"
  using jtag_live.clock_silent [OF assms, of _ h] jtag_live.clock_period [OF assms, of h] by blast

theorem log_clock_interval_witness:
  "\<exists>l' h'. clock_calls jtag_sim_hw 100 101 (log_init 2) jtag_sim_start = Some (l', h') \<and> jsent h' = clock_text 0"
  using log_clock_interval [OF jtag_core.jtag_live_axioms, of "log_init 2" 100 jtag_sim_start]
  by (auto simp: log_init_def ALT_LOG_SYS_CLK_ON_FLAG_SETTING_def jtag_sim_start_def)

end
