(* ===== verification/Hal_Heap.thy ===== *)
theory Hal_Heap
  imports Cnc_Prelude
begin

text \<open>
  The memory of the processor, byte by byte, and \<open>alt_sbrk\<close> (\<open>HAL/src/alt_sbrk.c\<close>), which hands it out
  from the end of the heap upwards. Words are little-endian; an access to a word that is not aligned is an
  exception of the processor, the value \<open>None\<close>. \<open>alt_sbrk\<close> runs with interrupts disabled, so a call is
  one step; the options for a heap limit in bytes and for stack checking are off in this configuration.
\<close>

unbundle bit_operations_syntax

section \<open>Memory\<close>

type_synonym memory = "u32 \<Rightarrow> u8"

definition word_at :: "memory \<Rightarrow> u32 \<Rightarrow> u32" where
  "word_at m a = ucast (m a) OR push_bit 8 (ucast (m (a + 1))) OR push_bit 16 (ucast (m (a + 2)))
     OR push_bit 24 (ucast (m (a + 3)))"

definition put_word :: "u32 \<Rightarrow> u32 \<Rightarrow> memory \<Rightarrow> memory" where
  "put_word a v m = m(a := ucast v, a + 1 := ucast (drop_bit 8 v), a + 2 := ucast (drop_bit 16 v),
     a + 3 := ucast (drop_bit 24 v))"

definition half_at :: "memory \<Rightarrow> u32 \<Rightarrow> u16" where
  "half_at m a = ucast (m a) OR push_bit 8 (ucast (m (a + 1)))"

definition put_half :: "u32 \<Rightarrow> u16 \<Rightarrow> memory \<Rightarrow> memory" where
  "put_half a v m = m(a := ucast v, a + 1 := ucast (drop_bit 8 v))"

definition ldw :: "memory \<Rightarrow> u32 \<Rightarrow> u32 option" where
  "ldw m a = (if a AND 3 = 0 then Some (word_at m a) else None)"

definition stw :: "u32 \<Rightarrow> u32 \<Rightarrow> memory \<Rightarrow> memory option" where
  "stw a v m = (if a AND 3 = 0 then Some (put_word a v m) else None)"

definition ldhu :: "memory \<Rightarrow> u32 \<Rightarrow> u16 option" where
  "ldhu m a = (if a AND 1 = 0 then Some (half_at m a) else None)"

definition sth :: "u32 \<Rightarrow> u16 \<Rightarrow> memory \<Rightarrow> memory option" where
  "sth a v m = (if a AND 1 = 0 then Some (put_half a v m) else None)"

definition memset :: "u32 \<Rightarrow> u8 \<Rightarrow> u32 \<Rightarrow> memory \<Rightarrow> memory" where
  "memset p c n m = (\<lambda>a. if a - p < n then c else m a)"

section \<open>\<open>alt_sbrk\<close>\<close>

text \<open>The result is -1 if the limit would be exceeded. \<open>incr\<close> is an \<open>int\<close>.\<close>

definition ALT_SBRK :: "u32 \<Rightarrow> int \<Rightarrow> u32 \<Rightarrow> u32 \<times> u32" where
  "ALT_SBRK alt_heap_limit incr heap_end =
    (let heap_end = (heap_end + 3) AND NOT 3
     in if heap_end + of_int incr > alt_heap_limit then (- 1, heap_end)
        else (let prev_heap_end = heap_end; heap_end = heap_end + of_int incr
              in (prev_heap_end, heap_end)))"

section \<open>Addresses\<close>

definition aligned :: "u32 \<Rightarrow> bool" where "aligned a \<longleftrightarrow> 4 dvd unat a"

lemma and_3: "a AND 3 = (0 :: u32) \<longleftrightarrow> aligned a"
proof -
  have "a AND 3 = take_bit 2 a" by (simp add: take_bit_eq_mask mask_eq_exp_minus_1)
  then have "a AND 3 = 0 \<longleftrightarrow> unat (take_bit 2 a) = 0" by (simp add: unat_eq_zero)
  also have "unat (take_bit 2 a) = unat a mod 4" by (simp only: unsigned_take_bit_eq) (simp add: take_bit_eq_mod)
  finally show ?thesis by (simp add: aligned_def dvd_eq_mod_eq_0)
qed

lemma aligned_offset:
  assumes "aligned a" "i < 4"
  shows "unat (a + of_nat i) = unat a + i"
proof -
  have "unat a < 4294967296" using unsigned_less [of a, where ?'a = nat] by simp
  then have "unat a + i < 4294967296" using assms unfolding aligned_def by presburger
  then show ?thesis using assms(2) by (simp add: unat_plus_if_size word_size unsigned_of_nat take_bit_nat_eq_self)
qed

lemma byte_of_one_word:
  assumes "aligned a" "aligned b" "i < 4" "j < 4" "a + of_nat i = b + of_nat j"
  shows "a = b \<and> i = j"
proof -
  have "unat a + i = unat b + j" using assms aligned_offset by metis
  then have "unat a = unat b \<and> i = j" using assms(1-4) unfolding aligned_def by presburger
  then show ?thesis by (simp add: word_unat_eq_iff)
qed

lemma other_word:
  assumes "aligned a" "aligned b" "a \<noteq> b"
  shows "word_at (put_word a v m) b = word_at m b"
proof -
  have "b + of_nat j \<noteq> a + of_nat i" if "i < 4" "j < 4" for i j
    using byte_of_one_word [OF assms(1,2), of i j] assms(3) that by metis
  from this [of 0 0] this [of 0 1] this [of 0 2] this [of 0 3] this [of 1 0] this [of 1 1] this [of 1 2] this [of 1 3]
    this [of 2 0] this [of 2 1] this [of 2 2] this [of 2 3] this [of 3 0] this [of 3 1] this [of 3 2] this [of 3 3]
  show ?thesis by (simp add: word_at_def put_word_def)
qed

lemma same_word [simp]: "word_at (put_word a v m) a = v"
proof -
  have "word_at (put_word a v m) a = ucast (ucast v :: u8) OR push_bit 8 (ucast (ucast (drop_bit 8 v) :: u8))
      OR push_bit 16 (ucast (ucast (drop_bit 16 v) :: u8)) OR push_bit 24 (ucast (ucast (drop_bit 24 v) :: u8))"
    by (simp add: word_at_def put_word_def)
  also have "\<dots> = v"
  proof (rule bit_word_eqI)
    fix n assume "n < LENGTH(32)"
    then consider "n < 8" | "8 \<le> n" "n < 16" | "16 \<le> n" "n < 24" | "24 \<le> n" "n < 32" by fastforce
    then show "bit ((ucast (ucast v :: u8) :: u32) OR push_bit 8 (ucast (ucast (drop_bit 8 v) :: u8))
      OR push_bit 16 (ucast (ucast (drop_bit 16 v) :: u8)) OR push_bit 24 (ucast (ucast (drop_bit 24 v) :: u8))) n = bit v n"
      by cases (auto simp: bit_simps)
  qed
  finally show ?thesis .
qed

lemma same_half [simp]: "half_at (put_half a v m) a = v"
proof -
  have "half_at (put_half a v m) a = ucast (ucast v :: u8) OR push_bit 8 (ucast (ucast (drop_bit 8 v) :: u8))"
    by (simp add: half_at_def put_half_def)
  also have "\<dots> = v" by (rule bit_word_eqI) (auto simp: bit_simps)
  finally show ?thesis .
qed

section \<open>Blocks\<close>

definition round_up :: "u32 \<Rightarrow> u32" where "round_up a = (a + 3) AND NOT 3"

lemma round_up_nat:
  assumes "unat a < 2 ^ 32 - 3"
  shows "unat (round_up a) = (unat a + 3) div 4 * 4"
proof -
  have "round_up a = push_bit 2 (drop_bit 2 (a + 3))"
  proof -
    have "x AND NOT (Bit_Operations.mask n) = push_bit n (drop_bit n x)" for x :: u32 and n
      by (rule bit_word_eqI) (auto simp: bit_simps)
    from this [of "a + 3" 2] show ?thesis by (simp add: round_up_def mask_eq_exp_minus_1)
  qed
  moreover have "unat (a + 3) = unat a + 3" using assms by (simp add: unat_plus_if_size word_size)
  moreover have "unat (push_bit 2 (drop_bit 2 x)) = unat x div 4 * 4" for x :: u32
  proof -
    have "unat x div 4 * 4 < 2 ^ 32" using unsigned_less [of x, where ?'a = nat] by (simp add: order.strict_trans1 [OF div_times_less_eq_dividend])
    then show ?thesis
      by (simp add: push_bit_eq_mult drop_bit_eq_div unat_mult_lem unat_word_ariths unat_div_distrib take_bit_nat_eq_self)
  qed
  ultimately show ?thesis by simp
qed

lemma sbrk_block:
  assumes "unat h \<le> unat limit" "unat limit < 2 ^ 31" "4 dvd unat limit" "0 \<le> incr" "incr < 2 ^ 31"
  shows "ALT_SBRK limit incr h =
    (if unat (round_up h) + nat incr \<le> unat limit then (round_up h, round_up h + of_int incr) else (- 1, round_up h))"
    and "aligned (round_up h)" "unat h \<le> unat (round_up h)" "unat (round_up h) \<le> unat h + 3"
    and "unat (round_up h) \<le> unat limit" and "unat (round_up h + of_int incr) = unat (round_up h) + nat incr"
proof -
  have r: "unat (round_up h) = (unat h + 3) div 4 * 4" using assms(1,2) by (intro round_up_nat) simp
  then show "aligned (round_up h)" "unat h \<le> unat (round_up h)" and le: "unat (round_up h) \<le> unat h + 3"
    by (simp_all add: aligned_def)
  show up: "unat (round_up h) \<le> unat limit" using r assms(1,3) by (auto elim!: dvdE)
  have i: "unat (of_int incr :: u32) = nat incr"
    using assms(4,5) by (simp add: unsigned_of_int take_bit_int_eq_self nat_eq_iff)
  show sum: "unat (round_up h + of_int incr) = unat (round_up h) + nat incr"
    
  proof -
    have "nat incr < 2147483648" "unat (round_up h) < 2147483648" using assms up by simp_all
    then have "unat (round_up h) + nat incr < 4294967296" by linarith
    then show ?thesis by (simp add: unat_plus_if_size word_size i)
  qed
  show "ALT_SBRK limit incr h =
    (if unat (round_up h) + nat incr \<le> unat limit then (round_up h, round_up h + of_int incr) else (- 1, round_up h))"
    using sum unfolding ALT_SBRK_def round_up_def [symmetric] Let_def by (simp add: word_less_nat_alt)
qed

text \<open>A run of requests: the blocks that were handed out, and the end of the heap.\<close>

fun sbrk_run :: "u32 \<Rightarrow> int list \<Rightarrow> u32 \<Rightarrow> (u32 \<times> int) list \<times> u32" where
  "sbrk_run limit [] h = ([], h)"
| "sbrk_run limit (incr # incrs) h =
    (let (p, h) = ALT_SBRK limit incr h; (blocks, h) = sbrk_run limit incrs h
     in (if p = - 1 then blocks else (p, incr) # blocks, h))"

text \<open>The bytes of a block.\<close>

definition block :: "u32 \<times> int \<Rightarrow> nat set" where
  "block = (\<lambda>(p, n). {unat p ..< unat p + nat n})"

lemma sbrk_run_blocks:
  assumes "unat h \<le> unat limit" "unat limit < 2 ^ 31" "4 dvd unat limit" "\<forall>n \<in> set incrs. 0 \<le> n \<and> n < 2 ^ 31"
    and "sbrk_run limit incrs h = (blocks, h')"
  shows "unat h \<le> unat h' \<and> unat h' \<le> unat limit \<and>
    (\<forall>b \<in> set blocks. aligned (fst b) \<and> block b \<subseteq> {unat h ..< unat h'}) \<and>
    sorted_wrt (\<lambda>b c. \<forall>x \<in> block b. \<forall>y \<in> block c. x < y) blocks"
  using assms
proof (induction incrs arbitrary: h blocks)
  case (Cons incr incrs)
  have n: "0 \<le> incr" "incr < 2 ^ 31" using Cons.prems(4) by simp_all
  note b = sbrk_block [OF Cons.prems(1-3) n]
  obtain blocks' where rest: "sbrk_run limit incrs (snd (ALT_SBRK limit incr h)) = (blocks', h')"
    and all: "blocks = (if fst (ALT_SBRK limit incr h) = - 1 then blocks' else (fst (ALT_SBRK limit incr h), incr) # blocks')"
    using Cons.prems(5) by (auto split: prod.splits)
  show ?case
  proof (cases "unat (round_up h) + nat incr \<le> unat limit")
    case True
    then have h1: "snd (ALT_SBRK limit incr h) = round_up h + of_int incr" and p: "fst (ALT_SBRK limit incr h) = round_up h"
      using b(1) by simp_all
    have "unat (- 1 :: u32) = 4294967295" by (simp add: unsigned_minus_1_eq_mask mask_eq_exp_minus_1)
    then have "round_up h \<noteq> - 1" using b(5) Cons.prems(2) by auto
    then have bl: "blocks = (round_up h, incr) # blocks'" using all p by simp
    have IH: "unat (round_up h + of_int incr) \<le> unat h' \<and> unat h' \<le> unat limit \<and>
        (\<forall>b \<in> set blocks'. aligned (fst b) \<and> block b \<subseteq> {unat (round_up h + of_int incr) ..< unat h'}) \<and>
        sorted_wrt (\<lambda>b c. \<forall>x \<in> block b. \<forall>y \<in> block c. x < y) blocks'"
      using Cons.IH [of "round_up h + of_int incr" blocks'] Cons.prems(2-4) rest h1 b(6) True by simp
    then show ?thesis using b(2-6) unfolding bl by (fastforce simp: block_def)
  next
    case False
    then have "snd (ALT_SBRK limit incr h) = round_up h" "fst (ALT_SBRK limit incr h) = - 1" using b(1) by simp_all
    then show ?thesis using Cons.IH [of "round_up h" blocks'] Cons.prems(2-4) rest all b(5) b(3) by fastforce
  qed
qed auto

end
