(* ===== verification/Hal_Gmon.thy ===== *)
theory Hal_Gmon
  imports Hal_Heap Hal_Time
begin

text \<open>
  The profiler of the HAL (\<open>HAL/src/alt_gmon.c\<close> and the search of \<open>mcount\<close> in \<open>HAL/src/alt_mcount.S\<close>): the
  compiler calls \<open>mcount\<close> at the start of every function with the address of the function (\<open>self_pc\<close>) and of its
  caller (\<open>from_pc\<close>); it counts the calls in lists in memory, one list for each of 64 hash buckets, and the tick of
  the clock samples the program counter into a histogram. The profiler is the world of the timer.

  The result \<open>None\<close> of a call is an access to a word that is not aligned, or a search that does not end. Interrupts
  between a search of \<open>mcount\<close> and the update that follows are not modelled.
\<close>

unbundle bit_operations_syntax

text \<open>What the linker decides.\<close>

record linker =
  alt_heap_limit :: u32
  stext :: u32
  etext :: u32
  mcount_fn_head :: u32

record profiler =
  memory :: memory
  heap_end :: u32
  pcsample_need_init :: int
  s_pcsamples :: u32
  alt_gmon_data :: "u32 list"
  mcount_slab_ptr :: u32
  mcount_slab_size :: u32

definition PCSAMPLE_BYTES_PER_BUCKET :: u32 where "PCSAMPLE_BYTES_PER_BUCKET = 32"
definition HASH_BUCKETS :: nat where "HASH_BUCKETS = 64"
definition MCOUNT_SLAB_INCREMENT :: u32 where "MCOUNT_SLAB_INCREMENT = 1020"
definition GMON_DATA_PROFILE_DATA :: nat where "GMON_DATA_PROFILE_DATA = 2"
definition GMON_DATA_PROFILE_RATE :: nat where "GMON_DATA_PROFILE_RATE = 6"
definition GMON_DATA_SIZE :: nat where "GMON_DATA_SIZE = 9"

definition profiler_init :: "linker \<Rightarrow> u32 \<Rightarrow> memory \<Rightarrow> profiler" where
  "profiler_init L alt_heap_start m = \<lparr>memory = m, heap_end = alt_heap_start, pcsample_need_init = 1, s_pcsamples = 0,
     alt_gmon_data = [0x6e6f6d67, of_nat GMON_DATA_SIZE, 0, stext L, etext L, PCSAMPLE_BYTES_PER_BUCKET, 0, mcount_fn_head L,
       mcount_fn_head L + of_nat (4 * HASH_BUCKETS)],
     mcount_slab_ptr = 0, mcount_slab_size = 0\<rparr>"

text \<open>\<open>struct mcount_fn_arc\<close> and \<open>struct mcount_fn_entry\<close>: three words, the first is \<open>next\<close>.\<close>

definition ARC_FROM :: u32 where "ARC_FROM = 4"
definition ARC_COUNT :: u32 where "ARC_COUNT = 8"
definition FN_SELF :: u32 where "FN_SELF = 4"
definition FN_ARCS :: u32 where "FN_ARCS = 8"
definition SIZEOF_ARC :: u32 where "SIZEOF_ARC = 12"
definition SIZEOF_ENTRY :: u32 where "SIZEOF_ENTRY = 12"

section \<open>Allocation\<close>

definition prof_sbrk :: "linker \<Rightarrow> int \<Rightarrow> profiler \<Rightarrow> u32 \<times> profiler" where
  "prof_sbrk L incr p = (let (r, h) = ALT_SBRK (alt_heap_limit L) incr (heap_end p) in (r, p\<lparr>heap_end := h\<rparr>))"

definition mcount_allocate :: "linker \<Rightarrow> u32 \<Rightarrow> profiler \<Rightarrow> u32 \<times> profiler" where
  "mcount_allocate L sz p =
    (let p = (if sz > mcount_slab_size p
              then (let (r, p) = prof_sbrk L (uint MCOUNT_SLAB_INCREMENT) p
                    in p\<lparr>mcount_slab_ptr := r, mcount_slab_size := MCOUNT_SLAB_INCREMENT\<rparr>)
              else p);
         d = mcount_slab_ptr p
     in (d, p\<lparr>mcount_slab_ptr := mcount_slab_ptr p + sz, mcount_slab_size := mcount_slab_size p - sz\<rparr>))"

section \<open>The histogram\<close>

text \<open>\<open>callback\<close> is the number of \<open>nios2_pcsample\<close>, \<open>alarm\<close> the address of its alarm.\<close>

definition nios2_pcsample_init :: "linker \<Rightarrow> ptr \<Rightarrow> nat \<Rightarrow> profiler timer \<Rightarrow> int \<times> profiler timer" where
  "nios2_pcsample_init L s_nios2_pcsample_alarm callback t =
    (let prof_rate = alt_ticks_per_second t
     in if prof_rate = 0 then (1, t)
        else (let pcsamples_size = (etext L - stext L) div PCSAMPLE_BYTES_PER_BUCKET;
                  (r, p) = prof_sbrk L (sint (pcsamples_size * 2)) (tworld t);
                  t = t\<lparr>tworld := p\<lparr>s_pcsamples := r\<rparr>\<rparr>
              in (0, if r \<noteq> 0
                     then (let p = tworld t;
                               p = p\<lparr>memory := memset r 0 (pcsamples_size * 2) (memory p)\<rparr>;
                               p = p\<lparr>alt_gmon_data := (alt_gmon_data p)[GMON_DATA_PROFILE_DATA := r, GMON_DATA_PROFILE_RATE := prof_rate]\<rparr>
                           in snd (alt_alarm_start (Some s_nios2_pcsample_alarm) 1 callback 0 (t\<lparr>tworld := p\<rparr>)))
                     else t)))"

definition nios2_pcsample :: "linker \<Rightarrow> u32 \<Rightarrow> profiler \<Rightarrow> (u32 \<times> profiler) option" where
  "nios2_pcsample L pc p =
    (if pc \<ge> stext L \<and> pc < etext L \<and> s_pcsamples p \<noteq> 0
     then (let bucket = (pc - stext L) div PCSAMPLE_BYTES_PER_BUCKET; a = s_pcsamples p + 2 * bucket
           in do {
             v \<leftarrow> ldhu (memory p) a;
             m \<leftarrow> sth a (v + 1) (memory p);
             Some (1, p\<lparr>memory := m\<rparr>)
           })
     else Some (1, p))"

section \<open>The call graph\<close>

definition prof_stw :: "u32 \<Rightarrow> u32 \<Rightarrow> profiler \<Rightarrow> profiler option" where
  "prof_stw a v p = do { m \<leftarrow> stw a v (memory p); Some (p\<lparr>memory := m\<rparr>) }"

definition add_entry :: "linker \<Rightarrow> u32 \<Rightarrow> u32 \<Rightarrow> profiler \<Rightarrow> (u32 \<times> profiler) option" where
  "add_entry L self_pc fn_head p =
    (let (fn_entry, p) = mcount_allocate L SIZEOF_ENTRY p
     in do {
       p \<leftarrow> prof_stw (fn_entry + FN_SELF) self_pc p;
       p \<leftarrow> prof_stw (fn_entry + FN_ARCS) 0 p;
       next \<leftarrow> ldw (memory p) fn_head;
       p \<leftarrow> prof_stw fn_entry next p;
       p \<leftarrow> prof_stw fn_head fn_entry p;
       Some (fn_entry, p)
     })"

definition add_arc :: "linker \<Rightarrow> u32 \<Rightarrow> u32 \<Rightarrow> profiler \<Rightarrow> profiler option" where
  "add_arc L from_pc fn_entry p =
    (let (arc_entry, p) = mcount_allocate L SIZEOF_ARC p
     in do {
       p \<leftarrow> prof_stw (arc_entry + ARC_FROM) from_pc p;
       p \<leftarrow> prof_stw (arc_entry + ARC_COUNT) 1 p;
       next \<leftarrow> ldw (memory p) (fn_entry + FN_ARCS);
       p \<leftarrow> prof_stw arc_entry next p;
       prof_stw (fn_entry + FN_ARCS) arc_entry p
     })"

definition mcount_record ::
  "linker \<Rightarrow> ptr \<Rightarrow> nat \<Rightarrow> u32 \<Rightarrow> u32 \<Rightarrow> u32 \<Rightarrow> u32 \<Rightarrow> profiler timer \<Rightarrow> profiler timer option" where
  "mcount_record L alarm callback self_pc from_pc fn_entry fn_head t =
    (let t = (if pcsample_need_init (tworld t) \<noteq> 0
              then (let t = t\<lparr>tworld := (tworld t)\<lparr>pcsample_need_init := 0\<rparr>\<rparr>;
                        (r, t) = nios2_pcsample_init L alarm callback t
                    in t\<lparr>tworld := (tworld t)\<lparr>pcsample_need_init := r\<rparr>\<rparr>)
              else t)
     in do {
       (fn_entry, p) \<leftarrow> (if fn_entry = 0 then add_entry L self_pc fn_head (tworld t) else Some (fn_entry, tworld t));
       p \<leftarrow> add_arc L from_pc fn_entry p;
       Some (t\<lparr>tworld := p\<rparr>)
     })"

text \<open>The two loops of \<open>mcount\<close>: the entry of a function (0 if there is none), and its arc (if there is one).\<close>

partial_function (option) find_entry :: "memory \<Rightarrow> u32 \<Rightarrow> u32 \<Rightarrow> u32 option" where
  "find_entry m self_pc r10 =
    Option.bind (ldw m r10) (\<lambda>r10.
      if r10 = 0 then Some 0
      else Option.bind (ldw m (r10 + FN_SELF)) (\<lambda>r2. if r2 = self_pc then Some r10 else find_entry m self_pc r10))"

declare find_entry.simps [code]

partial_function (option) find_arc :: "memory \<Rightarrow> u32 \<Rightarrow> u32 \<Rightarrow> u32 option option" where
  "find_arc m from_pc r3 =
    Option.bind (ldw m (r3 + ARC_FROM)) (\<lambda>r2.
      if r2 = from_pc then Some (Some r3)
      else Option.bind (ldw m r3) (\<lambda>r3. if r3 = 0 then Some None else find_arc m from_pc r3))"

declare find_arc.simps [code]

definition mcount_head :: "linker \<Rightarrow> u32 \<Rightarrow> u32" where
  "mcount_head L self_pc = (drop_bit 3 self_pc AND 0xFC) + mcount_fn_head L"

definition mcount :: "linker \<Rightarrow> ptr \<Rightarrow> nat \<Rightarrow> u32 \<Rightarrow> u32 \<Rightarrow> profiler timer \<Rightarrow> profiler timer option" where
  "mcount L alarm callback self_pc from_pc t =
    (let m = memory (tworld t); fn_head = mcount_head L self_pc
     in do {
       fn_entry \<leftarrow> find_entry m self_pc fn_head;
       arc \<leftarrow> (if fn_entry = 0 then Some None else do { r3 \<leftarrow> ldw m (fn_entry + FN_ARCS); find_arc m from_pc r3 });
       case arc of
         None \<Rightarrow> mcount_record L alarm callback self_pc from_pc fn_entry fn_head t
       | Some r3 \<Rightarrow> do {
           n \<leftarrow> ldw m (r3 + ARC_COUNT);
           p \<leftarrow> prof_stw (r3 + ARC_COUNT) (n + 1) (tworld t);
           Some (t\<lparr>tworld := p\<rparr>)
         }
     })"

end
