(* ===== verification/Hal_Gmon_Proofs.thy ===== *)
theory Hal_Gmon_Proofs
  imports Hal_Gmon
begin

text \<open>
  What the profiler records. The lists in memory are described by a list of entries (\<open>graph_ok\<close>): the words
  of all nodes are different, none is free memory, and the bucket of a hash value links its entries. The
  operations of \<open>mcount\<close> keep this, and the numbers they record are the numbers of calls.
\<close>

unbundle bit_operations_syntax

section \<open>Lists in memory\<close>

datatype arc = Arc (arc_addr: u32) (arc_from: u32) (arc_count: u32)

datatype entry = Entry (entry_addr: u32) (entry_self: u32) (entry_arcs: "arc list")

primrec chain :: "memory \<Rightarrow> u32 \<Rightarrow> u32 list \<Rightarrow> bool" where
  "chain m p [] \<longleftrightarrow> p = 0"
| "chain m p (a # as) \<longleftrightarrow> p = a \<and> p \<noteq> 0 \<and> chain m (word_at m p) as"

definition node_words :: "u32 \<Rightarrow> u32 list" where "node_words a = [a, a + 4, a + 8]"

definition arc_words :: "arc list \<Rightarrow> u32 list" where "arc_words xs = concat (map (node_words \<circ> arc_addr) xs)"

definition graph_words :: "entry list \<Rightarrow> u32 list" where
  "graph_words E = concat (map (\<lambda>e. node_words (entry_addr e) @ arc_words (entry_arcs e)) E)"

lemma node_in_words [simp]: "a \<in> set (node_words a)" "a + 4 \<in> set (node_words a)" "a + 8 \<in> set (node_words a)"
  by (simp_all add: node_words_def)

lemma words_simps [simp]:
  "arc_words [] = []" "arc_words (x # xs) = node_words (arc_addr x) @ arc_words xs" "arc_words (xs @ ys) = arc_words xs @ arc_words ys"
  "graph_words [] = []" "graph_words (e # E) = node_words (entry_addr e) @ arc_words (entry_arcs e) @ graph_words E"
  "graph_words (E @ F) = graph_words E @ graph_words F"
  by (simp_all add: arc_words_def graph_words_def)

lemma chain_cong: "chain m p as \<Longrightarrow> \<forall>a \<in> set as. word_at m' a = word_at m a \<Longrightarrow> chain m' p as"
  by (induction as arbitrary: p) auto

lemma arc_addrs: "set (map arc_addr xs) \<subseteq> set (arc_words xs)"
  by (induction xs) auto

lemma entry_addrs: "set (map entry_addr E) \<subseteq> set (graph_words E)"
  by (induction E) auto

lemma entry_in_words:
  assumes "e \<in> set E"
  shows "set (node_words (entry_addr e)) \<subseteq> set (graph_words E)" "set (arc_words (entry_arcs e)) \<subseteq> set (graph_words E)"
  using assms by (induction E) auto

lemma arc_in_words: "x \<in> set xs \<Longrightarrow> set (node_words (arc_addr x)) \<subseteq> set (arc_words xs)"
  by (induction xs) auto

section \<open>The two searches\<close>

lemma ldw_aligned [simp]: "aligned a \<Longrightarrow> ldw m a = Some (word_at m a)"
  by (simp add: ldw_def and_3)

lemma find_entry_list:
  assumes "aligned r" "chain m (word_at m r) (map entry_addr E)" "\<forall>e \<in> set E. aligned (entry_addr e) \<and> aligned (entry_addr e + 4) \<and>
      word_at m (entry_addr e + 4) = entry_self e"
  shows "find_entry m s r = Some (case find (\<lambda>e. entry_self e = s) E of None \<Rightarrow> 0 | Some e \<Rightarrow> entry_addr e)"
  using assms
proof (induction E arbitrary: r)
  case Nil
  then show ?case by (subst find_entry.simps) simp
next
  case (Cons e E)
  then show ?case by (subst find_entry.simps) (auto simp: FN_SELF_def)
qed

lemma find_arc_list:
  assumes "xs \<noteq> []" "chain m p (map arc_addr xs)" "\<forall>x \<in> set xs. aligned (arc_addr x) \<and> aligned (arc_addr x + 4) \<and>
      word_at m (arc_addr x + 4) = arc_from x"
  shows "find_arc m f p = Some (map_option arc_addr (find (\<lambda>x. arc_from x = f) xs))"
  using assms
proof (induction xs arbitrary: p)
  case (Cons x xs)
  show ?case
  proof (cases xs)
    case Nil
    then show ?thesis using Cons.prems by (subst find_arc.simps) (auto simp: ARC_FROM_def)
  next
    case (Cons y ys)
    then show ?thesis using Cons.IH [of "word_at m p"] Cons.prems by (subst find_arc.simps) (auto simp: ARC_FROM_def)
  qed
qed simp

section \<open>Hash buckets\<close>

definition bucket_of :: "u32 \<Rightarrow> nat" where "bucket_of s = unat (drop_bit 5 s AND 63)"

definition bucket_head :: "linker \<Rightarrow> nat \<Rightarrow> u32" where "bucket_head L b = mcount_fn_head L + of_nat (4 * b)"

definition heads :: "linker \<Rightarrow> u32 set" where "heads L = bucket_head L ` {..< HASH_BUCKETS}"

lemma bucket_of_less: "bucket_of s < HASH_BUCKETS"
proof -
  have "drop_bit 5 s AND 63 = take_bit 6 (drop_bit 5 s)" by (simp add: take_bit_eq_mask mask_eq_exp_minus_1)
  then have "bucket_of s = unat (drop_bit 5 s mod 64)" by (simp add: bucket_of_def take_bit_eq_mod)
  also have "\<dots> = unat (drop_bit 5 s) mod 64" by (simp only: unat_mod_distrib) simp
  finally have "bucket_of s = unat (drop_bit 5 s) mod 64" .
  then show ?thesis by (simp add: HASH_BUCKETS_def)
qed

lemma mcount_head_bucket: "mcount_head L s = bucket_head L (bucket_of s)"
proof -
  have m: "(63 :: u32) = Bit_Operations.mask 6" "(0xFC :: u32) = push_bit 2 (Bit_Operations.mask 6)" by (simp_all add: mask_eq_exp_minus_1)
  have "drop_bit 3 s AND 0xFC = push_bit 2 (drop_bit 5 s AND 63)"
    unfolding m by (rule bit_word_eqI) (auto simp: bit_simps)
  also have "\<dots> = of_nat (4 * bucket_of s)" by (simp add: push_bit_eq_mult bucket_of_def mult.commute)
  finally show ?thesis by (simp add: mcount_head_def bucket_head_def add.commute)
qed

lemma head_in_heads [simp]: "b < HASH_BUCKETS \<Longrightarrow> bucket_head L b \<in> heads L"
  by (simp add: heads_def)

lemma bucket_head_inject:
  assumes "b < HASH_BUCKETS" "c < HASH_BUCKETS"
  shows "bucket_head L b = bucket_head L c \<longleftrightarrow> b = c"
proof -
  have "unat (of_nat (4 * b) :: u32) = 4 * b" "unat (of_nat (4 * c) :: u32) = 4 * c"
    using assms by (auto intro!: of_nat_inverse simp: HASH_BUCKETS_def)
  then have "of_nat (4 * b) = (of_nat (4 * c) :: u32) \<longleftrightarrow> b = c" by (metis mult_cancel1 zero_neq_numeral)
  then show ?thesis by (simp add: bucket_head_def)
qed

section \<open>Free memory\<close>

definition heap_ok :: "linker \<Rightarrow> profiler \<Rightarrow> bool" where
  "heap_ok L p \<longleftrightarrow> 0 < unat (heap_end p) \<and> unat (heap_end p) \<le> unat (alt_heap_limit L) \<and>
     unat (alt_heap_limit L) < 2 ^ 31 \<and> 4 dvd unat (alt_heap_limit L) \<and>
     unat (mcount_slab_size p) \<le> 1020 \<and> 12 dvd unat (mcount_slab_size p) \<and>
     (mcount_slab_size p \<noteq> 0 \<longrightarrow> aligned (mcount_slab_ptr p) \<and> mcount_slab_ptr p \<noteq> 0 \<and>
        unat (mcount_slab_ptr p) + unat (mcount_slab_size p) \<le> unat (heap_end p))"

text \<open>A word below the end of the heap that is not in the free part of the slab.\<close>

definition used :: "profiler \<Rightarrow> u32 \<Rightarrow> bool" where
  "used p w \<longleftrightarrow> unat w + 4 \<le> unat (heap_end p) \<and> (mcount_slab_size p = 0 \<or> unat w + 4 \<le> unat (mcount_slab_ptr p) \<or>
     unat (mcount_slab_ptr p) + unat (mcount_slab_size p) \<le> unat w)"

text \<open>There is memory for \<open>k\<close> more nodes, with 85 nodes in a slab and at most three bytes lost for each slab.\<close>

definition room :: "linker \<Rightarrow> profiler \<Rightarrow> nat \<Rightarrow> bool" where
  "room L p k \<longleftrightarrow> unat (heap_end p) + 1024 * ((k + 84 - unat (mcount_slab_size p) div 12) div 85) \<le> unat (alt_heap_limit L)"

lemma memory_only [simp]:
  "heap_ok L (p\<lparr>memory := m\<rparr>) = heap_ok L p" "used (p\<lparr>memory := m\<rparr>) w = used p w" "room L (p\<lparr>memory := m\<rparr>) k = room L p k"
  by (simp_all add: heap_ok_def used_def room_def)

lemma room_mono: "room L p k \<Longrightarrow> j \<le> k \<Longrightarrow> room L p j"
  unfolding room_def by (erule order_trans [rotated]) (simp add: div_le_mono)

lemma unat_plus: "unat a + unat b < 2 ^ 32 \<Longrightarrow> unat (a + b) = unat a + unat (b :: u32)"
  by (simp add: unat_plus_if_size word_size)

lemma node_words_nat:
  assumes "aligned d" "unat d + 12 < 2 ^ 32" "w \<in> set (node_words d)"
  shows "aligned w" "unat d \<le> unat w" "unat w + 4 \<le> unat d + 12"
proof -
  have "unat (d + 4) = unat d + 4" "unat (d + 8) = unat d + 8" using assms(2) by (simp_all add: unat_plus)
  then show "aligned w" "unat d \<le> unat w" "unat w + 4 \<le> unat d + 12"
    using assms(1,3) by (auto simp: node_words_def aligned_def)
qed

lemma allocate:
  assumes "heap_ok L p" "room L p (Suc k)"
  obtains d h q z where "mcount_allocate L 12 p = (d, p\<lparr>heap_end := h, mcount_slab_ptr := q, mcount_slab_size := z\<rparr>)"
    "aligned d" "d \<noteq> 0" "heap_ok L (p\<lparr>heap_end := h, mcount_slab_ptr := q, mcount_slab_size := z\<rparr>)"
    "room L (p\<lparr>heap_end := h, mcount_slab_ptr := q, mcount_slab_size := z\<rparr>) k"
    "\<And>w. used p w \<Longrightarrow> used (p\<lparr>heap_end := h, mcount_slab_ptr := q, mcount_slab_size := z\<rparr>) w"
    "\<And>w. w \<in> set (node_words d) \<Longrightarrow> aligned w \<and> \<not> used p w \<and>
       used (p\<lparr>heap_end := h, mcount_slab_ptr := q, mcount_slab_size := z\<rparr>) w"
    "mcount_slab_size p = 0 \<Longrightarrow> d = round_up (heap_end p)"
proof (cases "mcount_slab_size p = 0")
  case False
  let ?d = "mcount_slab_ptr p" and ?z = "mcount_slab_size p"
  have slab: "aligned ?d" "?d \<noteq> 0" "unat ?d + unat ?z \<le> unat (heap_end p)" "unat (heap_end p) < 2 ^ 31" "12 dvd unat ?z"
    "unat ?z \<le> 1020" using assms(1) False by (auto simp: heap_ok_def)
  have "0 < unat ?z" using False by (simp add: unat_gt_0)
  then have z: "12 \<le> unat ?z" using slab(5) by (rule dvd_imp_le [rotated])
  then have "\<not> ?z < 12" by (simp add: word_less_nat_alt)
  then have alloc: "mcount_allocate L 12 p = (?d, p\<lparr>heap_end := heap_end p, mcount_slab_ptr := ?d + 12, mcount_slab_size := ?z - 12\<rparr>)"
    by (simp add: mcount_allocate_def Let_def)
  have u: "unat (?d + 12) = unat ?d + 12" "unat (?z - 12) = unat ?z - 12"
    using z slab(3,4) by (simp_all add: unat_plus unat_sub_if_size word_size)
  have nz: "?d + 12 \<noteq> 0" using u(1) by (metis add_is_0 unat_0 zero_neq_numeral)
  have zero: "?z - 12 = 0 \<longleftrightarrow> unat ?z = 12" using u(2) z by (simp add: unat_eq_0 [symmetric] del: unat_eq_0)
  show thesis
  proof (rule that [OF alloc slab(1,2)])
    show "heap_ok L (p\<lparr>heap_end := heap_end p, mcount_slab_ptr := ?d + 12, mcount_slab_size := ?z - 12\<rparr>)"
      using assms(1) slab u z nz by (auto simp: heap_ok_def aligned_def)
    have "Suc k + 84 - unat ?z div 12 = k + 84 - unat (?z - 12) div 12" using z u(2) by simp
    then show "room L (p\<lparr>heap_end := heap_end p, mcount_slab_ptr := ?d + 12, mcount_slab_size := ?z - 12\<rparr>) k"
      using assms(2) by (simp add: room_def)
  next
    fix w assume "used p w"
    then show "used (p\<lparr>heap_end := heap_end p, mcount_slab_ptr := ?d + 12, mcount_slab_size := ?z - 12\<rparr>) w"
      using False u z by (auto simp: used_def)
  next
    fix w assume w: "w \<in> set (node_words ?d)"
    have "unat ?d + 12 < 2 ^ 32" using slab(3,4) z by simp
    note node_words_nat [OF slab(1) this w]
    then show "aligned w \<and> \<not> used p w \<and> used (p\<lparr>heap_end := heap_end p, mcount_slab_ptr := ?d + 12, mcount_slab_size := ?z - 12\<rparr>) w"
      using False u z slab(3) by (auto simp: used_def)
  qed (use False in simp)
next
  case True
  let ?d = "round_up (heap_end p)"
  have h: "unat (heap_end p) \<le> unat (alt_heap_limit L)" "unat (alt_heap_limit L) < 2 ^ 31" "4 dvd unat (alt_heap_limit L)"
    "0 < unat (heap_end p)" using assms(1) by (simp_all add: heap_ok_def)
  note b = sbrk_block [OF h(1-3), of 1020, simplified]
  have "(Suc k + 84) div 85 = Suc (k div 85)" by simp
  then have r: "unat (heap_end p) + 1024 + 1024 * (k div 85) \<le> unat (alt_heap_limit L)"
    using assms(2) True by (simp add: room_def)
  then have fits: "unat ?d + 1020 \<le> unat (alt_heap_limit L)" using b(4) by linarith
  let ?p = "p\<lparr>heap_end := ?d + 1020, mcount_slab_ptr := ?d + 12, mcount_slab_size := 1008\<rparr>"
  have alloc: "mcount_allocate L 12 p = (?d, ?p)"
    using b(1) fits True by (simp add: mcount_allocate_def prof_sbrk_def MCOUNT_SLAB_INCREMENT_def Let_def)
  have d: "0 < unat ?d" "unat ?d + 1020 < 2 ^ 31" using b(3) h(2,4) fits by linarith+
  have u: "unat (?d + 12) = unat ?d + 12" using d(2) by (simp add: unat_plus)
  show thesis
  proof (rule that [OF alloc b(2)])
    show "?d \<noteq> 0" using d(1) by auto
    have "?d + 12 \<noteq> 0" using u(1) by (metis add_is_0 unat_0 zero_neq_numeral)
    then show "heap_ok L ?p" using assms(1) b u fits by (auto simp: heap_ok_def aligned_def)
    have "(k + 84 - 84) div 85 = k div 85" by simp
    then show "room L ?p k" using r b(4,6) by (simp add: room_def)
  next
    fix w assume "used p w"
    then show "used ?p w" using b(3,6) u by (auto simp: used_def)
  next
    fix w assume w: "w \<in> set (node_words ?d)"
    have "unat ?d + 12 < 2 ^ 32" using d(2) by simp
    note node_words_nat [OF b(2) this w]
    then show "aligned w \<and> \<not> used p w \<and> used ?p w" using True u b(3,6) by (auto simp: used_def)
  qed simp
qed

section \<open>The call graph in memory\<close>

definition bucket :: "nat \<Rightarrow> entry list \<Rightarrow> entry list" where
  "bucket b E = filter (\<lambda>e. bucket_of (entry_self e) = b) E"

definition entry_at :: "memory \<Rightarrow> entry \<Rightarrow> bool" where
  "entry_at m e \<longleftrightarrow> word_at m (entry_addr e + 4) = entry_self e \<and>
     chain m (word_at m (entry_addr e + 8)) (map arc_addr (entry_arcs e)) \<and>
     (\<forall>x \<in> set (entry_arcs e). word_at m (arc_addr x + 4) = arc_from x \<and> word_at m (arc_addr x + 8) = arc_count x) \<and>
     distinct (map arc_from (entry_arcs e))"

definition graph_ok :: "linker \<Rightarrow> profiler \<Rightarrow> entry list \<Rightarrow> bool" where
  "graph_ok L p E \<longleftrightarrow>
     (\<forall>b < HASH_BUCKETS. chain (memory p) (word_at (memory p) (bucket_head L b)) (map entry_addr (bucket b E))) \<and>
     (\<forall>e \<in> set E. entry_at (memory p) e) \<and> distinct (graph_words E) \<and> distinct (map entry_self E) \<and>
     set (graph_words E) \<inter> heads L = {} \<and> (\<forall>w \<in> set (graph_words E) \<union> heads L. aligned w \<and> used p w)"

definition same_sampler :: "profiler \<Rightarrow> profiler \<Rightarrow> bool" where
  "same_sampler p p' \<longleftrightarrow> pcsample_need_init p' = pcsample_need_init p \<and> s_pcsamples p' = s_pcsamples p \<and>
     alt_gmon_data p' = alt_gmon_data p"

lemma put_word_at:
  "aligned a \<Longrightarrow> aligned b \<Longrightarrow> word_at (put_word a v m) b = (if b = a then v else word_at m b)"
  by (simp add: other_word)

lemma prof_stw_aligned: "aligned a \<Longrightarrow> prof_stw a v p = Some (p\<lparr>memory := put_word a v (memory p)\<rparr>)"
  by (simp add: prof_stw_def stw_def and_3)

lemma entry_cong:
  assumes "entry_at m e" "\<forall>w \<in> set (node_words (entry_addr e)) \<union> set (arc_words (entry_arcs e)). word_at m' w = word_at m w"
  shows "entry_at m' e"
proof -
  have "word_at m' (arc_addr x + 4) = word_at m (arc_addr x + 4) \<and> word_at m' (arc_addr x + 8) = word_at m (arc_addr x + 8)"
    if "x \<in> set (entry_arcs e)" for x
    using assms(2) arc_in_words [OF that] node_in_words(2,3) [of "arc_addr x"] by blast
  moreover have "chain m' (word_at m (entry_addr e + 8)) (map arc_addr (entry_arcs e))"
    by (rule chain_cong [of m]) (use assms arc_addrs [of "entry_arcs e"] in \<open>auto simp: entry_at_def\<close>)
  ultimately show ?thesis using assms by (simp add: entry_at_def)
qed

lemma bucket_addrs: "set (map entry_addr (bucket b E)) \<subseteq> set (graph_words E)"
  using entry_addrs [of E] by (auto simp: bucket_def)

lemma graph_word:
  assumes "graph_ok L p E" "w \<in> set (graph_words E) \<union> heads L"
  shows "aligned w" "used p w"
  using assms by (auto simp: graph_ok_def)

lemma graph_aligned:
  assumes "graph_ok L p E" "e \<in> set E"
  shows "aligned (entry_addr e)" "aligned (entry_addr e + 4)" "aligned (entry_addr e + 8)"
    and "x \<in> set (entry_arcs e) \<Longrightarrow> aligned (arc_addr x) \<and> aligned (arc_addr x + 4) \<and> aligned (arc_addr x + 8)"
proof -
  have w: "aligned w" if "w \<in> set (graph_words E)" for w using graph_word [OF assms(1)] that by blast
  then show "aligned (entry_addr e)" "aligned (entry_addr e + 4)" "aligned (entry_addr e + 8)"
    using entry_in_words(1) [OF assms(2)] node_in_words by blast+
  show "aligned (arc_addr x) \<and> aligned (arc_addr x + 4) \<and> aligned (arc_addr x + 8)" if "x \<in> set (entry_arcs e)"
    using w arc_in_words [OF that] entry_in_words(2) [OF assms(2)] node_in_words [of "arc_addr x"] by blast
qed

lemma graph_chain:
  assumes "graph_ok L p E" "b < HASH_BUCKETS" "\<forall>e \<in> set E. word_at m (entry_addr e) = word_at (memory p) (entry_addr e)"
  shows "chain m (word_at (memory p) (bucket_head L b)) (map entry_addr (bucket b E))"
proof (rule chain_cong)
  show "chain (memory p) (word_at (memory p) (bucket_head L b)) (map entry_addr (bucket b E))"
    using assms(1,2) by (simp add: graph_ok_def)
  show "\<forall>a \<in> set (map entry_addr (bucket b E)). word_at m a = word_at (memory p) a"
    using assms(3) by (simp add: bucket_def)
qed

text \<open>A new entry.\<close>

lemma add_entry_ok:
  assumes g: "graph_ok L p E" and h: "heap_ok L p" "room L p (Suc k)" and s: "s \<notin> set (map entry_self E)"
  obtains d p' where "add_entry L s (bucket_head L (bucket_of s)) p = Some (d, p')" "d \<noteq> 0" "graph_ok L p' (Entry d s [] # E)"
    "heap_ok L p'" "room L p' k" "same_sampler p p'" "mcount_slab_size p = 0 \<Longrightarrow> d = round_up (heap_end p)"
proof -
  let ?H = "bucket_head L (bucket_of s)"
  obtain d h q z where alloc: "mcount_allocate L 12 p = (d, p\<lparr>heap_end := h, mcount_slab_ptr := q, mcount_slab_size := z\<rparr>)"
    and d: "aligned d" "d \<noteq> 0" and h': "heap_ok L (p\<lparr>heap_end := h, mcount_slab_ptr := q, mcount_slab_size := z\<rparr>)"
    "room L (p\<lparr>heap_end := h, mcount_slab_ptr := q, mcount_slab_size := z\<rparr>) k"
    and used: "\<And>w. used p w \<Longrightarrow> used (p\<lparr>heap_end := h, mcount_slab_ptr := q, mcount_slab_size := z\<rparr>) w"
    and new: "\<And>w. w \<in> set (node_words d) \<Longrightarrow> aligned w \<and> \<not> used p w \<and>
       used (p\<lparr>heap_end := h, mcount_slab_ptr := q, mcount_slab_size := z\<rparr>) w"
    and first: "mcount_slab_size p = 0 \<Longrightarrow> d = round_up (heap_end p)"
    using allocate [OF h] by metis
  let ?p = "p\<lparr>heap_end := h, mcount_slab_ptr := q, mcount_slab_size := z\<rparr>"
  have fresh: "w \<notin> set (node_words d)" if "w \<in> set (graph_words E) \<union> heads L" for w
    using graph_word(2) [OF g that] new [of w] by blast
  have al: "aligned ?H" "aligned (d + 4)" "aligned (d + 8)"
    using graph_word(1) [OF g, of ?H] new bucket_of_less [of s] by simp_all
  have dist: "?H \<noteq> d" "?H \<noteq> d + 4" "?H \<noteq> d + 8"
    using fresh [of ?H] bucket_of_less [of s] by (auto simp: node_words_def)
  define m where "m = put_word ?H d (put_word d (word_at (memory p) ?H) (put_word (d + 8) 0 (put_word (d + 4) s (memory p))))"
  have at: "word_at m w = (if w = ?H then d else if w = d then word_at (memory p) ?H else if w = d + 8 then 0
      else if w = d + 4 then s else word_at (memory p) w)" if "aligned w" for w
    using that d al dist by (simp add: m_def put_word_at)
  have run: "add_entry L s ?H p = Some (d, ?p\<lparr>memory := m\<rparr>)"
    using alloc d al dist by (simp add: add_entry_def SIZEOF_ENTRY_def FN_SELF_def FN_ARCS_def prof_stw_aligned m_def put_word_at)
  have old: "word_at m w = word_at (memory p) w" if "w \<in> set (graph_words E)" for w
  proof -
    have "aligned w" "w \<noteq> ?H" "w \<notin> set (node_words d)"
      using that g fresh bucket_of_less [of s] by (auto simp: graph_ok_def)
    then show ?thesis by (simp add: at node_words_def)
  qed
  have "graph_ok L (?p\<lparr>memory := m\<rparr>) (Entry d s [] # E)"
    unfolding graph_ok_def
  proof (intro conjI allI ballI impI)
    fix b assume b: "b < HASH_BUCKETS"
    have lb: "chain m (word_at (memory p) (bucket_head L b)) (map entry_addr (bucket b E))"
      by (rule graph_chain [OF g b]) (use old entry_addrs [of E] in auto)
    show "chain (memory (?p\<lparr>memory := m\<rparr>)) (word_at (memory (?p\<lparr>memory := m\<rparr>)) (bucket_head L b))
        (map entry_addr (bucket b (Entry d s [] # E)))"
    proof (cases "b = bucket_of s")
      case True
      then show ?thesis using lb d al dist by (simp add: bucket_def at)
    next
      case False
      then have "bucket_head L b \<noteq> ?H" using b bucket_of_less [of s] bucket_head_inject by blast
      moreover have "aligned (bucket_head L b)" "bucket_head L b \<notin> set (node_words d)" using b g fresh by (auto simp: graph_ok_def)
      ultimately show ?thesis using lb False by (simp add: bucket_def at node_words_def)
    qed
  next
    fix e assume "e \<in> set (Entry d s [] # E)"
    moreover have "entry_at m (Entry d s [])" using al dist by (simp add: entry_at_def at)
    moreover have "entry_at m e" if "e \<in> set E" for e
      by (rule entry_cong [of "memory p"]) (use g that entry_in_words [OF that] old in \<open>auto simp: graph_ok_def\<close>)
    ultimately show "entry_at (memory (?p\<lparr>memory := m\<rparr>)) e" by auto
  next
    show "distinct (graph_words (Entry d s [] # E))" using g fresh by (auto simp: graph_ok_def node_words_def)
    show "distinct (map entry_self (Entry d s [] # E))" using g s by (simp add: graph_ok_def)
    show "set (graph_words (Entry d s [] # E)) \<inter> heads L = {}" using g fresh by (auto simp: graph_ok_def)
  next
    fix w assume "w \<in> set (graph_words (Entry d s [] # E)) \<union> heads L"
    then have "w \<in> set (node_words d) \<or> w \<in> set (graph_words E) \<union> heads L" by simp
    then show "aligned w" "used (?p\<lparr>memory := m\<rparr>) w" using graph_word [OF g] used new by (simp, blast)+
  qed
  then show thesis
    using that [OF run d(2)] h' first by (simp add: same_sampler_def)
qed

text \<open>A new arc.\<close>

lemma add_arc_ok:
  assumes g: "graph_ok L p (E1 @ Entry a s xs # E2)" and h: "heap_ok L p" "room L p (Suc k)" and f: "f \<notin> set (map arc_from xs)"
  obtains d p' where "add_arc L f a p = Some p'" "graph_ok L p' (E1 @ Entry a s (Arc d f 1 # xs) # E2)"
    "heap_ok L p'" "room L p' k" "same_sampler p p'"
proof -
  let ?E = "E1 @ Entry a s xs # E2"
  obtain d h q z where alloc: "mcount_allocate L 12 p = (d, p\<lparr>heap_end := h, mcount_slab_ptr := q, mcount_slab_size := z\<rparr>)"
    and d: "aligned d" "d \<noteq> 0" and h': "heap_ok L (p\<lparr>heap_end := h, mcount_slab_ptr := q, mcount_slab_size := z\<rparr>)"
    "room L (p\<lparr>heap_end := h, mcount_slab_ptr := q, mcount_slab_size := z\<rparr>) k"
    and used: "\<And>w. used p w \<Longrightarrow> used (p\<lparr>heap_end := h, mcount_slab_ptr := q, mcount_slab_size := z\<rparr>) w"
    and new: "\<And>w. w \<in> set (node_words d) \<Longrightarrow> aligned w \<and> \<not> used p w \<and>
       used (p\<lparr>heap_end := h, mcount_slab_ptr := q, mcount_slab_size := z\<rparr>) w"
    using allocate [OF h] by metis
  let ?p = "p\<lparr>heap_end := h, mcount_slab_ptr := q, mcount_slab_size := z\<rparr>"
  let ?F = "E1 @ Entry a s (Arc d f 1 # xs) # E2"
  have fresh: "w \<notin> set (node_words d)" if "w \<in> set (graph_words ?E) \<union> heads L" for w
    using graph_word(2) [OF g that] new [of w] by blast
  have al: "aligned a" "aligned (a + 4)" "aligned (a + 8)" "aligned (d + 4)" "aligned (d + 8)"
    using graph_aligned [OF g, of "Entry a s xs"] new by simp_all
  have dist: "a + 8 \<noteq> d" "a + 8 \<noteq> d + 4" "a + 8 \<noteq> d + 8" using fresh [of "a + 8"] by (auto simp: node_words_def)
  define m where "m = put_word (a + 8) d (put_word d (word_at (memory p) (a + 8)) (put_word (d + 8) 1 (put_word (d + 4) f (memory p))))"
  have at: "word_at m w = (if w = a + 8 then d else if w = d then word_at (memory p) (a + 8) else if w = d + 8 then 1
      else if w = d + 4 then f else word_at (memory p) w)" if "aligned w" for w
    using that d al dist by (simp add: m_def put_word_at)
  have run: "add_arc L f a p = Some (?p\<lparr>memory := m\<rparr>)"
    using alloc d al dist by (simp add: add_arc_def SIZEOF_ARC_def ARC_FROM_def ARC_COUNT_def FN_ARCS_def prof_stw_aligned m_def put_word_at)
  have old: "word_at m w = word_at (memory p) w" if "w \<in> set (graph_words ?E) \<union> heads L" "w \<noteq> a + 8" for w
  proof -
    have "aligned w" "w \<notin> set (node_words d)" using graph_word(1) [OF g that(1)] fresh [OF that(1)] by simp_all
    then show ?thesis using that(2) by (simp add: at node_words_def)
  qed
  have disj: "distinct (graph_words E1 @ node_words a @ arc_words xs @ graph_words E2)" "set (graph_words ?E) \<inter> heads L = {}"
    using g by (simp_all add: graph_ok_def)
  have apart: "a + 8 \<notin> set (graph_words E1)" "a + 8 \<notin> set (arc_words xs)" "a + 8 \<notin> set (graph_words E2)" "a + 8 \<notin> heads L"
    using disj node_in_words(3) [of a] by (simp only: distinct_append set_append words_simps entry.sel arc.sel, blast)+
  have others: "\<forall>w \<in> set (graph_words E1) \<union> set (arc_words xs) \<union> set (graph_words E2) \<union> {a, a + 4}. word_at m w = word_at (memory p) w"
    using apart by (auto intro!: old)
  have "graph_ok L (?p\<lparr>memory := m\<rparr>) ?F"
    unfolding graph_ok_def
  proof (intro conjI allI ballI impI)
    fix b assume b: "b < HASH_BUCKETS"
    have "bucket_head L b \<noteq> a + 8" using head_in_heads [OF b, of L] apart(4) by metis
    then have "word_at m (bucket_head L b) = word_at (memory p) (bucket_head L b)" using b by (intro old) simp_all
    moreover have "chain m (word_at (memory p) (bucket_head L b)) (map entry_addr (bucket b ?E))"
      by (rule graph_chain [OF g b]) (use others entry_addrs [of E1] entry_addrs [of E2] in auto)
    ultimately show "chain (memory (?p\<lparr>memory := m\<rparr>)) (word_at (memory (?p\<lparr>memory := m\<rparr>)) (bucket_head L b))
        (map entry_addr (bucket b ?F))" by (auto simp: bucket_def split: if_splits)
  next
    fix e assume "e \<in> set ?F"
    moreover have "entry_at m (Entry a s (Arc d f 1 # xs))"
    proof -
      have e: "entry_at (memory p) (Entry a s xs)" using g by (simp add: graph_ok_def)
      have "word_at m (arc_addr x + 4) = word_at (memory p) (arc_addr x + 4) \<and> word_at m (arc_addr x + 8) = word_at (memory p) (arc_addr x + 8)"
        if "x \<in> set xs" for x
        using others arc_in_words [OF that] node_in_words [of "arc_addr x"] by blast
      moreover have "chain m (word_at (memory p) (a + 8)) (map arc_addr xs)"
        by (rule chain_cong [of "memory p"]) (use e others arc_addrs [of xs] in \<open>auto simp: entry_at_def\<close>)
      moreover have "word_at m (a + 4) = s" using others e by (simp add: entry_at_def)
      ultimately show ?thesis using e d al dist f by (simp add: entry_at_def at)
    qed
    moreover have "entry_at m e" if "e \<in> set E1 \<union> set E2" for e
    proof (rule entry_cong)
      show "entry_at (memory p) e" using g that by (auto simp: graph_ok_def)
      show "\<forall>w \<in> set (node_words (entry_addr e)) \<union> set (arc_words (entry_arcs e)). word_at m w = word_at (memory p) w"
        using that entry_in_words [of e E1] entry_in_words [of e E2] others by blast
    qed
    ultimately show "entry_at (memory (?p\<lparr>memory := m\<rparr>)) e" by auto
  next
    have "distinct (node_words d)" by (simp add: node_words_def)
    moreover have "set (graph_words ?E) \<inter> set (node_words d) = {}" using fresh by blast
    ultimately show "distinct (graph_words ?F)" using disj(1) by auto
    show "distinct (map entry_self ?F)" using g by (simp add: graph_ok_def)
    have "set (node_words d) \<inter> heads L = {}" using fresh by blast
    then show "set (graph_words ?F) \<inter> heads L = {}" using disj(2) by auto
  next
    fix w assume "w \<in> set (graph_words ?F) \<union> heads L"
    then have "w \<in> set (node_words d) \<or> w \<in> set (graph_words ?E) \<union> heads L" by auto
    then show "aligned w" "used (?p\<lparr>memory := m\<rparr>) w" using graph_word [OF g] used new by (simp, blast)+
  qed
  then show thesis
    using that [OF run] h' by (simp add: same_sampler_def)
qed

text \<open>Counting a known arc.\<close>

lemma count_arc_ok:
  assumes g: "graph_ok L p (E1 @ Entry a s (xs @ Arc c f n # ys) # E2)"
  shows "graph_ok L (p\<lparr>memory := put_word (c + 8) v (memory p)\<rparr>) (E1 @ Entry a s (xs @ Arc c f v # ys) # E2)"
proof -
  let ?E = "E1 @ Entry a s (xs @ Arc c f n # ys) # E2" and ?F = "E1 @ Entry a s (xs @ Arc c f v # ys) # E2"
  let ?m = "put_word (c + 8) v (memory p)"
  have al: "aligned (c + 8)" using graph_aligned(4) [OF g, of "Entry a s (xs @ Arc c f n # ys)" "Arc c f n"] by simp
  have disj: "distinct (graph_words E1 @ node_words a @ arc_words xs @ node_words c @ arc_words ys @ graph_words E2)"
    "set (graph_words ?E) \<inter> heads L = {}"
    using g by (simp_all add: graph_ok_def)
  have apart: "c + 8 \<notin> set (graph_words E1)" "c + 8 \<notin> set (node_words a)" "c + 8 \<notin> set (arc_words xs)" "c + 8 \<notin> set (arc_words ys)"
    "c + 8 \<notin> set (graph_words E2)" "c + 8 \<notin> heads L"
    using disj node_in_words(3) [of c] by (simp only: distinct_append set_append words_simps entry.sel arc.sel, blast)+
  have old: "word_at ?m w = word_at (memory p) w" if "w \<in> set (graph_words ?E) \<union> heads L" "w \<noteq> c + 8" for w
    using graph_word(1) [OF g that(1)] al that(2) by (simp add: put_word_at)
  have others: "\<forall>w \<in> set (graph_words E1) \<union> set (node_words a) \<union> set (arc_words xs) \<union> set (arc_words ys) \<union> set (graph_words E2) \<union> {c, c + 4}.
      word_at ?m w = word_at (memory p) w"
    using apart by (auto intro!: old)
  show ?thesis
    unfolding graph_ok_def
  proof (intro conjI allI ballI impI)
    fix b assume b: "b < HASH_BUCKETS"
    have "bucket_head L b \<noteq> c + 8" using head_in_heads [OF b, of L] apart(6) by metis
    then have "word_at ?m (bucket_head L b) = word_at (memory p) (bucket_head L b)" using b by (intro old) simp_all
    moreover have "chain ?m (word_at (memory p) (bucket_head L b)) (map entry_addr (bucket b ?E))"
      by (rule graph_chain [OF g b]) (use others entry_addrs [of E1] entry_addrs [of E2] in auto)
    ultimately show "chain (memory (p\<lparr>memory := ?m\<rparr>)) (word_at (memory (p\<lparr>memory := ?m\<rparr>)) (bucket_head L b))
        (map entry_addr (bucket b ?F))" by (auto simp: bucket_def split: if_splits)
  next
    fix e assume "e \<in> set ?F"
    moreover have "entry_at ?m (Entry a s (xs @ Arc c f v # ys))"
    proof -
      have e: "entry_at (memory p) (Entry a s (xs @ Arc c f n # ys))" using g by (simp add: graph_ok_def)
      have "word_at ?m (arc_addr x + 4) = word_at (memory p) (arc_addr x + 4) \<and> word_at ?m (arc_addr x + 8) = word_at (memory p) (arc_addr x + 8)"
        if "x \<in> set xs \<union> set ys" for x
        using others arc_in_words [of x xs] arc_in_words [of x ys] node_in_words [of "arc_addr x"] that by blast
      moreover have "chain ?m (word_at (memory p) (a + 8)) (map arc_addr (xs @ Arc c f n # ys))"
        by (rule chain_cong [of "memory p"]) (use e others arc_addrs [of xs] arc_addrs [of ys] in \<open>auto simp: entry_at_def\<close>)
      moreover have "word_at ?m (a + 4) = s" "word_at ?m (a + 8) = word_at (memory p) (a + 8)" using others e by (simp_all add: entry_at_def)
      moreover have "word_at ?m (c + 4) = f" using others e by (simp add: entry_at_def)
      ultimately show ?thesis using e by (simp add: entry_at_def)
    qed
    moreover have "entry_at ?m e" if "e \<in> set E1 \<union> set E2" for e
    proof (rule entry_cong)
      show "entry_at (memory p) e" using g that by (auto simp: graph_ok_def)
      show "\<forall>w \<in> set (node_words (entry_addr e)) \<union> set (arc_words (entry_arcs e)). word_at ?m w = word_at (memory p) w"
        using that entry_in_words [of e E1] entry_in_words [of e E2] others by blast
    qed
    ultimately show "entry_at (memory (p\<lparr>memory := ?m\<rparr>)) e" by auto
  next
    show "distinct (graph_words ?F)" "distinct (map entry_self ?F)" "set (graph_words ?F) \<inter> heads L = {}"
      using g by (simp_all add: graph_ok_def)
  next
    fix w assume "w \<in> set (graph_words ?F) \<union> heads L"
    then show "aligned w" "used (p\<lparr>memory := ?m\<rparr>) w" using graph_word [OF g, of w] by simp_all
  qed
qed

section \<open>The histogram buffer\<close>

definition histogram_bytes :: "linker \<Rightarrow> u32" where "histogram_bytes L = (etext L - stext L) div 32 * 2"

text \<open>Memory for \<open>k\<close> more nodes, and for the histogram if it is still to come.\<close>

definition room_for :: "linker \<Rightarrow> profiler timer \<Rightarrow> nat \<Rightarrow> bool" where
  "room_for L t k \<longleftrightarrow>
     (let n = (if pcsample_need_init (tworld t) \<noteq> 0 \<and> tick_rate t \<noteq> 0 then unat (histogram_bytes L) + 3 else 0)
      in unat (heap_end (tworld t)) + n + 1024 * ((k + 84 - unat (mcount_slab_size (tworld t)) div 12) div 85) \<le> unat (alt_heap_limit L))"

definition start_sampling :: "linker \<Rightarrow> ptr \<Rightarrow> nat \<Rightarrow> profiler timer \<Rightarrow> profiler timer" where
  "start_sampling L alarm callback t =
    (if pcsample_need_init (tworld t) \<noteq> 0
     then (let t = t\<lparr>tworld := (tworld t)\<lparr>pcsample_need_init := 0\<rparr>\<rparr>;
               (r, t) = nios2_pcsample_init L alarm callback t
           in t\<lparr>tworld := (tworld t)\<lparr>pcsample_need_init := r\<rparr>\<rparr>)
     else t)"

lemma histogram_small: "unat (histogram_bytes L) < 2 ^ 31"
proof -
  let ?s = "etext L - stext L"
  have "unat (?s div 32) = unat ?s div 32" by (simp only: unat_div_distrib) simp
  moreover have "unat ?s < 2 ^ 32" using unsigned_less [of ?s, where ?'a = nat] by simp
  ultimately have "unat (?s div 32) < 2 ^ 27" by simp
  then show ?thesis unfolding histogram_bytes_def by (simp add: unat_word_ariths take_bit_nat_eq_self)
qed

lemma memset_below:
  assumes "unat b < unat p" "unat p + unat n \<le> 2 ^ 32"
  shows "memset p c n m b = m b"
proof -
  have "unat (b - p) = 2 ^ 32 + unat b - unat p"
    using assms(1) unsigned_less [of p, where ?'a = nat] by (simp add: unat_sub_if_size word_size not_le)
  then have "\<not> b - p < n" using assms by (simp add: word_less_nat_alt)
  then show ?thesis by (simp add: memset_def)
qed

lemma alarm_start_world [simp]:
  "tworld (snd (alt_alarm_start a n c x t)) = tworld t" "tick_rate (snd (alt_alarm_start a n c x t)) = tick_rate t"
  by (simp_all add: alt_alarm_start_def set_alarm_def Let_def split: option.split)

lemma graph_ok_cong:
  assumes "graph_ok L p E" "heap_end p \<le> heap_end p'" "mcount_slab_ptr p' = mcount_slab_ptr p" "mcount_slab_size p' = mcount_slab_size p"
    and "\<forall>w. unat w + 4 \<le> unat (heap_end p) \<and> aligned w \<longrightarrow> word_at (memory p') w = word_at (memory p) w"
  shows "graph_ok L p' E"
proof -
  have same: "word_at (memory p') w = word_at (memory p) w" if "w \<in> set (graph_words E) \<union> heads L" for w
    using graph_word [OF assms(1) that] assms(5) by (simp add: used_def)
  have "used p' w" if "used p w" for w using that assms(2-4) by (auto simp: used_def word_le_nat_alt)
  moreover have "entry_at (memory p') e" if "e \<in> set E" for e
    by (rule entry_cong [of "memory p"]) (use assms(1) that entry_in_words [OF that] same in \<open>auto simp: graph_ok_def\<close>)
  moreover have "chain (memory p') (word_at (memory p') (bucket_head L b)) (map entry_addr (bucket b E))" if "b < HASH_BUCKETS" for b
    using graph_chain [OF assms(1) that, of "memory p'"] same entry_addrs [of E] that by (auto simp: subset_iff)
  ultimately show ?thesis using assms(1) unfolding graph_ok_def by blast
qed

lemma sampling_now:
  fixes alarm :: ptr and callback :: nat
  assumes h: "heap_ok L (tworld t)" "room_for L t k" and now: "pcsample_need_init (tworld t) \<noteq> 0" "tick_rate t \<noteq> 0"
  defines "d \<equiv> round_up (heap_end (tworld t))" and "n \<equiv> histogram_bytes L" and "t' \<equiv> start_sampling L alarm callback t"
  shows "tworld t' = (tworld t)\<lparr>pcsample_need_init := 0, heap_end := d + n, s_pcsamples := d,
      memory := memset d 0 n (memory (tworld t)),
      alt_gmon_data := (alt_gmon_data (tworld t))[GMON_DATA_PROFILE_DATA := d, GMON_DATA_PROFILE_RATE := tick_rate t]\<rparr>"
    and "tick_rate t' = tick_rate t" and "unat (d + n) = unat d + unat n" and "unat d + unat n \<le> unat (alt_heap_limit L)"
    and "unat (heap_end (tworld t)) \<le> unat d" "unat d \<le> unat (heap_end (tworld t)) + 3" "aligned d" "d \<noteq> 0"
proof -
  have hp: "unat (heap_end (tworld t)) \<le> unat (alt_heap_limit L)" "unat (alt_heap_limit L) < 2 ^ 31" "4 dvd unat (alt_heap_limit L)"
    "0 < unat (heap_end (tworld t))" using h(1) by (simp_all add: heap_ok_def)
  have s: "sint n = int (unat n)" using histogram_small [of L] by (simp add: sint_u32 n_def)
  have "int (unat n) < int (2 ^ 31)" unfolding n_def using histogram_small by (rule iffD2 [OF of_nat_less_iff])
  then have n0: "0 \<le> sint n" "sint n < 2 ^ 31" by (simp_all add: s)
  note b = sbrk_block [OF hp(1-3) n0, folded d_def]
  have nn: "of_int (sint n) = n" "nat (sint n) = unat n" by (simp_all add: s)
  have "unat (heap_end (tworld t)) + (unat n + 3) \<le> unat (alt_heap_limit L)"
    using h(2) now by (simp add: room_for_def n_def)
  then show fits: "unat d + unat n \<le> unat (alt_heap_limit L)" using b(4) by linarith
  show d: "d \<noteq> 0" using b(3) hp(4) by auto
  show "unat (heap_end (tworld t)) \<le> unat d" "unat d \<le> unat (heap_end (tworld t)) + 3" "aligned d" by (rule b)+
  show "unat (d + n) = unat d + unat n" using b(6) by (simp only: nn)
  show "tworld t' = (tworld t)\<lparr>pcsample_need_init := 0, heap_end := d + n, s_pcsamples := d,
      memory := memset d 0 n (memory (tworld t)),
      alt_gmon_data := (alt_gmon_data (tworld t))[GMON_DATA_PROFILE_DATA := d, GMON_DATA_PROFILE_RATE := tick_rate t]\<rparr>"
    "tick_rate t' = tick_rate t"
    using now b(1) fits d unfolding t'_def start_sampling_def nios2_pcsample_init_def alt_ticks_per_second_def prof_sbrk_def
    by (simp_all add: Let_def nn PCSAMPLE_BYTES_PER_BUCKET_def flip: histogram_bytes_def n_def)
qed

lemma start_sampling_ok:
  fixes alarm :: ptr and callback :: nat
  assumes g: "graph_ok L (tworld t) E" and h: "heap_ok L (tworld t)" "room_for L t k"
  defines "t' \<equiv> start_sampling L alarm callback t"
  shows "graph_ok L (tworld t') E" "heap_ok L (tworld t')" "room L (tworld t') k" "room_for L t' k" "tick_rate t' = tick_rate t"
proof -
  let ?p = "tworld t"
  consider (started) "pcsample_need_init ?p = 0" | (early) "pcsample_need_init ?p \<noteq> 0" "tick_rate t = 0"
    | (now) "pcsample_need_init ?p \<noteq> 0" "tick_rate t \<noteq> 0" by blast
  then have "graph_ok L (tworld t') E \<and> heap_ok L (tworld t') \<and> room L (tworld t') k \<and> room_for L t' k \<and> tick_rate t' = tick_rate t"
  proof cases
    case started
    then show ?thesis using assms by (simp add: t'_def start_sampling_def room_for_def room_def)
  next
    case early
    then have "t' = t\<lparr>tworld := ?p\<lparr>pcsample_need_init := 1\<rparr>\<rparr>"
      by (simp add: t'_def start_sampling_def nios2_pcsample_init_def alt_ticks_per_second_def)
    moreover have "graph_ok L (?p\<lparr>pcsample_need_init := 1\<rparr>) E" by (rule graph_ok_cong [OF g]) simp_all
    ultimately show ?thesis using h early by (simp add: heap_ok_def room_for_def room_def)
  next
    case now
    note q = sampling_now(1,2) [OF h now, where alarm = alarm and callback = callback, folded t'_def] sampling_now(3-6) [OF h now]
    let ?n = "histogram_bytes L" and ?d = "round_up (heap_end ?p)"
    have hp: "unat (alt_heap_limit L) < 2 ^ 31" using h(1) by (simp add: heap_ok_def)
    have r: "unat (heap_end ?p) + (unat ?n + 3) + 1024 * ((k + 84 - unat (mcount_slab_size ?p) div 12) div 85) \<le> unat (alt_heap_limit L)"
      using h(2) now by (simp add: room_for_def)
    have "unat ?d + unat ?n \<le> 2 ^ 32" using q(4) hp by simp
    then have keep: "word_at (memset ?d 0 ?n (memory ?p)) a = word_at (memory ?p) a" if "unat a + 4 \<le> unat (heap_end ?p)" for a
      using that q(5) by (simp add: word_at_def memset_below unat_plus)
    have "graph_ok L (tworld t') E"
      by (rule graph_ok_cong [OF g]) (use q(3,5) keep in \<open>simp_all add: q(1) word_le_nat_alt\<close>)
    moreover have "heap_ok L (tworld t')" using h(1) q(3-6) by (auto simp: heap_ok_def q(1))
    moreover have "room L (tworld t') k" "room_for L t' k" using r q(3,6) by (simp_all add: room_def room_for_def q(1))
    ultimately show ?thesis using q(2) by simp
  qed
  then show "graph_ok L (tworld t') E" "heap_ok L (tworld t')" "room L (tworld t') k" "room_for L t' k" "tick_rate t' = tick_rate t"
    by simp_all
qed

section \<open>Counting calls\<close>

definition arc_calls :: "arc list \<Rightarrow> u32 \<Rightarrow> u32" where
  "arc_calls xs f = (case find (\<lambda>x. arc_from x = f) xs of None \<Rightarrow> 0 | Some x \<Rightarrow> arc_count x)"

definition calls :: "entry list \<Rightarrow> u32 \<Rightarrow> u32 \<Rightarrow> u32" where
  "calls E s f = (case find (\<lambda>e. entry_self e = s) E of None \<Rightarrow> 0 | Some e \<Rightarrow> arc_calls (entry_arcs e) f)"

lemma find_append: "find P (xs @ ys) = (case find P xs of None \<Rightarrow> find P ys | Some x \<Rightarrow> Some x)"
  by (induction xs) simp_all

lemma find_key_None: "find (\<lambda>x. k x = v) xs = None \<longleftrightarrow> v \<notin> set (map k xs)"
  by (auto simp: find_None_iff)

lemma find_key_split:
  assumes "find (\<lambda>x. k x = v) xs = Some x"
  obtains ys zs where "xs = ys @ x # zs" "k x = v" "v \<notin> set (map k ys)"
proof -
  obtain i where i: "i < length xs" "k (xs ! i) = v" "x = xs ! i" "\<forall>j < i. k (xs ! j) \<noteq> v"
    using assms by (auto simp: find_Some_iff)
  show thesis
  proof (rule that)
    show "xs = take i xs @ x # drop (Suc i) xs" using i by (simp add: id_take_nth_drop)
    show "v \<notin> set (map k (take i xs))" using i(1,4) by (force simp: in_set_conv_nth)
  qed (use i in simp)
qed

lemma find_split: "v \<notin> set (map k ys) \<Longrightarrow> k x = v \<Longrightarrow> find (\<lambda>x. k x = v) (ys @ x # zs) = Some x"
  by (simp add: find_append find_key_None [THEN iffD2])

lemma calls_replace:
  assumes "s \<notin> set (map entry_self E1)"
  shows "calls (E1 @ Entry a s xs # E2) s' f = (if s' = s then arc_calls xs f else calls (E1 @ E2) s' f)"
  using assms find_split [of s entry_self E1 "Entry a s xs" E2] by (auto simp: calls_def find_append split: option.split)

lemma arc_calls_replace:
  assumes "f \<notin> set (map arc_from xs)"
  shows "arc_calls (xs @ Arc c f n # ys) f' = (if f' = f then n else arc_calls (xs @ ys) f')"
  using assms find_split [of f arc_from xs "Arc c f n" ys] by (auto simp: arc_calls_def find_append split: option.split)

lemma find_bucket: "find (\<lambda>e. entry_self e = s) (bucket (bucket_of s) E) = find (\<lambda>e. entry_self e = s) E"
  by (induction E) (auto simp: bucket_def)

lemma chain_nonzero: "chain m p as \<Longrightarrow> a \<in> set as \<Longrightarrow> a \<noteq> 0"
  by (induction as arbitrary: p) auto

lemma search_entry:
  assumes "graph_ok L p E"
  shows "find_entry (memory p) s (mcount_head L s) =
    Some (case find (\<lambda>e. entry_self e = s) E of None \<Rightarrow> 0 | Some e \<Rightarrow> entry_addr e)"
proof -
  have "\<forall>e \<in> set (bucket (bucket_of s) E). aligned (entry_addr e) \<and> aligned (entry_addr e + 4) \<and>
      word_at (memory p) (entry_addr e + 4) = entry_self e"
    using assms graph_aligned(1,2) [OF assms] by (auto simp: bucket_def graph_ok_def entry_at_def)
  moreover have "aligned (bucket_head L (bucket_of s))" using graph_word(1) [OF assms] bucket_of_less by simp
  ultimately show ?thesis
    using find_entry_list [of "bucket_head L (bucket_of s)" "memory p" "bucket (bucket_of s) E" s] assms bucket_of_less
    by (simp add: mcount_head_bucket find_bucket graph_ok_def)
qed

lemma entry_nonzero:
  assumes "graph_ok L p E" "e \<in> set E"
  shows "entry_addr e \<noteq> 0"
proof (rule chain_nonzero)
  let ?b = "bucket_of (entry_self e)"
  show "chain (memory p) (word_at (memory p) (bucket_head L ?b)) (map entry_addr (bucket ?b E))"
    using assms(1) bucket_of_less by (simp add: graph_ok_def)
  show "entry_addr e \<in> set (map entry_addr (bucket ?b E))" using assms(2) by (simp add: bucket_def)
qed

lemma search_arc:
  assumes "graph_ok L p E" "e \<in> set E" "entry_arcs e \<noteq> []"
  shows "find_arc (memory p) f (word_at (memory p) (entry_addr e + 8)) =
    Some (map_option arc_addr (find (\<lambda>x. arc_from x = f) (entry_arcs e)))"
  using assms graph_aligned(4) [OF assms(1,2)] by (intro find_arc_list) (auto simp: graph_ok_def entry_at_def)

text \<open>A call that has been recorded before only counts; any other call adds an arc, and an entry if need be.\<close>

definition complete :: "entry list \<Rightarrow> bool" where "complete E \<longleftrightarrow> (\<forall>e \<in> set E. entry_arcs e \<noteq> [])"

definition prof_ok :: "linker \<Rightarrow> profiler timer \<Rightarrow> nat \<Rightarrow> entry list \<Rightarrow> bool" where
  "prof_ok L t k E \<longleftrightarrow> graph_ok L (tworld t) E \<and> heap_ok L (tworld t) \<and> room_for L t k \<and> complete E"

lemma room_for_mono: "room_for L t k \<Longrightarrow> j \<le> k \<Longrightarrow> room_for L t j"
proof -
  assume a: "room_for L t k" "j \<le> k"
  have "(j + 84 - unat (mcount_slab_size (tworld t)) div 12) div 85 \<le> (k + 84 - unat (mcount_slab_size (tworld t)) div 12) div 85"
    using a(2) by (intro div_le_mono) simp
  then show "room_for L t j" using a(1) unfolding room_for_def Let_def by linarith
qed

lemma room_for_later:
  assumes "room L p k" "same_sampler (tworld t) p" "tick_rate t = 0 \<or> pcsample_need_init (tworld t) = 0"
  shows "room_for L (t\<lparr>tworld := p\<rparr>) k"
  using assms by (auto simp: room_for_def room_def same_sampler_def)

lemma sampling_started:
  "tick_rate t = 0 \<or> pcsample_need_init (tworld (start_sampling L alarm callback t)) = 0"
  by (auto simp: start_sampling_def nios2_pcsample_init_def alt_ticks_per_second_def Let_def split: prod.splits)

lemma record_eq:
  "mcount_record L alarm callback s f e head t =
    (let t = start_sampling L alarm callback t
     in do {
       (e, p) \<leftarrow> (if e = 0 then add_entry L s head (tworld t) else Some (e, tworld t));
       p \<leftarrow> add_arc L f e p;
       Some (t\<lparr>tworld := p\<rparr>)
     })"
  by (simp add: mcount_record_def start_sampling_def)

lemma mcount_counts:
  assumes ok: "prof_ok L t (k + 2) E"
  obtains t' E' where "mcount L alarm callback s f t = Some t'" "prof_ok L t' k E'"
    "\<And>s' f'. calls E' s' f' = calls E s' f' + (if (s', f') = (s, f) then 1 else 0)"
proof -
  let ?t = "start_sampling L alarm callback t"
  have g: "graph_ok L (tworld t) E" and h: "heap_ok L (tworld t)" "room_for L t (k + 2)" and c: "complete E"
    using ok by (simp_all add: prof_ok_def)
  have st: "graph_ok L (tworld ?t) E" "heap_ok L (tworld ?t)" "room L (tworld ?t) (k + 2)" "tick_rate ?t = tick_rate t"
    using start_sampling_ok [OF g h] by simp_all
  have later: "room_for L (?t\<lparr>tworld := p\<rparr>) k" if "room L p k" "same_sampler (tworld ?t) p" for p
    using that sampling_started [of t L alarm callback] st(4) by (intro room_for_later) simp_all
  note entry = search_entry [OF g, of s]
  show thesis
  proof (cases "find (\<lambda>e. entry_self e = s) E")
    case None
    then have s: "s \<notin> set (map entry_self E)" by (simp add: find_key_None)
    obtain d p where p: "add_entry L s (mcount_head L s) (tworld ?t) = Some (d, p)" "d \<noteq> 0" "graph_ok L p (Entry d s [] # E)"
      "heap_ok L p" "room L p (Suc k)" "same_sampler (tworld ?t) p"
      using add_entry_ok [OF st(1,2) _ s, of "Suc k"] st(3) by (metis add_2_eq_Suc' mcount_head_bucket)
    obtain d' p' where p': "add_arc L f d p = Some p'" "graph_ok L p' (Entry d s [Arc d' f 1] # E)"
      "heap_ok L p'" "room L p' k" "same_sampler p p'"
      by (rule add_arc_ok [of L p "[]" d s "[]" E k f, unfolded append_Nil]) (use p(3-5) in simp_all)
    have "mcount L alarm callback s f t = Some (?t\<lparr>tworld := p'\<rparr>)"
      using None entry p(1) p'(1) by (simp add: mcount_def record_eq)
    moreover have "same_sampler (tworld ?t) p'" using p(6) p'(5) by (simp add: same_sampler_def)
    then have "prof_ok L (?t\<lparr>tworld := p'\<rparr>) k (Entry d s [Arc d' f 1] # E)"
      using p' later c by (simp add: prof_ok_def complete_def)
    moreover have "calls (Entry d s [Arc d' f 1] # E) s' f' = calls E s' f' + (if (s', f') = (s, f) then 1 else 0)" for s' f'
      using None by (auto simp: calls_def arc_calls_def)
    ultimately show thesis by (rule that)
  next
    case (Some e)
    then obtain E1 E2 where E: "E = E1 @ e # E2" "entry_self e = s" "s \<notin> set (map entry_self E1)" by (rule find_key_split)
    obtain a xs where e: "e = Entry a s xs" using E(2) by (cases e) simp
    have eE: "e \<in> set E" "a \<noteq> 0" "aligned (a + 8)" "xs \<noteq> []"
      using E e entry_nonzero [OF g, of e] graph_aligned(3) [OF g, of e] c by (auto simp: complete_def)
    note arc = search_arc [OF g eE(1), of f]
    show thesis
    proof (cases "find (\<lambda>x. arc_from x = f) xs")
      case None
      then have f: "f \<notin> set (map arc_from xs)" by (simp add: find_key_None)
      obtain d p where p: "add_arc L f a (tworld ?t) = Some p" "graph_ok L p (E1 @ Entry a s (Arc d f 1 # xs) # E2)"
        "heap_ok L p" "room L p (Suc k)" "same_sampler (tworld ?t) p"
        by (rule add_arc_ok [of L "tworld ?t" E1 a s xs E2 "Suc k" f]) (use st f E(1) e in simp_all)
      have "mcount L alarm callback s f t = Some (?t\<lparr>tworld := p\<rparr>)"
        using None Some entry arc p(1) e eE by (simp add: mcount_def record_eq FN_ARCS_def)
      moreover have "prof_ok L (?t\<lparr>tworld := p\<rparr>) k (E1 @ Entry a s (Arc d f 1 # xs) # E2)"
        using p later c E(1) e room_mono [OF p(4), of k] by (simp add: prof_ok_def complete_def)
      moreover have "calls (E1 @ Entry a s (Arc d f 1 # xs) # E2) s' f' = calls E s' f' + (if (s', f') = (s, f) then 1 else 0)" for s' f'
        using None E(3) by (simp add: E(1) e calls_replace) (simp add: arc_calls_def)
      ultimately show thesis by (rule that)
    next
      case (Some x)
      then obtain ys zs where xs: "xs = ys @ x # zs" "arc_from x = f" "f \<notin> set (map arc_from ys)" by (rule find_key_split)
      obtain b n where x: "x = Arc b f n" using xs(2) by (cases x) simp
      let ?p = "(tworld t)\<lparr>memory := put_word (b + 8) (n + 1) (memory (tworld t))\<rparr>"
      let ?E = "E1 @ Entry a s (ys @ Arc b f (n + 1) # zs) # E2"
      have b: "aligned (b + 8)" using graph_aligned(4) [OF g eE(1), of x] e xs(1) x by simp
      have n: "word_at (memory (tworld t)) (b + 8) = n" using g eE(1) e xs(1) x by (auto simp: graph_ok_def entry_at_def)
      have "mcount L alarm callback s f t = Some (t\<lparr>tworld := ?p\<rparr>)"
        using Some \<open>find _ E = Some e\<close> entry arc e eE b n x by (simp add: mcount_def FN_ARCS_def ARC_COUNT_def prof_stw_aligned)
      moreover have "graph_ok L ?p ?E" using count_arc_ok [of L "tworld t" E1 a s ys b f n zs E2] g E(1) e xs(1) x by simp
      then have "prof_ok L (t\<lparr>tworld := ?p\<rparr>) k ?E"
        using h c E(1) e room_for_mono [OF h(2), of k] by (simp add: prof_ok_def complete_def room_for_def)
      moreover have "calls ?E s' f' = calls E s' f' + (if (s', f') = (s, f) then 1 else 0)" for s' f'
        using E(3) xs(3) by (simp add: E(1) e xs(1) x calls_replace arc_calls_replace)
      ultimately show thesis by (rule that)
    qed
  qed
qed

text \<open>Successive calls, and the number that \<open>mcount\<close> itself finds for a pair.\<close>

primrec run_mcount :: "linker \<Rightarrow> ptr \<Rightarrow> nat \<Rightarrow> (u32 \<times> u32) list \<Rightarrow> profiler timer \<Rightarrow> profiler timer option" where
  "run_mcount L alarm callback [] t = Some t"
| "run_mcount L alarm callback (c # cs) t =
     do { t \<leftarrow> mcount L alarm callback (fst c) (snd c) t; run_mcount L alarm callback cs t }"

definition recorded :: "linker \<Rightarrow> memory \<Rightarrow> u32 \<Rightarrow> u32 \<Rightarrow> u32 option" where
  "recorded L m s f =
    do {
      e \<leftarrow> find_entry m s (mcount_head L s);
      if e = 0 then Some 0
      else do {
        r3 \<leftarrow> ldw m (e + FN_ARCS);
        arc \<leftarrow> find_arc m f r3;
        case arc of None \<Rightarrow> Some 0 | Some r3 \<Rightarrow> ldw m (r3 + ARC_COUNT)
      }
    }"

lemma recorded_calls:
  assumes "graph_ok L p E" "complete E"
  shows "recorded L (memory p) s f = Some (calls E s f)"
proof (cases "find (\<lambda>e. entry_self e = s) E")
  case None
  then show ?thesis using search_entry [OF assms(1), of s] by (simp add: recorded_def calls_def)
next
  case (Some e)
  then have e: "e \<in> set E" by (auto simp: find_Some_iff)
  then have ne: "entry_arcs e \<noteq> []" using assms(2) by (simp add: complete_def)
  have count: "aligned (arc_addr x + 8) \<and> word_at (memory p) (arc_addr x + 8) = arc_count x"
    if "find (\<lambda>x. arc_from x = f) (entry_arcs e) = Some x" for x
  proof -
    have "x \<in> set (entry_arcs e)" using that by (auto simp: find_Some_iff)
    then show ?thesis using graph_aligned(4) [OF assms(1) e] assms(1) e by (auto simp: graph_ok_def entry_at_def)
  qed
  show ?thesis
    using Some search_entry [OF assms(1), of s] search_arc [OF assms(1) e ne, of f] entry_nonzero [OF assms(1) e]
      graph_aligned(3) [OF assms(1) e] count
    by (auto simp: recorded_def calls_def arc_calls_def FN_ARCS_def ARC_COUNT_def split: option.split)
qed

lemma run_mcount_counts:
  assumes "prof_ok L t (2 * length cs) E"
  shows "\<exists>t' E'. run_mcount L alarm callback cs t = Some t' \<and> prof_ok L t' 0 E' \<and>
    (\<forall>s f. calls E' s f = calls E s f + of_nat (count_list cs (s, f)))"
  using assms
proof (induction cs arbitrary: t E)
  case (Cons c cs)
  have "prof_ok L t (2 * length cs + 2) E" using Cons.prems by simp
  then obtain t1 E1 where t1: "mcount L alarm callback (fst c) (snd c) t = Some t1" "prof_ok L t1 (2 * length cs) E1"
    "\<And>s f. calls E1 s f = calls E s f + (if (s, f) = (fst c, snd c) then 1 else 0)"
    by (rule mcount_counts) blast
  obtain t' E' where "run_mcount L alarm callback cs t1 = Some t'" "prof_ok L t' 0 E'"
    "\<forall>s f. calls E' s f = calls E1 s f + of_nat (count_list cs (s, f))" using Cons.IH [OF t1(2)] by blast
  then show ?case using t1(1,3) by (intro exI [of _ t'] exI [of _ E']) auto
qed auto

text \<open>The first call of all, with the places of its entry.\<close>

lemma first_call:
  fixes alarm :: ptr and callback :: nat
  assumes "prof_ok L t (k + 2) []" "mcount_slab_size (tworld (start_sampling L alarm callback t)) = 0"
  obtains d d' p where "mcount L alarm callback s f t = Some ((start_sampling L alarm callback t)\<lparr>tworld := p\<rparr>)"
    "graph_ok L p [Entry d s [Arc d' f 1]]" "d = round_up (heap_end (tworld (start_sampling L alarm callback t)))"
    "same_sampler (tworld (start_sampling L alarm callback t)) p"
proof -
  let ?t = "start_sampling L alarm callback t"
  have st: "graph_ok L (tworld ?t) []" "heap_ok L (tworld ?t)" "room L (tworld ?t) (k + 2)"
    using assms(1) start_sampling_ok [of L t "[]" "k + 2"] by (simp_all add: prof_ok_def)
  obtain d p where p: "add_entry L s (mcount_head L s) (tworld ?t) = Some (d, p)" "d \<noteq> 0" "graph_ok L p [Entry d s []]"
    "heap_ok L p" "room L p (Suc k)" "same_sampler (tworld ?t) p" "d = round_up (heap_end (tworld ?t))"
    by (rule add_entry_ok [OF st(1,2), of "Suc k" s]) (use st(3) assms(2) in \<open>simp_all add: mcount_head_bucket\<close>)
  obtain d' p' where p': "add_arc L f d p = Some p'" "graph_ok L p' [Entry d s [Arc d' f 1]]" "same_sampler p p'"
    by (rule add_arc_ok [of L p "[]" d s "[]" "[]" k f, unfolded append_Nil]) (use p(3-5) in simp_all)
  have "graph_ok L (tworld t) []" using assms(1) by (simp add: prof_ok_def)
  then have "mcount L alarm callback s f t = Some (?t\<lparr>tworld := p'\<rparr>)"
    using search_entry [of L "tworld t" "[]" s] p(1) p'(1) by (simp add: mcount_def record_eq)
  then show thesis using that [OF _ p'(2) p(7)] p(6) p'(3) by (simp add: same_sampler_def)
qed

end
