(* ===== verification/Hal_Profile.thy ===== *)
theory Hal_Profile
  imports Hal_Gmon_Proofs
begin

text \<open>
  The properties of the memory allocation and of the profiler: blocks never overlap, the call graph counts
  the calls, the histogram counts the samples if the program's text is a multiple of the bucket, and
  what goes wrong if it is not.
\<close>

unbundle bit_operations_syntax

section \<open>Samples\<close>

lemma and_1: "a AND 1 = (0 :: u32) \<longleftrightarrow> even (unat a)"
proof -
  have "a AND 1 = 0 \<longleftrightarrow> unat (a mod 2) = 0" by (simp add: and_one_eq unat_eq_zero)
  also have "unat (a mod 2) = unat a mod 2" by (simp only: unat_mod_distrib) simp
  finally show ?thesis by (simp add: even_iff_mod_2_eq_zero)
qed

definition buckets :: "linker \<Rightarrow> nat" where "buckets L = unat (etext L - stext L) div 32"

definition in_bucket :: "linker \<Rightarrow> nat \<Rightarrow> u32 \<Rightarrow> bool" where
  "in_bucket L b pc \<longleftrightarrow> stext L \<le> pc \<and> pc < etext L \<and> unat (pc - stext L) div 32 = b"

lemma histogram_bytes_nat: "unat (histogram_bytes L) = 2 * buckets L"
proof -
  let ?s = "etext L - stext L"
  have "unat (?s div 32) = buckets L" unfolding buckets_def by (simp only: unat_div_distrib) simp
  moreover have "unat ?s < 2 ^ 32" using unsigned_less [of ?s, where ?'a = nat] by simp
  ultimately show ?thesis unfolding histogram_bytes_def by (simp add: unat_word_ariths take_bit_nat_eq_self buckets_def)
qed

lemma bucket_less:
  assumes "32 dvd unat (etext L - stext L)" "in_bucket L b pc"
  shows "b < buckets L"
proof -
  have "unat (pc - stext L) = unat pc - unat (stext L)" "unat (etext L - stext L) = unat (etext L) - unat (stext L)"
    "unat pc < unat (etext L)" "unat (stext L) \<le> unat pc"
    using assms(2) by (auto simp: in_bucket_def unat_sub_if_size word_le_nat_alt word_less_nat_alt)
  then have "unat (pc - stext L) < unat (etext L - stext L)" by linarith
  then show ?thesis using assms by (auto simp: in_bucket_def buckets_def elim!: dvdE)
qed

lemma sample_step:
  assumes "even (unat (s_pcsamples p))" "s_pcsamples p \<noteq> 0"
  shows "nios2_pcsample L pc p =
    (if stext L \<le> pc \<and> pc < etext L
     then (let a = s_pcsamples p + of_nat (2 * (unat (pc - stext L) div 32))
           in Some (1, p\<lparr>memory := put_half a (half_at (memory p) a + 1) (memory p)\<rparr>))
     else Some (1, p))"
proof -
  let ?k = "(pc - stext L) div PCSAMPLE_BYTES_PER_BUCKET"
  have "unat ?k = unat (pc - stext L) div 32" unfolding PCSAMPLE_BYTES_PER_BUCKET_def by (simp only: unat_div_distrib) simp
  then have k: "2 * ?k = of_nat (2 * (unat (pc - stext L) div 32))" by (metis of_nat_mult of_nat_numeral of_nat_unat ucast_id)
  have "even (s_pcsamples p)" using assms(1) and_1 [of "s_pcsamples p"] by (simp add: and_one_eq even_iff_mod_2_eq_zero)
  then have "(s_pcsamples p + 2 * ?k) AND 1 = 0" by (simp add: and_one_eq even_iff_mod_2_eq_zero [symmetric])
  then show ?thesis using assms(2) by (simp add: nios2_pcsample_def ldhu_def sth_def Let_def k)
qed

primrec run_samples :: "linker \<Rightarrow> u32 list \<Rightarrow> profiler \<Rightarrow> profiler option" where
  "run_samples L [] p = Some p"
| "run_samples L (pc # pcs) p = do { (_, p) \<leftarrow> nios2_pcsample L pc p; run_samples L pcs p }"

lemma slot_nat:
  fixes a :: u32
  assumes "unat a + 2 * n \<le> 2 ^ 32" "b < n"
  shows "unat (a + of_nat (2 * b)) = unat a + 2 * b" "unat (a + of_nat (2 * b) + 1) = unat a + 2 * b + 1"
proof -
  have b: "unat (of_nat (2 * b) :: u32) = 2 * b" using assms by (intro of_nat_inverse) auto
  have less: "unat a + 2 * b + 1 < 2 ^ 32" using assms by simp
  then show u: "unat (a + of_nat (2 * b)) = unat a + 2 * b" using unat_plus [of a "of_nat (2 * b)"] by (simp only: b)
  show "unat (a + of_nat (2 * b) + 1) = unat a + 2 * b + 1"
    using unat_plus [of "a + of_nat (2 * b)" 1] less by (simp only: u unsigned_1)
qed

lemma other_half:
  assumes "unat a = x" "unat (a + 1) = x + 1" "unat s = y" "unat (s + 1) = y + 1" "even x" "even y" "x \<noteq> y"
  shows "half_at (put_half s v m) a = half_at m a"
proof -
  have "x \<noteq> y + 1" "x + 1 \<noteq> y" using assms(5,6) by auto
  then have "a \<noteq> s" "a + 1 \<noteq> s" "a \<noteq> s + 1" "a + 1 \<noteq> s + 1" using assms by auto
  then show ?thesis unfolding half_at_def put_half_def by (simp only: fun_upd_apply if_False)
qed

lemma samples_counted:
  assumes whole: "32 dvd unat (etext L - stext L)" and a: "s_pcsamples p = a" "a \<noteq> 0" "even (unat a)" "unat a + 2 * buckets L \<le> 2 ^ 32"
  shows "\<exists>m. run_samples L pcs p = Some (p\<lparr>memory := m\<rparr>) \<and>
    (\<forall>b < buckets L. half_at m (a + of_nat (2 * b)) =
       half_at (memory p) (a + of_nat (2 * b)) + of_nat (length (filter (in_bucket L b) pcs))) \<and>
    (\<forall>x. unat x < unat a \<or> unat a + 2 * buckets L \<le> unat x \<longrightarrow> m x = memory p x)"
  using a(1)
proof (induction pcs arbitrary: p)
  case Nil
  then show ?case by (intro exI [of _ "memory p"]) simp
next
  case (Cons pc pcs)
  have ev: "even (unat (s_pcsamples p))" "s_pcsamples p \<noteq> 0" using Cons.prems a by simp_all
  show ?case
  proof (cases "stext L \<le> pc \<and> pc < etext L")
    case False
    then have "nios2_pcsample L pc p = Some (1, p)" "\<not> in_bucket L b pc" for b
      using sample_step [OF ev] by (auto simp: in_bucket_def)
    then show ?thesis using Cons by simp
  next
    case True
    let ?k = "unat (pc - stext L) div 32"
    let ?s = "a + of_nat (2 * ?k)"
    let ?m = "put_half ?s (half_at (memory p) ?s + 1) (memory p)"
    have ib: "in_bucket L b pc \<longleftrightarrow> b = ?k" for b using True by (auto simp: in_bucket_def)
    then have k: "?k < buckets L" using bucket_less [OF whole] by blast
    obtain m where m: "run_samples L pcs (p\<lparr>memory := ?m\<rparr>) = Some (p\<lparr>memory := m\<rparr>)"
      "\<forall>b < buckets L. half_at m (a + of_nat (2 * b)) = half_at ?m (a + of_nat (2 * b)) + of_nat (length (filter (in_bucket L b) pcs))"
      "\<forall>x. unat x < unat a \<or> unat a + 2 * buckets L \<le> unat x \<longrightarrow> m x = ?m x"
      using Cons.IH [of "p\<lparr>memory := ?m\<rparr>"] Cons.prems by auto
    have step: "nios2_pcsample L pc p = Some (1, p\<lparr>memory := ?m\<rparr>)"
      using sample_step [OF ev, of L pc] True Cons.prems by (simp add: Let_def)
    have half: "half_at ?m (a + of_nat (2 * b)) = half_at (memory p) (a + of_nat (2 * b)) + (if b = ?k then 1 else 0)"
      if b: "b < buckets L" for b
    proof (cases "b = ?k")
      case False
      have "half_at ?m (a + of_nat (2 * b)) = half_at (memory p) (a + of_nat (2 * b))"
        by (rule other_half [OF slot_nat [OF a(4) b] slot_nat [OF a(4) k]]) (use False a(3) in simp_all)
      then show ?thesis using False by simp
    qed (simp only: same_half if_True simp_thms)
    have out: "?m x = memory p x" if "unat x < unat a \<or> unat a + 2 * buckets L \<le> unat x" for x
    proof -
      have "x \<noteq> ?s" "x \<noteq> ?s + 1" using that slot_nat [OF a(4) k] k by auto
      then show ?thesis unfolding put_half_def by (simp only: fun_upd_apply if_False)
    qed
    have "half_at m (a + of_nat (2 * b)) =
        half_at (memory p) (a + of_nat (2 * b)) + of_nat (length (filter (in_bucket L b) (pc # pcs)))" if "b < buckets L" for b
      using m(2) half [OF that] that ib by (simp add: ac_simps)
    then show ?thesis using m(1,3) step out by (intro exI [of _ m]) simp
  qed
qed

section \<open>A histogram that is one bucket too short\<close>

lemma put_half_other_word:
  assumes "aligned a" "aligned b" "a \<noteq> b"
  shows "word_at (put_half a v m) b = word_at m b"
proof -
  have "b + of_nat j \<noteq> a + of_nat i" if "i < 2" "j < 4" for i j
    using byte_of_one_word [OF assms(1,2), of i j] assms(3) that by (metis less_trans numeral_less_iff semiring_norm(76) semiring_norm(78))
  from this [of 0 0] this [of 0 1] this [of 0 2] this [of 0 3] this [of 1 0] this [of 1 1] this [of 1 2] this [of 1 3]
  show ?thesis by (simp add: word_at_def put_half_def)
qed

lemma half_of_word: "half_at m a = ucast (word_at m a)"
  unfolding half_at_def word_at_def by (rule bit_word_eqI) (auto simp: bit_simps)

lemma zero_word_bytes:
  assumes "word_at m a = 0"
  shows "m (a + 2) = 0" "m (a + 3) = 0"
proof -
  have "m (a + 2) = ucast (drop_bit 16 (word_at m a))" "m (a + 3) = ucast (drop_bit 24 (word_at m a))"
    unfolding word_at_def by (rule bit_word_eqI, auto simp: bit_simps dest: bit_imp_le_length)+
  then show "m (a + 2) = 0" "m (a + 3) = 0" using assms by simp_all
qed

lemma put_half_zero_word:
  assumes "word_at m a = 0"
  shows "word_at (put_half a v m) a = ucast v"
proof -
  have "word_at (put_half a v m) a = ucast (ucast v :: u8) OR push_bit 8 (ucast (ucast (drop_bit 8 v) :: u8))"
    using zero_word_bytes [OF assms] by (simp add: word_at_def put_half_def)
  also have "\<dots> = ucast v"
  proof (rule bit_word_eqI)
    fix n assume "n < LENGTH(32)"
    then consider "n < 8" | "8 \<le> n" "n < 16" | "16 \<le> n" by fastforce
    then show "bit ((ucast (ucast v :: u8) :: u32) OR push_bit 8 (ucast (ucast (drop_bit 8 v) :: u8))) n = bit (ucast v :: u32) n"
      by cases (auto simp: bit_simps dest: bit_imp_le_length)
  qed
  finally show ?thesis .
qed

text \<open>
  The sample of the last, partial bucket goes to the first entry of the call graph, whose \<open>next\<close> pointer it makes
  odd. The next search that follows it is an unaligned access.
\<close>

lemma corrupted_entry:
  assumes g: "graph_ok L p [Entry d s [Arc d' f 1]]" and b: "bucket_of s' = bucket_of s" "s' \<noteq> s"
  shows "find_entry (put_half d (half_at (memory p) d + 1) (memory p)) s' (mcount_head L s') = None"
proof -
  let ?m = "put_half d (half_at (memory p) d + 1) (memory p)" and ?h = "bucket_head L (bucket_of s)"
  have al: "aligned ?h" "aligned d" "aligned (d + 4)"
    using graph_word(1) [OF g, of ?h] bucket_of_less [of s] graph_aligned [OF g, of "Entry d s [Arc d' f 1]"] by simp_all
  have "\<forall>b < HASH_BUCKETS. chain (memory p) (word_at (memory p) (bucket_head L b)) (map entry_addr (bucket b [Entry d s [Arc d' f 1]]))"
    using g by (simp add: graph_ok_def)
  then have c: "chain (memory p) (word_at (memory p) ?h) [d]" using bucket_of_less [of s] by (auto simp: bucket_def)
  have self: "word_at (memory p) (d + 4) = s" using g by (simp add: graph_ok_def entry_at_def)
  have "?h \<in> heads L" "set (graph_words [Entry d s [Arc d' f 1]]) \<inter> heads L = {}"
    using bucket_of_less [of s] g by (simp_all add: graph_ok_def)
  then have "d \<noteq> ?h" by (auto simp: node_words_def)
  then have head: "word_at ?m ?h = d" "d \<noteq> 0" using c al by (auto simp: put_half_other_word)
  have next0: "word_at (memory p) d = 0" using c by auto
  then have odd: "word_at ?m d = 1" by (simp add: put_half_zero_word half_of_word)
  have "word_at ?m (d + 4) = s" using self al by (simp add: put_half_other_word)
  then have "find_entry ?m s' ?h = find_entry ?m s' d" using head al b(2) by (subst find_entry.simps) (simp add: FN_SELF_def)
  also have "find_entry ?m s' d = None"
    using odd al by (subst find_entry.simps) (simp add: FN_SELF_def ldw_def)
  finally show ?thesis using b(1) by (simp add: mcount_head_bucket)
qed

section \<open>The system when it starts\<close>

definition fresh_system :: "linker \<Rightarrow> u32 \<Rightarrow> profiler timer \<Rightarrow> bool" where
  "fresh_system L alt_heap_start t \<longleftrightarrow>
     (\<exists>m. tworld t = profiler_init L alt_heap_start m \<and> (\<forall>b < HASH_BUCKETS. word_at m (bucket_head L b) = 0)) \<and>
     aligned (mcount_fn_head L) \<and> unat (mcount_fn_head L) + 4 * HASH_BUCKETS \<le> unat alt_heap_start \<and>
     unat alt_heap_start \<le> unat (alt_heap_limit L) \<and> unat (alt_heap_limit L) < 2 ^ 31 \<and> aligned (alt_heap_limit L)"

lemma fresh_ok:
  assumes "fresh_system L h t" "unat h + unat (histogram_bytes L) + 3 + 1024 * ((k + 84) div 85) \<le> unat (alt_heap_limit L)"
  shows "prof_ok L t k []"
proof -
  obtain m where m: "tworld t = profiler_init L h m" "\<forall>b < HASH_BUCKETS. word_at m (bucket_head L b) = 0"
    and a: "aligned (mcount_fn_head L)" "unat (mcount_fn_head L) + 4 * HASH_BUCKETS \<le> unat h" "unat h \<le> unat (alt_heap_limit L)"
    "unat (alt_heap_limit L) < 2 ^ 31" "aligned (alt_heap_limit L)"
    using assms(1) unfolding fresh_system_def by blast
  have heads: "aligned (bucket_head L b) \<and> unat (bucket_head L b) + 4 \<le> unat h" if "b < HASH_BUCKETS" for b
  proof -
    have "unat (of_nat (4 * b) :: u32) = 4 * b" using that by (intro of_nat_inverse) (simp_all add: HASH_BUCKETS_def)
    then have "unat (bucket_head L b) = unat (mcount_fn_head L) + 4 * b"
      unfolding bucket_head_def using a(2-4) that by (subst unat_plus) (simp_all add: HASH_BUCKETS_def)
    then show ?thesis using a(1,2) that by (simp add: aligned_def)
  qed
  have "graph_ok L (tworld t) []"
    using m heads by (auto simp: graph_ok_def profiler_init_def bucket_def used_def heads_def)
  moreover have "heap_ok L (tworld t)" using m(1) a by (simp add: heap_ok_def profiler_init_def aligned_def HASH_BUCKETS_def)
  moreover have "room_for L t k" using assms(2) m(1) by (simp add: room_for_def profiler_init_def)
  ultimately show ?thesis by (simp add: prof_ok_def complete_def)
qed

text \<open>A system with text of 256 bytes, the array of the buckets at \<open>0x400\<close> and a heap from \<open>0x801\<close>.\<close>

definition example_linker :: linker where
  "example_linker = \<lparr>alt_heap_limit = 0x4000, stext = 0x100, etext = 0x200, mcount_fn_head = 0x400\<rparr>"

definition example_timer :: "linker \<Rightarrow> u32 \<Rightarrow> profiler timer" where
  "example_timer L rate = (timer_init (\<lambda>_. \<lparr>al_time = 0, al_callback = 0, al_rollover = 0, al_context = 0\<rparr>)
     (profiler_init L 0x801 (\<lambda>_. 0)))\<lparr>tick_rate := rate\<rparr>"

lemma example_fresh:
  assumes "alt_heap_limit L = 0x4000" "mcount_fn_head L = 0x400"
  shows "fresh_system L 0x801 (example_timer L rate)"
  using assms unfolding fresh_system_def
  by (auto simp: example_timer_def timer_init_def aligned_def HASH_BUCKETS_def word_at_def
      intro!: exI [of _ "\<lambda>_. 0"])

section \<open>Properties\<close>

text \<open>
  The memory \<open>sbrk\<close> hands out. For any run of requests of no negative size, from a heap below an aligned limit in
  the lower half of the address space: every block starts on a word boundary, lies between the old and
  the new end of the heap and below the limit, and before every later block, so no two blocks share a byte.
\<close>
theorem sbrk_blocks:
  assumes "unat h \<le> unat limit" "unat limit < 2 ^ 31" "aligned limit" "\<forall>n \<in> set incrs. 0 \<le> n \<and> n < 2 ^ 31"
    and "sbrk_run limit incrs h = (blocks, h')"
  shows "unat h \<le> unat h' \<and> unat h' \<le> unat limit \<and>
    (\<forall>b \<in> set blocks. aligned (fst b) \<and> block b \<subseteq> {unat h ..< unat h'}) \<and>
    sorted_wrt (\<lambda>b c. \<forall>x \<in> block b. \<forall>y \<in> block c. x < y) blocks"
  using sbrk_run_blocks [OF assms(1,2) _ assms(4,5)] assms(3) by (simp add: aligned_def)

theorem sbrk_blocks_witness:
  "aligned 0x1004 \<and> block (0x1004, 5) \<subseteq> {0x1001 ..< 0x1014}"
proof -
  have "sbrk_run 0x2000 [5, 0x1000, 8] 0x1001 = ([(0x1004, 5), (0x100C, 8)], 0x1014)"
    by (simp add: ALT_SBRK_def)
  from sbrk_blocks [OF _ _ _ _ this] show ?thesis by (simp add: aligned_def)
qed

text \<open>
  C36. The call graph. From the start of a system with enough memory, after any sequence of instrumented calls,
  the number \<open>mcount\<close> finds in memory for any pair of a function and a caller is the number of times that pair was called
  (modulo \<open>2 ^ 32\<close>), whatever the addresses hash to and whether or not the clock has started; and no call fails.
\<close>
theorem call_graph_counts:
  assumes "fresh_system L h t"
    and "unat h + unat (histogram_bytes L) + 3 + 1024 * ((2 * length cs + 84) div 85) \<le> unat (alt_heap_limit L)"
  shows "\<exists>t'. run_mcount L alarm callback cs t = Some t' \<and>
    (\<forall>s f. recorded L (memory (tworld t')) s f = Some (of_nat (count_list cs (s, f))))"
proof -
  obtain t' E where "run_mcount L alarm callback cs t = Some t'" "prof_ok L t' 0 E"
    "\<forall>s f. calls E s f = calls [] s f + of_nat (count_list cs (s, f))"
    using run_mcount_counts [OF fresh_ok [OF assms]] by blast
  moreover have "calls [] s f = 0" for s f by (simp add: calls_def)
  ultimately show ?thesis using recorded_calls [of L "tworld t'" E] by (auto simp: prof_ok_def)
qed

theorem call_graph_counts_witness:
  "\<exists>t'. run_mcount example_linker 1 0 [(0x120, 0x104), (0x140, 0x124), (0x120, 0x104), (0x920, 0x104)] (example_timer example_linker 100) = Some t' \<and>
    recorded example_linker (memory (tworld t')) 0x120 0x104 = Some 2 \<and>
    recorded example_linker (memory (tworld t')) 0x140 0x104 = Some 0"
proof -
  let ?cs = "[(0x120, 0x104), (0x140, 0x124), (0x120, 0x104), (0x920, 0x104)] :: (u32 \<times> u32) list"
  have "fresh_system example_linker 0x801 (example_timer example_linker 100)"
    by (rule example_fresh) (simp_all add: example_linker_def)
  then obtain t' where "run_mcount example_linker 1 0 ?cs (example_timer example_linker 100) = Some t'"
    "\<forall>s f. recorded example_linker (memory (tworld t')) s f = Some (of_nat (count_list ?cs (s, f)))"
    using call_graph_counts [where L = example_linker and h = "0x801" and t = "example_timer example_linker 100" and cs = ?cs
      and alarm = 1 and callback = 0]
    by (auto simp: example_linker_def histogram_bytes_def)
  then show ?thesis by simp
qed

text \<open>
  C37. The histogram. If the size of the program's text is a multiple of 32, then after any sequence of samples each bucket has
  grown by the number of samples that fell into its 32 bytes (modulo \<open>2 ^ 16\<close>), samples outside the
  text count nowhere, and no byte outside the buffer has changed.
\<close>
theorem histogram_counts:
  assumes "32 dvd unat (etext L - stext L)" and "s_pcsamples p \<noteq> 0" "even (unat (s_pcsamples p))"
    and "unat (s_pcsamples p) + unat (histogram_bytes L) \<le> 2 ^ 32"
  shows "\<exists>m. run_samples L pcs p = Some (p\<lparr>memory := m\<rparr>) \<and>
    (\<forall>b < buckets L. half_at m (s_pcsamples p + of_nat (2 * b)) =
       half_at (memory p) (s_pcsamples p + of_nat (2 * b)) + of_nat (length (filter (in_bucket L b) pcs))) \<and>
    (\<forall>x. unat x < unat (s_pcsamples p) \<or> unat (s_pcsamples p) + unat (histogram_bytes L) \<le> unat x \<longrightarrow> m x = memory p x)"
  using samples_counted [OF assms(1) refl assms(2,3)] assms(4) by (simp add: histogram_bytes_nat)

theorem histogram_counts_witness:
  "\<exists>m. run_samples example_linker [0x100, 0x11F, 0x120, 0x200] ((profiler_init example_linker 0x801 (\<lambda>_. 0))\<lparr>s_pcsamples := 0x804\<rparr>) =
      Some ((profiler_init example_linker 0x801 (\<lambda>_. 0))\<lparr>s_pcsamples := 0x804, memory := m\<rparr>) \<and>
    half_at m 0x804 = 2 \<and> m 0x814 = 0"
proof -
  let ?p = "(profiler_init example_linker 0x801 (\<lambda>_. 0))\<lparr>s_pcsamples := 0x804\<rparr>"
  have b: "unat (histogram_bytes example_linker) = 16" "buckets example_linker = 8" "32 dvd unat (etext example_linker - stext example_linker)"
    by (simp_all add: histogram_bytes_def buckets_def example_linker_def)
  have f: "filter (in_bucket example_linker 0) [0x100, 0x11F, 0x120, 0x200] = [0x100, 0x11F]"
    by (simp add: in_bucket_def example_linker_def)
  obtain m where m: "run_samples example_linker [0x100, 0x11F, 0x120, 0x200] ?p = Some (?p\<lparr>memory := m\<rparr>)"
    "\<forall>b < 8. half_at m (0x804 + of_nat (2 * b)) = half_at (\<lambda>_. 0) (0x804 + of_nat (2 * b)) +
       of_nat (length (filter (in_bucket example_linker b) [0x100, 0x11F, 0x120, 0x200]))"
    "\<forall>x. unat x < 0x804 \<or> 0x814 \<le> unat x \<longrightarrow> m x = 0"
    using histogram_counts [OF b(3), of ?p "[0x100, 0x11F, 0x120, 0x200]"] b(1,2) by (auto simp: profiler_init_def)
  have "half_at m 0x804 = 2" using m(2) [rule_format, of 0] by (simp only: f) (simp add: half_at_def)
  then show ?thesis using m(1,3) by auto
qed

text \<open>
  The buffer is one bucket too short for a text that is not a multiple of 32 bytes. With an even number of
  whole buckets, once the clock runs, a sample in the last bytes of the text changes the \<open>next\<close> pointer of the first
  function that was recorded, and the first call of another function with the same hash value then crashes.
\<close>
theorem histogram_overrun:
  assumes "fresh_system L h t" "tick_rate t \<noteq> 0" "unat h + unat (histogram_bytes L) + 1027 \<le> unat (alt_heap_limit L)"
    and "even (buckets L)" "in_bucket L (buckets L) pc" "bucket_of s' = bucket_of s" "s' \<noteq> s"
  shows "\<exists>t1 p. mcount L alarm callback s f t = Some t1 \<and> nios2_pcsample L pc (tworld t1) = Some (1, p) \<and>
    mcount L alarm callback s' f' (t1\<lparr>tworld := p\<rparr>) = None"
proof -
  let ?t = "start_sampling L alarm callback t"
  have ok: "prof_ok L t (0 + 2) []" using fresh_ok [OF assms(1), of "0 + 2"] assms(3) by simp
  have w: "pcsample_need_init (tworld t) \<noteq> 0" "mcount_slab_size (tworld t) = 0"
    using assms(1) by (auto simp: fresh_system_def profiler_init_def)
  have r: "heap_ok L (tworld t)" "room_for L t (0 + 2)" using ok by (simp_all add: prof_ok_def)
  note q = sampling_now(1) [OF r w(1) assms(2), where alarm = alarm and callback = callback] sampling_now(3-8) [OF r w(1) assms(2)]
  let ?a = "round_up (heap_end (tworld t))"
  obtain d d' p where p: "mcount L alarm callback s f t = Some (?t\<lparr>tworld := p\<rparr>)"
    "graph_ok L p [Entry d s [Arc d' f 1]]" "d = round_up (heap_end (tworld ?t))" "same_sampler (tworld ?t) p"
    by (rule first_call [OF ok, of alarm callback s f]) (use w(2) in \<open>simp_all add: q(1)\<close>)
  have a: "s_pcsamples p = ?a" using p(4) by (simp add: same_sampler_def q(1))
  have "unat (alt_heap_limit L) < 2 ^ 31" using r(1) by (simp add: heap_ok_def)
  then have lim: "unat (?a + histogram_bytes L) < 2 ^ 32 - 3" using q(2,3) by simp
  have "4 dvd unat (?a + histogram_bytes L)"
    using q(2,6) assms(4) by (simp add: histogram_bytes_nat aligned_def)
  then have "unat (round_up (?a + histogram_bytes L)) = unat (?a + histogram_bytes L)"
    using round_up_nat [OF lim] by (auto elim!: dvdE)
  then have d: "d = ?a + histogram_bytes L" using p(3) by (simp add: q(1) word_unat_eq_iff)
  have "histogram_bytes L = of_nat (2 * buckets L)" by (metis histogram_bytes_nat of_nat_unat ucast_id)
  then have slot: "?a + of_nat (2 * (unat (pc - stext L) div 32)) = d" using d assms(5) by (simp add: in_bucket_def)
  have "even (unat ?a)" using q(6) by (auto simp: aligned_def elim!: dvdE)
  then have sample: "nios2_pcsample L pc p = Some (1, p\<lparr>memory := put_half d (half_at (memory p) d + 1) (memory p)\<rparr>)"
    using sample_step [of p L pc] a q(7) assms(5) slot by (simp add: in_bucket_def Let_def)
  show ?thesis
    using p(1) sample corrupted_entry [OF p(2) assms(6,7)] by (simp add: mcount_def)
qed

theorem histogram_overrun_witness:
  "\<exists>L t1 p. etext L - stext L = 0x11E \<and> mcount L 1 0 0x120 0x104 (example_timer L 100) = Some t1 \<and>
    nios2_pcsample L 0x21D (tworld t1) = Some (1, p) \<and> mcount L 1 0 0x920 0x104 (t1\<lparr>tworld := p\<rparr>) = None"
proof -
  let ?L = "example_linker\<lparr>etext := 0x21E\<rparr>"
  have "fresh_system ?L 0x801 (example_timer ?L 100)" by (rule example_fresh) (simp_all add: example_linker_def)
  moreover have "tick_rate (example_timer ?L 100) \<noteq> 0" by (simp add: example_timer_def)
  moreover have "unat (0x801 :: u32) + unat (histogram_bytes ?L) + 1027 \<le> unat (alt_heap_limit ?L)" "even (buckets ?L)"
    "in_bucket ?L (buckets ?L) 0x21D" "bucket_of 0x920 = bucket_of 0x120"
    by (simp_all add: histogram_bytes_def buckets_def in_bucket_def bucket_of_def example_linker_def)
  moreover have "(0x920 :: u32) \<noteq> 0x120" by simp
  ultimately have "\<exists>t1 p. mcount ?L 1 0 0x120 0x104 (example_timer ?L 100) = Some t1 \<and>
      nios2_pcsample ?L 0x21D (tworld t1) = Some (1, p) \<and> mcount ?L 1 0 0x920 0x104 (t1\<lparr>tworld := p\<rparr>) = None"
    by (rule histogram_overrun)
  moreover have "etext ?L - stext ?L = 0x11E" by (simp add: example_linker_def)
  ultimately show ?thesis by blast
qed

end
