(* ===== verification/Hal_Process.thy ===== *)
theory Hal_Process
  imports Hal_Fd_Proofs
begin

text \<open>
  The system calls of the HAL about processes and file names (\<open>HAL/src/alt_stat.c\<close>, \<open>alt_kill.c\<close>,
  \<open>alt_exit.c\<close>, \<open>alt_wait.c\<close>, the calls that only fail) and the search of DMA channels. \<open>None\<close> is
  again a call that does not return.
\<close>

definition ESRCH :: int where "ESRCH = 3"
definition ECHILD :: int where "ECHILD = 10"

text \<open>Signal numbers of the C library (newlib).\<close>

definition SIGQUIT :: int where "SIGQUIT = 3"
definition SIGILL :: int where "SIGILL = 4"
definition SIGTRAP :: int where "SIGTRAP = 5"
definition SIGABRT :: int where "SIGABRT = 6"
definition SIGFPE :: int where "SIGFPE = 8"
definition SIGKILL :: int where "SIGKILL = 9"
definition SIGBUS :: int where "SIGBUS = 10"
definition SIGSEGV :: int where "SIGSEGV = 11"
definition SIGSYS :: int where "SIGSYS = 12"
definition SIGPIPE :: int where "SIGPIPE = 13"
definition SIGALRM :: int where "SIGALRM = 14"
definition SIGTERM :: int where "SIGTERM = 15"
definition SIGURG :: int where "SIGURG = 16"
definition SIGCHLD :: int where "SIGCHLD = 20"
definition SIGPOLL :: int where "SIGPOLL = 23"
definition SIGXCPU :: int where "SIGXCPU = 24"
definition SIGXFSZ :: int where "SIGXFSZ = 25"
definition SIGVTALRM :: int where "SIGVTALRM = 26"
definition SIGPROF :: int where "SIGPROF = 27"
definition SIGUSR1 :: int where "SIGUSR1 = 30"
definition SIGUSR2 :: int where "SIGUSR2 = 31"

lemmas signal_numbers = SIGQUIT_def SIGILL_def SIGTRAP_def SIGABRT_def SIGFPE_def SIGKILL_def SIGBUS_def
  SIGSEGV_def SIGSYS_def SIGPIPE_def SIGALRM_def SIGTERM_def SIGURG_def SIGCHLD_def SIGPOLL_def SIGXCPU_def
  SIGXFSZ_def SIGVTALRM_def SIGPROF_def SIGUSR1_def SIGUSR2_def

text \<open>\<open>_exit\<close> ends in an endless loop.\<close>

definition ALT_EXIT :: "int \<Rightarrow> 'w hal \<Rightarrow> (int \<times> 'w hal) option" where
  "ALT_EXIT exit_code h = None"

text \<open>The \<open>switch\<close> over the signal: the status, or no return.\<close>

definition kill_status :: "int \<Rightarrow> 'w hal \<Rightarrow> (int \<times> 'w hal) option" where
  "kill_status sig h =
    (if sig = 0 then Some (0, h)
     else if sig \<in> {SIGABRT, SIGALRM, SIGFPE, SIGILL, SIGKILL, SIGPIPE, SIGQUIT, SIGSEGV, SIGTERM, SIGUSR1,
       SIGUSR2, SIGBUS, SIGPOLL, SIGPROF, SIGSYS, SIGTRAP, SIGVTALRM, SIGXCPU, SIGXFSZ}
     then ALT_EXIT 0 h
     else if sig \<in> {SIGCHLD, SIGURG} then Some (0, h)
     else Some (EINVAL, h))"

definition ALT_KILL :: "int \<Rightarrow> int \<Rightarrow> 'w hal \<Rightarrow> (int \<times> 'w hal) option" where
  "ALT_KILL pid sig h =
    do {
      (status, h) \<leftarrow> (if pid \<le> 0 then kill_status sig h else Some (ESRCH, h));
      Some (if status \<noteq> 0 then (-1, h\<lparr>alt_errno := status\<rparr>) else (0, h))
    }"

definition ALT_GETPID :: int where "ALT_GETPID = 0"

text \<open>The result, what is stored in \<open>*status\<close>, and the state.\<close>

definition ALT_WAIT :: "'w hal \<Rightarrow> int \<times> int \<times> 'w hal" where
  "ALT_WAIT h = (let status = 0 in (-1, status, h\<lparr>alt_errno := ECHILD\<rparr>))"

definition ALT_FORK :: "'w hal \<Rightarrow> int \<times> 'w hal" where
  "ALT_FORK h = (-1, h\<lparr>alt_errno := ENOSYS\<rparr>)"
definition ALT_EXECVE :: "string \<Rightarrow> string list \<Rightarrow> string list \<Rightarrow> 'w hal \<Rightarrow> int \<times> 'w hal" where
  "ALT_EXECVE name argv env h = (-1, h\<lparr>alt_errno := ENOSYS\<rparr>)"
definition ALT_LINK :: "string \<Rightarrow> string \<Rightarrow> 'w hal \<Rightarrow> int \<times> 'w hal" where
  "ALT_LINK existing new h = (-1, h\<lparr>alt_errno := ENOSYS\<rparr>)"
definition ALT_UNLINK :: "string \<Rightarrow> 'w hal \<Rightarrow> int \<times> 'w hal" where
  "ALT_UNLINK name h = (-1, h\<lparr>alt_errno := ENOSYS\<rparr>)"
definition ALT_RENAME :: "string \<Rightarrow> string \<Rightarrow> 'w hal \<Rightarrow> int \<times> 'w hal" where
  "ALT_RENAME existing new h = (-1, h\<lparr>alt_errno := ENOSYS\<rparr>)"

text \<open>
  \<open>stat\<close> is \<open>open\<close>, \<open>fstat\<close> and \<open>close\<close>. It passes \<open>open\<close> no mode: \<open>mode\<close> is what its register
  happens to hold.
\<close>

definition ALT_STAT :: "(ptr \<Rightarrow> 'w alt_dev) \<Rightarrow> string \<Rightarrow> u32 \<Rightarrow> 'w hal \<Rightarrow> ((int \<times> u32) \<times> 'w hal) option" where
  "ALT_STAT D file mode h =
    do {
      (fd, h) \<leftarrow> alt_open D file 0 mode h;
      (rc, h) \<leftarrow> alt_fstat D fd h;
      (_, h) \<leftarrow> alt_close D fd h;
      Some (rc, h)
    }"

text \<open>The list heads of the DMA channels (a null pointer is \<open>None\<close>).\<close>

definition alt_dma_rxchan_list :: ptr where "alt_dma_rxchan_list = 5"
definition alt_dma_txchan_list :: ptr where "alt_dma_txchan_list = 6"

definition dma_found :: "ptr option \<Rightarrow> 'w hal \<Rightarrow> ptr option \<times> 'w hal" where
  "dma_found dev h = (dev, if dev = None then h\<lparr>alt_errno := ENODEV\<rparr> else h)"

definition alt_dma_rxchan_open :: "(ptr \<Rightarrow> 'w alt_dev) \<Rightarrow> string \<Rightarrow> 'w hal \<Rightarrow> (ptr option \<times> 'w hal) option" where
  "alt_dma_rxchan_open D name h = do { dev \<leftarrow> alt_find_dev D name alt_dma_rxchan_list (links h); Some (dma_found dev h) }"

definition alt_dma_txchan_open :: "(ptr \<Rightarrow> 'w alt_dev) \<Rightarrow> string \<Rightarrow> 'w hal \<Rightarrow> (ptr option \<times> 'w hal) option" where
  "alt_dma_txchan_open D name h = do { dev \<leftarrow> alt_find_dev D name alt_dma_txchan_list (links h); Some (dma_found dev h) }"

section \<open>Properties\<close>

text \<open>A channel is found on the list the drivers have registered it on, under exactly its name.\<close>

lemma dma_channel_found:
  assumes "ring (links h) l devs" "\<forall>d \<in> set devs. \<exists>s. dev_name (D d) = Some s \<and> NUL \<notin> set s" "NUL \<notin> set name"
  shows "alt_find_dev D name l (links h) = Some (find (\<lambda>d. dev_name (D d) = Some name) devs)"
  unfolding alt_find_dev_def Let_def
  using assms memcmp_eq_name [OF _ assms(3)] by (intro ring_search_find) (auto dest!: bspec)

text \<open>No driver of this system registers a channel, so that none is ever found.\<close>

lemma no_dma_channel:
  assumes "ring (links h) alt_dma_rxchan_list []" "ring (links h) alt_dma_txchan_list []" "NUL \<notin> set name"
  shows "alt_dma_rxchan_open D name h = Some (None, h\<lparr>alt_errno := ENODEV\<rparr>)"
    "alt_dma_txchan_open D name h = Some (None, h\<lparr>alt_errno := ENODEV\<rparr>)"
  using dma_channel_found [OF assms(1) _ assms(3), of D] dma_channel_found [OF assms(2) _ assms(3), of D]
  by (simp_all add: alt_dma_rxchan_open_def alt_dma_txchan_open_def dma_found_def)

text \<open>
  \<open>kill\<close> knows the one process: it fails for every other one; the signals that end a process do not
  return, and three kinds do nothing. Two of the usual ones, \<open>SIGHUP\<close> (1) and \<open>SIGINT\<close> (2), are not supported.
\<close>

lemma kill_cases:
  "0 < pid \<Longrightarrow> ALT_KILL pid sig h = Some (-1, h\<lparr>alt_errno := ESRCH\<rparr>)"
  "ALT_KILL ALT_GETPID sig h = None \<longleftrightarrow> sig \<in> {3 .. 15} - {7} \<union> {23 .. 27} \<union> {30, 31}"
  "ALT_KILL ALT_GETPID sig h = Some (0, h) \<longleftrightarrow> sig \<in> {0, 16, 20}"
  "sig \<in> {1, 2} \<Longrightarrow> ALT_KILL ALT_GETPID sig h = Some (-1, h\<lparr>alt_errno := EINVAL\<rparr>)"
proof -
  have ends: "sig \<in> {3 .. 15} - {7} \<union> {23 .. 27} \<union> {30, 31} \<longleftrightarrow>
      sig \<in> {6, 14, 8, 4, 9, 13, 3, 11, 15, 30, 31, 10, 23, 27, 12, 5, 26, 24, 25 :: int}" by (simp, presburger)
  show "ALT_KILL ALT_GETPID sig h = None \<longleftrightarrow> sig \<in> {3 .. 15} - {7} \<union> {23 .. 27} \<union> {30, 31}"
    unfolding ends by (simp add: ALT_KILL_def kill_status_def ALT_EXIT_def ALT_GETPID_def signal_numbers)
qed (auto simp: ALT_KILL_def kill_status_def ALT_EXIT_def ALT_GETPID_def signal_numbers ESRCH_def EINVAL_def)

subsection \<open>\<open>stat\<close>\<close>

definition used_devices :: "'w hal \<Rightarrow> ptr option list" where
  "used_devices h = map fd_dev (alt_fd_list h)"

lemma used_devices_updates [simp]:
  "used_devices (h\<lparr>alt_errno := e\<rparr>) = used_devices h" "used_devices (h\<lparr>world := w\<rparr>) = used_devices h"
  "used_devices (h\<lparr>alt_max_fd := m\<rparr>) = used_devices h"
  "used_devices (set_fd i fd h) = (used_devices h)[i := fd_dev fd]"
  by (simp_all add: used_devices_def set_fd_def map_update)

lemma used_devices_free:
  assumes "free_fd h = Some i" "table_ok h"
  shows "(used_devices h)[i := None] = used_devices h" "i < length (used_devices h)"
proof -
  note f = free_fdD [OF assms] and len = table_okD(1) [OF assms(2)]
  show "(used_devices h)[i := None] = used_devices h"
    using f len by (metis used_devices_def list_update_id map_update)
  show "i < length (used_devices h)" using f len by (simp add: used_devices_def)
qed

lemma open_devices:
  assumes "registered D devs fss h" "table_ok h" "NUL \<notin> set name" "drivers_ok D"
    and "alt_open D name flags mode h = Some (r, h1)"
  shows "r < 0 \<and> used_devices h1 = used_devices h \<or>
    (\<exists>i d. free_fd h = Some i \<and> r = int i \<and> used_devices h1 = (used_devices h)[i := Some d])"
proof (cases "open_target D devs fss name")
  case None
  then show ?thesis using assms(5) alt_open_spec [OF assms(1-3)] by (auto simp: open_spec_def)
next
  case (Some t)
  obtain d isfs where t: "t = (d, isfs)" by fastforce
  show ?thesis
  proof (cases "free_fd h")
    case None
    then show ?thesis using Some t assms(5) alt_open_spec [OF assms(1-3)] by (auto simp: open_spec_def)
  next
    case (Some i)
    note free = used_devices_free [OF Some assms(2)] free_fdD [OF Some assms(2)]
    define h0 where "h0 = h\<lparr>alt_max_fd := max (int i) (alt_max_fd h)\<rparr>"
    have new: "fd_dev (new_fd d isfs i flags h0) = Some d" by (simp add: new_fd_def)
    have same: "used_devices h0 = used_devices h" "alt_fd_list h0 = alt_fd_list h" by (simp_all add: h0_def)
    have spec: "open_spec D devs fss name flags mode h = Some (r, h1)" using assms(5) alt_open_spec [OF assms(1-3)] by simp
    show ?thesis
    proof (cases "dev_open (D d)")
      case None
      then show ?thesis
        using spec Some t \<open>open_target D devs fss name = Some t\<close> free new same
        by (auto simp: open_spec_def Let_def h0_def [symmetric] split: if_splits)
    next
      case (Some f)
      have dev: "f (new_fd d isfs i flags h0) name flags mode (world h0) = Some (st, fd, w') \<Longrightarrow> fd_dev fd = Some d" for st fd w'
        using assms(4) Some new unfolding drivers_ok_def by metis
      show ?thesis
        using spec Some t \<open>open_target D devs fss name = Some t\<close> \<open>free_fd h = Some i\<close> free same
        by (auto simp: open_spec_def Let_def h0_def [symmetric] split: if_splits dest!: dev)
    qed
  qed
qed

lemma call_devices:
  assumes "table_ok h" "drivers_ok D" "3 \<le> fd" "fd < 32"
  shows "alt_fstat D fd h = Some (r, h') \<Longrightarrow> used_devices h' = used_devices h"
    "alt_close D fd h = Some (rc, h') \<Longrightarrow> used_devices h' = (used_devices h)[nat fd := None]"
proof -
  have at: "fd_at fd h = Some (alt_fd_list h ! nat fd)" and len: "length (alt_fd_list h) = 32"
    using assms table_okD(1) [OF assms(1)] by (simp_all add: fd_at_def)
  have same: "(used_devices h)[nat fd := fd_dev (alt_fd_list h ! nat fd)] = used_devices h"
    by (simp add: used_devices_def flip: map_update)
  have call: "dev_fstat (D d) = Some f1 \<Longrightarrow> f1 x w = Some ((s, m), x', w') \<Longrightarrow> fd_dev x' = fd_dev x" for d f1 x w s m x' w'
    using assms(2) unfolding drivers_ok_def by metis
  show "alt_fstat D fd h = Some (r, h') \<Longrightarrow> used_devices h' = used_devices h"
    using assms(3) at same by (auto simp: alt_fstat_def elim!: bind_SomeE dest!: call split: option.splits)
  show "alt_close D fd h = Some (rc, h') \<Longrightarrow> used_devices h' = (used_devices h)[nat fd := None]"
    using assms(3) at by (auto simp: alt_close_def alt_release_fd_def Let_def elim!: bind_SomeE split: option.splits if_splits)
qed

text \<open>
  \<open>stat\<close> leaves no descriptor behind: whatever it answers, the same descriptors have the same devices
  as before. If \<open>open\<close> fails, the answer is -1 and the error number is \<open>EBADFD\<close>, whatever the reason was; for a
  name that no device or file system owns it does return. Without an \<open>fstat\<close> of its own a device is a character
  device.
\<close>
theorem stat_no_leak:
  assumes "registered D devs fss h" and "table_ok h" and "NUL \<notin> set name" and "drivers_ok D"
  shows "ALT_STAT D name mode h = Some ((rc, st_mode), h') \<Longrightarrow>
      table_ok h' \<and> used_devices h' = used_devices h \<and>
      (\<exists>fd h1. alt_open D name 0 mode h = Some (fd, h1) \<and>
        (fd < 0 \<longrightarrow> rc = -1 \<and> st_mode = 0 \<and> h' = h1\<lparr>alt_errno := EBADFD\<rparr>) \<and>
        (\<forall>d. 0 \<le> fd \<longrightarrow> used_devices h1 ! nat fd = Some d \<longrightarrow> dev_fstat (D d) = None \<longrightarrow> rc = 0 \<and> st_mode = S_IFCHR))"
    and "open_target D devs fss name = None \<Longrightarrow> ALT_STAT D name mode h = Some ((-1, 0), h\<lparr>alt_errno := EBADFD\<rparr>)"
proof -
  assume "ALT_STAT D name mode h = Some ((rc, st_mode), h')"
  then obtain fd h1 h2 cl where calls: "alt_open D name 0 mode h = Some (fd, h1)"
    "alt_fstat D fd h1 = Some ((rc, st_mode), h2)" "alt_close D fd h2 = Some (cl, h')"
    by (auto simp: ALT_STAT_def elim!: bind_SomeE)
  note ok1 = open_ok [OF calls(1) assms(2,4)]
  then have ok2: "table_ok h2" using simple_calls_ok(5) [OF _ assms(4) calls(2)] by blast
  then have ok3: "table_ok h'" using simple_calls_ok(1) [OF _ assms(4) calls(3)] by blast
  show "table_ok h' \<and> used_devices h' = used_devices h \<and>
      (\<exists>fd h1. alt_open D name 0 mode h = Some (fd, h1) \<and>
        (fd < 0 \<longrightarrow> rc = -1 \<and> st_mode = 0 \<and> h' = h1\<lparr>alt_errno := EBADFD\<rparr>) \<and>
        (\<forall>d. 0 \<le> fd \<longrightarrow> used_devices h1 ! nat fd = Some d \<longrightarrow> dev_fstat (D d) = None \<longrightarrow> rc = 0 \<and> st_mode = S_IFCHR))"
    using open_devices [OF assms calls(1)]
  proof (elim disjE exE conjE)
    assume f: "fd < 0" "used_devices h1 = used_devices h"
    then have "rc = -1 \<and> st_mode = 0 \<and> h' = h1\<lparr>alt_errno := EBADFD\<rparr>"
      using calls(2,3) by (auto simp: alt_fstat_def alt_close_def)
    then show ?thesis using f ok3 calls(1) by auto
  next
    fix i d assume f: "free_fd h = Some i" "fd = int i" "used_devices h1 = (used_devices h)[i := Some d]"
    note free = used_devices_free [OF f(1) assms(2)]
    have i: "3 \<le> fd" "fd < 32" using ok1 f(2) by auto
    have "used_devices h' = used_devices h"
      using call_devices(1) [OF _ assms(4) i calls(2)] call_devices(2) [OF ok2 assms(4) i calls(3)] ok1 f(2,3) free by simp
    moreover have "rc = 0 \<and> st_mode = S_IFCHR" if "used_devices h1 ! nat fd = Some e" "dev_fstat (D e) = None" for e
      using that calls(2) i by (auto simp: alt_fstat_def fd_at_def used_devices_def elim!: bind_SomeE split: if_splits)
    ultimately show ?thesis using ok3 calls(1) i by auto
  qed
next
  assume "open_target D devs fss name = None"
  then show "ALT_STAT D name mode h = Some ((-1, 0), h\<lparr>alt_errno := EBADFD\<rparr>)"
    using alt_open_spec [OF assms(1-3)] by (simp add: ALT_STAT_def open_spec_def alt_fstat_def alt_close_def)
qed

theorem stat_no_leak_witness:
  "ALT_STAT example_devices ''/dev/none'' 0 example_start = Some ((-1, 0), example_start\<lparr>alt_errno := EBADFD\<rparr>)"
proof -
  have nul: "NUL \<notin> set ''/dev/none''" by (simp add: NUL_def)
  show ?thesis
    by (rule stat_no_leak(2) [OF example_registered(1,2) nul example_drivers])
      (simp add: open_target_def example_devices_def alt_dev_null_def alt_dev_null_struct_def)
qed

end
