(* ===== verification/Hal_Dma.thy ===== *)
theory Hal_Dma
  imports Hal_Process
begin

text \<open>
  The DMA interface of the HAL (\<open>HAL/inc/sys/alt_dma.h\<close>, \<open>alt_dma_dev.h\<close>): registration of channels and the calls through
  their function pointers. The opening of channels is in \<open>Hal_Process\<close>. A request carries a
  function to call and its argument, which the driver keeps: here two words. List links and name of a
  channel are those of the table \<open>D\<close> of devices.
\<close>

record 'w alt_dma_txchan_dev =
  tx_space :: "'w \<Rightarrow> int \<times> 'w"
  tx_dma_send :: "u32 \<Rightarrow> u32 \<Rightarrow> u32 \<Rightarrow> u32 \<Rightarrow> 'w \<Rightarrow> int \<times> 'w"
  tx_ioctl :: "int \<Rightarrow> u32 \<Rightarrow> 'w \<Rightarrow> int \<times> 'w"

record 'w alt_dma_rxchan_dev =
  rx_depth :: u32
  rx_prepare :: "u32 \<Rightarrow> u32 \<Rightarrow> u32 \<Rightarrow> u32 \<Rightarrow> 'w \<Rightarrow> int \<times> 'w"
  rx_ioctl :: "int \<Rightarrow> u32 \<Rightarrow> 'w \<Rightarrow> int \<times> 'w"

definition alt_dma_txchan_reg :: "(ptr \<Rightarrow> 'w alt_dev) \<Rightarrow> ptr option \<Rightarrow> 'w hal \<Rightarrow> int \<times> 'w hal" where
  "alt_dma_txchan_reg D dev h = alt_dev_llist_insert D dev alt_dma_txchan_list h"

definition alt_dma_rxchan_reg :: "(ptr \<Rightarrow> 'w alt_dev) \<Rightarrow> ptr option \<Rightarrow> 'w hal \<Rightarrow> int \<times> 'w hal" where
  "alt_dma_rxchan_reg D dev h = alt_dev_llist_insert D dev alt_dma_rxchan_list h"

definition alt_dma_txchan_close :: "'w alt_dma_txchan_dev option \<Rightarrow> int" where
  "alt_dma_txchan_close dma = 0"

definition alt_dma_txchan_send ::
  "'w alt_dma_txchan_dev option \<Rightarrow> u32 \<Rightarrow> u32 \<Rightarrow> u32 \<Rightarrow> u32 \<Rightarrow> 'w \<Rightarrow> int \<times> 'w" where
  "alt_dma_txchan_send dma src len callback handle w =
    (case dma of None \<Rightarrow> (- ENODEV, w) | Some d \<Rightarrow> tx_dma_send d src len callback handle w)"

definition alt_dma_txchan_space :: "'w alt_dma_txchan_dev option \<Rightarrow> 'w \<Rightarrow> int \<times> 'w" where
  "alt_dma_txchan_space dma w = (case dma of None \<Rightarrow> (- ENODEV, w) | Some d \<Rightarrow> tx_space d w)"

definition alt_dma_txchan_ioctl :: "'w alt_dma_txchan_dev option \<Rightarrow> int \<Rightarrow> u32 \<Rightarrow> 'w \<Rightarrow> int \<times> 'w" where
  "alt_dma_txchan_ioctl dma req arg w = (case dma of None \<Rightarrow> (- ENODEV, w) | Some d \<Rightarrow> tx_ioctl d req arg w)"

definition alt_dma_rxchan_close :: "'w alt_dma_rxchan_dev option \<Rightarrow> int" where
  "alt_dma_rxchan_close dma = 0"

definition alt_dma_rxchan_prepare ::
  "'w alt_dma_rxchan_dev option \<Rightarrow> u32 \<Rightarrow> u32 \<Rightarrow> u32 \<Rightarrow> u32 \<Rightarrow> 'w \<Rightarrow> int \<times> 'w" where
  "alt_dma_rxchan_prepare dma buf len callback handle w =
    (case dma of None \<Rightarrow> (- ENODEV, w) | Some d \<Rightarrow> rx_prepare d buf len callback handle w)"

definition alt_dma_rxchan_ioctl :: "'w alt_dma_rxchan_dev option \<Rightarrow> int \<Rightarrow> u32 \<Rightarrow> 'w \<Rightarrow> int \<times> 'w" where
  "alt_dma_rxchan_ioctl dma req arg w = (case dma of None \<Rightarrow> (- ENODEV, w) | Some d \<Rightarrow> rx_ioctl d req arg w)"

text \<open>The depth is read without a test for the null pointer.\<close>

definition alt_dma_rxchan_depth :: "'w alt_dma_rxchan_dev option \<Rightarrow> u32 option" where
  "alt_dma_rxchan_depth dma = (case dma of None \<Rightarrow> None | Some d \<Rightarrow> Some (rx_depth d))"

text \<open>A channel is found under its name once it is registered, and hides older ones of that name.\<close>

lemma registered_channel:
  assumes "ring (links h) alt_dma_txchan_list devs" "d \<notin> set devs" "d \<noteq> alt_dma_txchan_list"
    and "dev_name (D d) = Some name" "NUL \<notin> set name"
    and "\<forall>e \<in> set devs. \<exists>s. dev_name (D e) = Some s \<and> NUL \<notin> set s"
  shows "\<exists>h'. alt_dma_txchan_reg D (Some d) h = (0, h') \<and> alt_dma_txchan_open D name h' = Some (Some d, h')"
proof -
  let ?h = "h\<lparr>links := alt_llist_insert alt_dma_txchan_list d (links h)\<rparr>"
  have reg: "alt_dma_txchan_reg D (Some d) h = (0, ?h)"
    using assms(4) by (simp add: alt_dma_txchan_reg_def alt_dev_llist_insert_def)
  have "ring (links ?h) alt_dma_txchan_list (d # devs)"
    using llist.insert_law [OF assms(1-3)] by simp
  then have "alt_find_dev D name alt_dma_txchan_list (links ?h) = Some (Some d)"
    using dma_channel_found [of ?h alt_dma_txchan_list "d # devs" D name] assms(4-6) by simp
  then show ?thesis using reg by (simp add: alt_dma_txchan_open_def dma_found_def)
qed

text \<open>An open that fails is an error of every later call, but not of the depth.\<close>

lemma null_channel:
  "alt_dma_txchan_send None src len callback handle w = (- ENODEV, w)" "alt_dma_txchan_space None w = (- ENODEV, w)"
  "alt_dma_rxchan_prepare None src len callback handle w = (- ENODEV, w)" "alt_dma_rxchan_depth None = None"
  by (simp_all add: alt_dma_txchan_send_def alt_dma_txchan_space_def alt_dma_rxchan_prepare_def alt_dma_rxchan_depth_def)

end
