(* ===== verification/Hal_Sleep.thy ===== *)
theory Hal_Sleep
  imports Cnc_Prelude
begin

text \<open>
  The calibrated delay of the HAL (\<open>HAL/src/alt_busy_sleep.c\<close>, \<open>alt_usleep.c\<close>). What can be observed of a
  delay is how often its loops of two instructions run; an iteration takes three cycles on this
  processor. The loops count in a 32-bit register: one stops at zero, the other at zero or below. Each
  \<open>asm\<close> statement is taken to get its operand in a register of its own, loaded anew: the code changes the
  register of an operand that it declares as an input only.
\<close>

definition ALT_CPU_FREQ :: u32 where "ALT_CPU_FREQ = 100000000"
definition NIOS2_CPU_IMPLEMENTATION :: string where "NIOS2_CPU_IMPLEMENTATION = ''fast''"
definition SLEEP_INT_MAX :: u32 where "SLEEP_INT_MAX = 0x7FFFFFFF"

lemma unat_pred: "r \<noteq> 0 \<Longrightarrow> unat (r - 1 :: u32) = unat r - 1"
  by (metis One_nat_def unat_1 unat_minus_one)

lemma sint_positive: "0 < sint (r :: u32) \<longleftrightarrow> 0 < unat r \<and> unat r < 2 ^ 31"
proof -
  define n where "n = unat r"
  then have "n < 2 ^ 32" using unsigned_less [of r, where ?'a = nat] by simp
  moreover have "sint r = (if n < 2 ^ 31 then int n else int n - 2 ^ 32)" by (simp only: sint_u32 n_def)
  ultimately show ?thesis by (simp add: n_def [symmetric] split: if_splits)
qed

text \<open>\<open>addi r, r, -1; bne r, zero, 0b\<close>\<close>

function loop_bne :: "u32 \<Rightarrow> nat" where
  "loop_bne r = (let r = r - 1 in if r \<noteq> 0 then Suc (loop_bne r) else 1)"
  by pat_completeness auto
termination
proof (relation "measure (\<lambda>r. unat (r - 1))")
  fix r x :: u32 assume x: "x = r - 1" "x \<noteq> 0"
  have "unat (x - 1) = unat x - 1" by (rule unat_pred [OF x(2)])
  moreover have "0 < unat x" using x(2) by (simp only: unat_gt_0 not_False_eq_True)
  ultimately have "unat (x - 1) < unat x" by linarith
  then show "(x, r) \<in> measure (\<lambda>r. unat (r - 1))" by (simp only: in_measure x(1))
qed simp

declare loop_bne.simps [simp del]

text \<open>\<open>addi r, r, -1; bgt r, zero, 0b\<close>\<close>

function loop_bgt :: "u32 \<Rightarrow> nat" where
  "loop_bgt r = (let r = r - 1 in if 0 < sint r then Suc (loop_bgt r) else 1)"
  by pat_completeness auto
termination
proof (relation "measure (\<lambda>r. nat (sint (r - 1)))")
  fix r x :: u32 assume x: "x = r - 1" "0 < sint x"
  have small: "0 < unat x" "unat x < 2 ^ 31" using x(2) by (simp_all only: sint_positive)
  then have "x \<noteq> 0" by auto
  note p = unat_pred [OF this]
  then have "sint (x - 1) < sint x" "0 < sint x" using small x(2) by (simp_all only: sint_u32) (simp add: of_nat_diff)
  then show "(x, r) \<in> measure (\<lambda>r. nat (sint (r - 1)))" using x by simp
qed simp

declare loop_bgt.simps [simp del]

definition cycles_per_loop :: u32 where
  "cycles_per_loop = (if NIOS2_CPU_IMPLEMENTATION = ''tiny'' then 9 else 3)"

definition loops_per_us :: u32 where "loops_per_us = ALT_CPU_FREQ div (cycles_per_loop * 1000000)"

text \<open>The \<open>for\<close> loop: the iterations of its delays, and what is left of \<open>us\<close>.\<close>

primrec big_delays :: "nat \<Rightarrow> u32 \<Rightarrow> nat \<times> u32" where
  "big_delays 0 us = (0, us)"
| "big_delays (Suc n) us =
    (let (k, us) = big_delays n us in (k + loop_bne SLEEP_INT_MAX, us - SLEEP_INT_MAX div loops_per_us))"

text \<open>The result, and the number of iterations.\<close>

definition alt_busy_sleep :: "u32 \<Rightarrow> u32 \<times> nat" where
  "alt_busy_sleep us =
    (let big_loops = us div (SLEEP_INT_MAX div loops_per_us)
     in if big_loops \<noteq> 0
        then (let (k, us) = big_delays (nat (sint big_loops)) us in (0, k + loop_bne (us * loops_per_us)))
        else (0, loop_bgt (us * loops_per_us)))"

definition ALT_USLEEP :: "u32 \<Rightarrow> u32 \<times> nat" where
  "ALT_USLEEP us = alt_busy_sleep us"

section \<open>How long the delays are\<close>

lemma loop_bne_nonzero: "r \<noteq> 0 \<Longrightarrow> loop_bne r = unat r"
proof (induction r rule: loop_bne.induct)
  case (1 r)
  have pos: "0 < unat r" using "1.prems" by (simp add: unat_gt_0)
  show ?case
  proof (cases "r - 1 = 0")
    case True
    then show ?thesis by (subst loop_bne.simps) (simp add: eq_diff_eq)
  next
    case False
    then have "loop_bne (r - 1) = unat r - 1" using "1.IH" [OF refl] unat_pred [OF "1.prems"] by simp
    then show ?thesis using False pos by (subst loop_bne.simps) simp
  qed
qed

text \<open>From zero the counter wraps around.\<close>

lemma loop_bne_zero: "loop_bne 0 = 2 ^ 32"
proof -
  have "unat (- 1 :: u32) = 2 ^ 32 - 1" by (simp add: unsigned_minus_1_eq_mask mask_eq_exp_minus_1)
  then show ?thesis using loop_bne_nonzero [of "- 1"] by (subst loop_bne.simps) simp
qed

lemma loop_bgt_small: "unat r < 2 ^ 31 \<Longrightarrow> loop_bgt r = max 1 (unat r)"
proof (induction r rule: loop_bgt.induct)
  case (1 r)
  show ?case
  proof (cases "unat r \<le> 1")
    case True
    then have "r = 0 \<or> r = 1" by (auto simp: le_Suc_eq word_unat_eq_iff)
    then show ?thesis by (subst loop_bgt.simps) auto
  next
    case False
    then have "r \<noteq> 0" by auto
    note p = unat_pred [OF this]
    then have s: "0 < sint (r - 1)" using False "1.prems" by (simp only: sint_positive) linarith
    then have "loop_bgt (r - 1) = unat r - 1" using "1.IH" [OF refl] p "1.prems" False by simp
    then show ?thesis using s False by (subst loop_bgt.simps) simp
  qed
qed

lemma sleep_constants: "loops_per_us = 33" "SLEEP_INT_MAX div 33 = 65075262"
  by (simp_all add: loops_per_us_def cycles_per_loop_def ALT_CPU_FREQ_def NIOS2_CPU_IMPLEMENTATION_def SLEEP_INT_MAX_def)

lemma big_delays_eq:
  "n * 65075262 \<le> unat us \<Longrightarrow> big_delays n us = (n * (2 ^ 31 - 1), us - of_nat (n * 65075262)) \<and>
    unat (us - of_nat (n * 65075262)) = unat us - n * 65075262"
proof (induction n)
  case (Suc n)
  then have IH: "big_delays n us = (n * (2 ^ 31 - 1), us - of_nat (n * 65075262))"
    "unat (us - of_nat (n * 65075262)) = unat us - n * 65075262" by simp_all
  let ?u = "us - of_nat (n * 65075262)"
  have "65075262 \<le> unat ?u" using Suc.prems IH(2) by simp
  then have "unat (?u - 65075262) = unat ?u - 65075262" by (simp add: unat_sub_if_size word_size)
  moreover have "?u - 65075262 = us - of_nat (Suc n * 65075262)" by (simp add: algebra_simps)
  moreover have "loop_bne SLEEP_INT_MAX = 2 ^ 31 - 1" by (subst loop_bne_nonzero) (simp_all add: SLEEP_INT_MAX_def)
  ultimately show ?case using IH by (simp add: sleep_constants algebra_simps)
qed simp

text \<open>
  C38. The length of a delay in iterations, for every number of microseconds. It is 33 for each microsecond, and
  one more for each full 65075262 microseconds; but a delay of exactly a multiple of 65075262 microseconds
  leaves a counter of zero to a loop that only stops at zero, and takes \<open>2 ^ 32\<close> iterations more. As an iteration
  takes three of the hundred cycles of a microsecond, every other delay is one percent too short.
\<close>
theorem busy_sleep_time:
  "\<exists>n. ALT_USLEEP us = (0, n) \<and>
    (let q = unat us div 65075262; r = unat us mod 65075262
     in n = (if q = 0 then max 1 (33 * unat us) else if r = 0 then 33 * unat us + q + 2 ^ 32 else 33 * unat us + q) \<and>
        (r \<noteq> 0 \<longrightarrow> 99 * unat us \<le> 3 * n \<and> 3 * n < 100 * unat us))"
proof -
  let ?q = "unat us div 65075262" and ?r = "unat us mod 65075262"
  have us: "unat us < 2 ^ 32" using unsigned_less [of us, where ?'a = nat] by simp
  have split: "unat us = ?q * 65075262 + ?r" by simp
  have big: "unat (us div 65075262) = ?q" by (simp only: unat_div_distrib) simp
  have zero: "us div 65075262 = 0 \<longleftrightarrow> ?q = 0" by (simp only: unat_eq_0 [symmetric] big)
  have "?q < 67" using us by simp
  then have signed_big: "nat (sint (us div 65075262)) = ?q" by (simp add: sint_u32 big)
  have times: "unat (x * 33) = 33 * unat x" if "unat x < 65075262" for x :: u32
    using that by (simp add: unat_word_ariths take_bit_nat_eq_self)
  define n where "n = snd (alt_busy_sleep us)"
  have run: "alt_busy_sleep us = (0, n)" by (simp add: n_def alt_busy_sleep_def Let_def split: prod.split)
  have n: "n = (if ?q = 0 then max 1 (33 * unat us) else if ?r = 0 then 33 * unat us + ?q + 2 ^ 32 else 33 * unat us + ?q)"
  proof (cases "?q = 0")
    case True
    then have "unat us < 65075262" by (simp add: div_eq_0_iff)
    then show ?thesis using True zero times [of us] by (simp add: n_def alt_busy_sleep_def sleep_constants loop_bgt_small)
  next
    case False
    let ?u = "us - of_nat (?q * 65075262)"
    have b: "big_delays ?q us = (?q * (2 ^ 31 - 1), ?u)" "unat ?u = ?r"
      using big_delays_eq [of ?q us] split by (simp, simp add: minus_div_mult_eq_mod)
    have t: "unat (?u * 33) = 33 * ?r" using times [of ?u] b(2) by simp
    have "n = ?q * (2 ^ 31 - 1) + loop_bne (?u * 33)"
      using False zero b(1) by (simp add: n_def alt_busy_sleep_def sleep_constants signed_big del: of_nat_mult)
    moreover have "loop_bne (?u * 33) = (if ?r = 0 then 2 ^ 32 else 33 * ?r)"
    proof (cases "?r = 0")
      case True
      then have "?u * 33 = 0" using t by (simp add: unat_eq_0 [symmetric] del: unat_eq_0)
      then show ?thesis using True by (simp only: loop_bne_zero if_True refl)
    next
      case False
      then have "?u * 33 \<noteq> 0" using t by (metis mult_is_0 unat_0 zero_neq_numeral)
      then show ?thesis using False loop_bne_nonzero [of "?u * 33"] t by (simp only: if_False not_False_eq_True True_implies_equals)
    qed
    moreover have "?q * (2 ^ 31 - 1) = ?q * 2147483647" by simp
    then have "?q * (2 ^ 31 - 1) + 33 * ?r = 33 * unat us + ?q" using split by linarith
    moreover have "?q * 65075262 * 33 + ?q = 33 * unat us + ?q" if "?r = 0" using split that by linarith
    ultimately show ?thesis using False by (cases "?r = 0") (simp_all only: if_False if_True refl mult_0_right add_0_right)
  qed
  moreover have "99 * unat us \<le> 3 * n \<and> 3 * n < 100 * unat us" if r: "?r \<noteq> 0"
  proof (cases "?q = 0")
    case True
    then have "1 \<le> unat us" using r by (metis One_nat_def Suc_leI mod_0 neq0_conv)
    then show ?thesis using n True by simp
  next
    case False
    have "3 * ?q < unat us" using split r False by linarith
    then show ?thesis using n False r by simp
  qed
  ultimately show ?thesis using run by (auto simp: ALT_USLEEP_def Let_def)
qed

theorem busy_sleep_time_witness:
  "(\<exists>n. ALT_USLEEP 1000 = (0, n) \<and> 99000 \<le> 3 * n \<and> 3 * n < 100000) \<and>
    ALT_USLEEP 65075262 = (0, 33 * 65075262 + 1 + 2 ^ 32)"
  using busy_sleep_time [of 1000] busy_sleep_time [of 65075262] by (simp add: Let_def)

end
