(* ===== verification/Hal_Cache.thy ===== *)
theory Hal_Cache
  imports Hal_Heap
begin

text \<open>
  The caches of the Nios II (\<open>HAL/src/alt_dcache_flush.c\<close>, \<open>alt_dcache_flush_all.c\<close>,
  \<open>alt_dcache_flush_no_writeback.c\<close>, \<open>alt_icache_flush.c\<close>, \<open>alt_icache_flush_all.c\<close>) and the memory that
  bypasses them (\<open>alt_remap_cached.c\<close>, \<open>alt_remap_uncached.c\<close>, \<open>alt_uncached_malloc.c\<close>,
  \<open>alt_uncached_free.c\<close>). The cache instructions are the processor's: the code is over any six of
  them, and the locale \<open>nios2_caches\<close> says what they do by the processor handbook. \<open>Hal_Cache_Sim\<close> has a
  processor with such caches.
\<close>

section \<open>The code\<close>

definition NIOS2_DCACHE_LINE_SIZE :: u32 where "NIOS2_DCACHE_LINE_SIZE = 32"
definition NIOS2_DCACHE_SIZE :: u32 where "NIOS2_DCACHE_SIZE = 4096"
definition NIOS2_ICACHE_LINE_SIZE :: u32 where "NIOS2_ICACHE_LINE_SIZE = 32"
definition NIOS2_ICACHE_SIZE :: u32 where "NIOS2_ICACHE_SIZE = 4096"
definition BYPASS_DCACHE_MASK :: u32 where "BYPASS_DCACHE_MASK = push_bit 31 1"

lemmas cache_sizes = NIOS2_DCACHE_LINE_SIZE_def NIOS2_DCACHE_SIZE_def NIOS2_ICACHE_LINE_SIZE_def NIOS2_ICACHE_SIZE_def

text \<open>The instructions on the state \<open>'m\<close> of the processor: cache management, and the loads and stores of words.\<close>

record 'm processor =
  flushda :: "u32 \<Rightarrow> 'm \<Rightarrow> 'm"
  flushd :: "u32 \<Rightarrow> 'm \<Rightarrow> 'm"
  initda :: "u32 \<Rightarrow> 'm \<Rightarrow> 'm"
  flushi :: "u32 \<Rightarrow> 'm \<Rightarrow> 'm"
  flushp :: "'m \<Rightarrow> 'm"
  load_word :: "u32 \<Rightarrow> 'm \<Rightarrow> u32 \<times> 'm"
  store_word :: "u32 \<Rightarrow> u32 \<Rightarrow> 'm \<Rightarrow> 'm"

text \<open>
  The loop all functions share: \<open>for (; i < end; i += lsize) op (i)\<close>, with the \<open>i\<close> it ends with. Near the end of the address
  space \<open>i\<close> wraps around and the loop need not end.
\<close>

partial_function (option) cache_loop ::
  "(u32 \<Rightarrow> 'm \<Rightarrow> 'm) \<Rightarrow> u32 \<Rightarrow> u32 \<Rightarrow> u32 \<Rightarrow> 'm \<Rightarrow> (u32 \<times> 'm) option" where
  "cache_loop op lsize i end m =
    (if i < end then cache_loop op lsize (i + lsize) end (op i m) else Some (i, m))"

declare cache_loop.simps [code]

text \<open>The loop over a region, and the line that is left of an unaligned one.\<close>

definition cache_region :: "(u32 \<Rightarrow> 'm \<Rightarrow> 'm) \<Rightarrow> u32 \<Rightarrow> u32 \<Rightarrow> u32 \<Rightarrow> 'm \<Rightarrow> 'm option" where
  "cache_region op lsize start len m =
    do {
      let end = start + len;
      (i, m) \<leftarrow> cache_loop op lsize start end m;
      Some (if start AND (lsize - 1) \<noteq> 0 then op i m else m)
    }"

text \<open>\<open>NIOS2_FLUSHDA_SUPPORTED\<close> and \<open>NIOS2_INITDA_SUPPORTED\<close> are defined for this processor.\<close>

definition alt_dcache_flush :: "'m processor \<Rightarrow> u32 \<Rightarrow> u32 \<Rightarrow> 'm \<Rightarrow> 'm option" where
  "alt_dcache_flush P start len m = cache_region (flushda P) NIOS2_DCACHE_LINE_SIZE start len m"

definition alt_dcache_flush_no_writeback :: "'m processor \<Rightarrow> u32 \<Rightarrow> u32 \<Rightarrow> 'm \<Rightarrow> 'm option" where
  "alt_dcache_flush_no_writeback P start len m = cache_region (initda P) NIOS2_DCACHE_LINE_SIZE start len m"

definition alt_dcache_flush_all :: "'m processor \<Rightarrow> 'm \<Rightarrow> 'm option" where
  "alt_dcache_flush_all P m =
    do { (i, m) \<leftarrow> cache_loop (flushd P) NIOS2_DCACHE_LINE_SIZE 0 NIOS2_DCACHE_SIZE m; Some m }"

definition alt_icache_flush :: "'m processor \<Rightarrow> u32 \<Rightarrow> u32 \<Rightarrow> 'm \<Rightarrow> 'm option" where
  "alt_icache_flush P start len m =
    do {
      let len = (if len > NIOS2_ICACHE_SIZE then NIOS2_ICACHE_SIZE else len);
      m \<leftarrow> cache_region (flushi P) NIOS2_ICACHE_LINE_SIZE start len m;
      Some (flushp P m)
    }"

definition alt_icache_flush_all :: "'m processor \<Rightarrow> 'm \<Rightarrow> 'm option" where
  "alt_icache_flush_all P m = alt_icache_flush P 0 NIOS2_ICACHE_SIZE m"

definition alt_remap_cached :: "u32 \<Rightarrow> u32 \<Rightarrow> u32" where
  "alt_remap_cached ptr len = ptr AND NOT BYPASS_DCACHE_MASK"

definition alt_remap_uncached :: "'m processor \<Rightarrow> u32 \<Rightarrow> u32 \<Rightarrow> 'm \<Rightarrow> (u32 \<times> 'm) option" where
  "alt_remap_uncached P ptr len m =
    do { m \<leftarrow> alt_dcache_flush P ptr len m; Some (ptr OR BYPASS_DCACHE_MASK, m) }"

text \<open>\<open>malloc\<close> and \<open>free\<close> of the C library are parameters; a null pointer is 0.\<close>

definition alt_uncached_malloc :: "(u32 \<Rightarrow> 'm \<Rightarrow> u32 \<times> 'm) \<Rightarrow> 'm processor \<Rightarrow> u32 \<Rightarrow> 'm \<Rightarrow> (u32 \<times> 'm) option" where
  "alt_uncached_malloc malloc P sz m =
    do {
      let (ptr, m) = malloc sz m;
      m \<leftarrow> alt_dcache_flush P ptr sz m;
      Some (if ptr \<noteq> 0 then ptr OR BYPASS_DCACHE_MASK else 0, m)
    }"

definition alt_uncached_free :: "(u32 \<Rightarrow> 'm \<Rightarrow> 'm) \<Rightarrow> u32 \<Rightarrow> 'm \<Rightarrow> 'm" where
  "alt_uncached_free free ptr m = free (ptr AND NOT BYPASS_DCACHE_MASK) m"

section \<open>What the loop does\<close>

definition line_of :: "u32 \<Rightarrow> nat" where "line_of a = unat a div 32"

text \<open>The lines a region of \<open>len\<close> bytes from \<open>start\<close> on is flushed by. They include all of the region.\<close>

definition line_count :: "nat \<Rightarrow> nat \<Rightarrow> nat" where
  "line_count start len = (len + 31) div 32 + (if start mod 32 \<noteq> 0 then 1 else 0)"

definition region_lines :: "nat \<Rightarrow> nat \<Rightarrow> nat set" where
  "region_lines start len = {start div 32 ..< start div 32 + line_count start len}"

lemma region_covered:
  assumes "start \<le> x" "x < start + len"
  shows "x div 32 \<in> region_lines start len"
proof -
  have "len \<le> 32 * ((len + 31) div 32)" by presburger
  moreover have "start = 32 * (start div 32) + start mod 32" "start mod 32 < 32" by simp_all
  ultimately have "x < 32 * (start div 32 + line_count start len)"
    using assms(2) by (cases "start mod 32 = 0") (simp_all add: line_count_def)
  then have "x div 32 < start div 32 + line_count start len" by (simp add: div_less_iff_less_mult mult.commute)
  then show ?thesis using div_le_mono [OF assms(1), of 32] by (simp add: region_lines_def)
qed

lemma unat_add_small: "unat a + n < 2 ^ 32 \<Longrightarrow> unat (a + of_nat n :: u32) = unat a + n"
  by (simp add: unat_plus_if_size word_size unsigned_of_nat take_bit_nat_eq_self)

lemma cache_loop_run:
  assumes "unat a + 32 * n < 2 ^ 32" "unat e \<le> unat a + 32 * n" "\<And>k. k < n \<Longrightarrow> unat a + 32 * k < unat e"
  shows "cache_loop op 32 a e m = Some (a + of_nat (32 * n), fold (\<lambda>k. op (a + of_nat (32 * k))) [0..<n] m)"
  using assms
proof (induction n arbitrary: a m)
  case 0
  then show ?case by (subst cache_loop.simps) (simp add: word_less_nat_alt)
next
  case (Suc n)
  have a: "unat (a + 32) = unat a + 32" using unat_add_small [of a 32] Suc.prems(1) by simp
  have "a < e" using Suc.prems(3) [of 0] by (simp add: word_less_nat_alt)
  moreover have "cache_loop op 32 (a + 32) e (op a m) =
      Some (a + 32 + of_nat (32 * n), fold (\<lambda>k. op (a + 32 + of_nat (32 * k))) [0..<n] (op a m))"
  proof (rule Suc.IH)
    show "unat (a + 32) + 32 * k < unat e" if "k < n" for k using Suc.prems(3) [of "Suc k"] that a by simp
  qed (use Suc.prems(1,2) a in simp_all)
  moreover have "fold (\<lambda>k. op (a + of_nat (32 * k))) [0..<Suc n] m =
      fold (\<lambda>k. op (a + 32 + of_nat (32 * k))) [0..<n] (op a m)"
    by (simp add: upt_conv_Cons map_Suc_upt [symmetric] fold_map comp_def algebra_simps del: upt_Suc)
  ultimately show ?case by (subst cache_loop.simps) (simp add: algebra_simps)
qed

lemma and_31: "a AND 31 = (0 :: u32) \<longleftrightarrow> unat a mod 32 = 0"
proof -
  have "a AND 31 = take_bit 5 a" by (simp add: take_bit_eq_mask mask_eq_exp_minus_1)
  then have "a AND 31 = 0 \<longleftrightarrow> unat (take_bit 5 a) = 0" by (simp add: unat_eq_zero)
  then show ?thesis by (simp only: unsigned_take_bit_eq) (simp add: take_bit_eq_mod)
qed

text \<open>Inside the address space the loop ends, and its instructions are those of the lines of the region, in order.\<close>

lemma cache_region_run:
  assumes "unat start + unat len \<le> 2 ^ 32 - 32"
  shows "cache_region op 32 start len m =
    Some (fold (\<lambda>k. op (start + of_nat (32 * k))) [0..<line_count (unat start) (unat len)] m)"
proof -
  let ?n = "(unat len + 31) div 32"
  have len: "unat (start + len) = unat start + unat len" using unat_add_small [of start "unat len"] assms by simp
  have "cache_loop op 32 start (start + len) m =
      Some (start + of_nat (32 * ?n), fold (\<lambda>k. op (start + of_nat (32 * k))) [0..<?n] m)"
    by (rule cache_loop_run) (use assms len in auto)
  then show ?thesis by (simp add: cache_region_def and_31 line_count_def fold_append del: of_nat_mult)
qed

lemma line_of_step:
  assumes "unat start + unat len \<le> 2 ^ 31 - 32" "k < line_count (unat start) (unat len)"
  shows "line_of (start + of_nat (32 * k)) = unat start div 32 + k" "unat (start + of_nat (32 * k)) < 2 ^ 31"
proof -
  have "32 * k \<le> unat len + 31" using assms(2) unfolding line_count_def by (simp split: if_splits)
  then have "unat (start + of_nat (32 * k)) = unat start + 32 * k" "unat start + 32 * k < 2 ^ 31"
    using unat_add_small [of start "32 * k"] assms(1) by simp_all
  then show "line_of (start + of_nat (32 * k)) = unat start div 32 + k" "unat (start + of_nat (32 * k)) < 2 ^ 31"
    by (simp_all add: line_of_def)
qed

lemma bypass_address:
  fixes a :: u32
  assumes "unat a < 2 ^ 31"
  shows "(a OR BYPASS_DCACHE_MASK) AND NOT BYPASS_DCACHE_MASK = a" "2 ^ 31 \<le> unat (a OR BYPASS_DCACHE_MASK)"
    "aligned (a OR BYPASS_DCACHE_MASK) \<longleftrightarrow> aligned a"
proof -
  have low: "take_bit 31 b = b" if "unat b < 2 ^ 31" for b :: u32
    using that by (simp add: word_unat_eq_iff unsigned_take_bit_eq take_bit_nat_eq_self)
  then have no_bit: "\<not> bit a n" if "31 \<le> n" for n using assms that by (metis bit_take_bit_iff not_less)
  have mask: "bit BYPASS_DCACHE_MASK n \<longleftrightarrow> n = 31" for n
    by (auto simp only: BYPASS_DCACHE_MASK_def bit_push_bit_iff bit_1_iff) simp_all
  then have "bit (a OR BYPASS_DCACHE_MASK) 31" by (simp only: bit_or_iff) simp
  then show "2 ^ 31 \<le> unat (a OR BYPASS_DCACHE_MASK)" using low by (metis bit_take_bit_iff less_irrefl not_less)
  show "(a OR BYPASS_DCACHE_MASK) AND NOT BYPASS_DCACHE_MASK = a"
    using no_bit [of 31] mask by (intro bit_word_eqI) (auto simp: bit_or_iff bit_and_iff bit_not_iff)
  have "(a OR BYPASS_DCACHE_MASK) AND 3 = a AND 3"
    by (simp add: bit.conj_disj_distrib2 BYPASS_DCACHE_MASK_def)
  then show "aligned (a OR BYPASS_DCACHE_MASK) \<longleftrightarrow> aligned a" by (simp only: and_3 [symmetric])
qed

section \<open>What the instructions do\<close>

text \<open>
  What matters of the data cache: the bytes in memory, the bytes a cached load finds, and the lines that
  are in the cache and newer than memory.
\<close>

record caches =
  ram :: memory
  cached :: memory
  dirty :: "nat \<Rightarrow> bool"

text \<open>Writing the lines \<open>L\<close> back and removing them, or only removing them.\<close>

definition drain :: "nat set \<Rightarrow> caches \<Rightarrow> caches" where
  "drain L c =
    \<lparr>ram = (\<lambda>x. if line_of x \<in> L \<and> dirty c (line_of x) then cached c x else ram c x),
     cached = (\<lambda>x. if line_of x \<in> L \<and> \<not> dirty c (line_of x) then ram c x else cached c x),
     dirty = (\<lambda>l. dirty c l \<and> l \<notin> L)\<rparr>"

definition discard :: "nat set \<Rightarrow> caches \<Rightarrow> caches" where
  "discard L c =
    c\<lparr>cached := (\<lambda>x. if line_of x \<in> L then ram c x else cached c x), dirty := (\<lambda>l. dirty c l \<and> l \<notin> L)\<rparr>"

text \<open>Nothing else has written to memory behind the cache.\<close>

definition coherent :: "caches \<Rightarrow> bool" where
  "coherent c \<longleftrightarrow> (\<forall>x. \<not> dirty c (line_of x) \<longrightarrow> cached c x = ram c x)"

lemma drain_empty [simp]: "drain {} c = c" and discard_empty [simp]: "discard {} c = c"
  by (simp_all add: drain_def discard_def)

lemma drain_drain [simp]: "drain L2 (drain L1 c) = drain (L1 \<union> L2) c"
  by (auto simp: drain_def fun_eq_iff)

lemma discard_discard [simp]: "discard L2 (discard L1 c) = discard (L1 \<union> L2) c"
  by (cases c) (auto simp: discard_def fun_eq_iff)

lemma drain_all:
  assumes "\<And>x. line_of x \<in> L" "coherent c"
  shows "ram (drain L c) = cached c" "cached (drain L c) = cached c"
  using assms by (auto simp: drain_def coherent_def fun_eq_iff)

text \<open>
  The processor handbook: both caches are direct-mapped with 128 lines of 32 bytes. \<open>flushda\<close> and \<open>initda\<close> work on
  the line of the address if it is in the cache, \<open>flushd\<close> and \<open>flushi\<close> on whatever line is in its place. Addresses
  with bit 31 go past the data cache. \<open>fetched\<close> is what the processor finds as an instruction. A load or store may move lines
  between cache and memory, which nobody sees as long as memory is only written through the cache.
\<close>

locale nios2_caches =
  fixes P :: "'m processor" and data :: "'m \<Rightarrow> caches" and fetched :: "'m \<Rightarrow> memory"
  assumes flushda: "unat a < 2 ^ 31 \<Longrightarrow> data (flushda P a m) = drain {line_of a} (data m)"
    and flushd: "unat a < 2 ^ 31 \<Longrightarrow> data (flushd P a m) = drain {l. l mod 128 = line_of a mod 128} (data m)"
    and initda: "unat a < 2 ^ 31 \<Longrightarrow> data (initda P a m) = discard {line_of a} (data m)"
    and flushi: "unat a < 2 ^ 31 \<Longrightarrow> data (flushi P a m) = data m"
    and flushi_fetched: "unat a < 2 ^ 31 \<Longrightarrow>
      fetched (flushi P a m) x = (if line_of x mod 128 = line_of a mod 128 then ram (data m) x else fetched m x)"
    and flushp: "data (flushp P m) = data m" "fetched (flushp P m) = fetched m"
    and load_cached: "aligned a \<Longrightarrow> unat a < 2 ^ 31 \<Longrightarrow> coherent (data m) \<Longrightarrow>
      fst (load_word P a m) = word_at (cached (data m)) a \<and>
      cached (data (snd (load_word P a m))) = cached (data m) \<and> coherent (data (snd (load_word P a m)))"
    and store_cached: "aligned a \<Longrightarrow> unat a < 2 ^ 31 \<Longrightarrow> coherent (data m) \<Longrightarrow>
      cached (data (store_word P a v m)) = put_word a v (cached (data m)) \<and> coherent (data (store_word P a v m))"
    and load_bypass: "aligned a \<Longrightarrow> 2 ^ 31 \<le> unat a \<Longrightarrow>
      load_word P a m = (word_at (ram (data m)) (a AND NOT BYPASS_DCACHE_MASK), m)"
begin

lemma drain_lines:
  assumes "unat start + unat len \<le> 2 ^ 31 - 32" "n \<le> line_count (unat start) (unat len)"
  shows "data (fold (\<lambda>k. flushda P (start + of_nat (32 * k))) [0..<n] m) =
    drain {unat start div 32 ..< unat start div 32 + n} (data m)"
  using assms(2)
proof (induction n)
  case (Suc n)
  then show ?case
    using line_of_step [OF assms(1), of n] by (simp add: flushda atLeastLessThanSuc del: of_nat_mult)
qed simp

lemma discard_lines:
  assumes "unat start + unat len \<le> 2 ^ 31 - 32" "n \<le> line_count (unat start) (unat len)"
  shows "data (fold (\<lambda>k. initda P (start + of_nat (32 * k))) [0..<n] m) =
    discard {unat start div 32 ..< unat start div 32 + n} (data m)"
  using assms(2)
proof (induction n)
  case (Suc n)
  then show ?case
    using line_of_step [OF assms(1), of n] by (simp add: initda atLeastLessThanSuc del: of_nat_mult)
qed simp

lemma fetch_lines:
  fixes m :: 'm and n :: nat
  assumes "unat start + unat len \<le> 2 ^ 31 - 32" "n \<le> line_count (unat start) (unat len)"
  defines "m' \<equiv> fold (\<lambda>k. flushi P (start + of_nat (32 * k))) [0..<n] m"
  shows "data m' = data m \<and>
    fetched m' x = (if \<exists>l \<in> {unat start div 32 ..< unat start div 32 + n}. l mod 128 = line_of x mod 128
      then ram (data m) x else fetched m x)"
  using assms(2) unfolding m'_def
proof (induction n)
  case (Suc n)
  have "{unat start div 32 ..< unat start div 32 + Suc n} = insert (unat start div 32 + n) {unat start div 32 ..< unat start div 32 + n}"
    by auto
  then show ?case
    using Suc line_of_step [OF assms(1), of n] by (auto simp: flushi flushi_fetched simp del: of_nat_mult)
qed simp

lemma dcache_flush:
  assumes "unat start + unat len \<le> 2 ^ 31 - 32"
  shows "\<exists>m'. alt_dcache_flush P start len m = Some m' \<and> data m' = drain (region_lines (unat start) (unat len)) (data m)"
  using assms cache_region_run [of start len "flushda P" m] drain_lines [OF assms order_refl, of m]
  by (simp add: alt_dcache_flush_def cache_sizes region_lines_def)

lemma dcache_discard:
  assumes "unat start + unat len \<le> 2 ^ 31 - 32"
  shows "\<exists>m'. alt_dcache_flush_no_writeback P start len m = Some m' \<and>
    data m' = discard (region_lines (unat start) (unat len)) (data m)"
  using assms cache_region_run [of start len "initda P" m] discard_lines [OF assms order_refl, of m]
  by (simp add: alt_dcache_flush_no_writeback_def cache_sizes region_lines_def)

text \<open>An instruction cache of 128 lines is flushed by 128 lines, so that the length can be cut.\<close>

lemma icache_flush:
  assumes "unat start + unat len \<le> 2 ^ 31 - 32"
  shows "\<exists>m'. alt_icache_flush P start len m = Some m' \<and> data m' = data m \<and>
    (\<forall>x. unat start \<le> unat x \<and> unat x < unat start + unat len \<longrightarrow> fetched m' x = ram (data m) x)"
proof -
  let ?len = "if len > NIOS2_ICACHE_SIZE then NIOS2_ICACHE_SIZE else len"
  have len: "unat ?len = min 4096 (unat len)" by (auto simp: cache_sizes word_less_nat_alt)
  have "unat ?len \<le> unat len" by (simp only: len)
  then have small: "unat start + unat ?len \<le> 2 ^ 31 - 32" using assms by linarith
  have "\<exists>l \<in> region_lines (unat start) (unat ?len). l mod 128 = line_of x mod 128"
    if "unat start \<le> unat x" "unat x < unat start + unat len" for x
  proof (cases "unat len \<le> 4096")
    case True
    then show ?thesis using region_covered [OF that] len by (intro bexI [of _ "line_of x"]) (simp_all add: line_of_def)
  next
    case False
    define q where "q = unat start div 32"
    define l where "l = q + (line_of x + 128 * q - q) mod 128"
    have "l mod 128 = (q + (line_of x + 128 * q - q)) mod 128" by (simp only: l_def mod_add_right_eq)
    also have "\<dots> = line_of x mod 128" by simp
    finally have "l mod 128 = line_of x mod 128" .
    moreover have "(line_of x + 128 * q - q) mod 128 < 128" by simp
    then have "l \<in> region_lines (unat start) (unat ?len)"
      using False unfolding len region_lines_def line_count_def l_def q_def [symmetric] by simp
    ultimately show ?thesis by blast
  qed
  then show ?thesis
    using cache_region_run [of start ?len "flushi P" m] small fetch_lines [OF small order_refl, of m]
    by (simp add: alt_icache_flush_def flushp cache_sizes region_lines_def Let_def)
qed

text \<open>Flushing all 128 places of the data cache writes back everything.\<close>

lemma dcache_flush_all:
  "\<exists>m'. alt_dcache_flush_all P m = Some m' \<and> data m' = drain UNIV (data m)"
proof -
  have run: "cache_loop (flushd P) 32 0 4096 m = Some (4096, fold (\<lambda>k. flushd P (of_nat (32 * k))) [0..<128] m)"
    using cache_loop_run [of 0 128 4096 "flushd P" m] by simp
  have "data (fold (\<lambda>k. flushd P (of_nat (32 * k))) [0..<n] m) = drain {l. l mod 128 < n} (data m)" if "n \<le> 128" for n
    using that
  proof (induction n)
    case (Suc n)
    have a: "unat (of_nat (32 * n) :: u32) = 32 * n" using unat_add_small [of 0 "32 * n"] Suc.prems by simp
    then have "line_of (of_nat (32 * n)) = n" by (simp add: line_of_def)
    moreover have "{l. l mod 128 < n} \<union> {l. l mod 128 = n} = {l :: nat. l mod 128 < Suc n}" by auto
    ultimately show ?case using Suc a by (simp add: flushd del: of_nat_mult)
  qed simp
  from this [of 128] have "data (fold (\<lambda>k. flushd P (of_nat (32 * k))) [0..<128] m) = drain UNIV (data m)" by simp
  then show ?thesis using run by (simp add: alt_dcache_flush_all_def cache_sizes)
qed

lemma icache_flush_all:
  "\<exists>m'. alt_icache_flush_all P m = Some m' \<and> data m' = data m \<and> fetched m' = ram (data m)"
proof -
  have run: "alt_icache_flush_all P m = Some (flushp P (fold (\<lambda>k. flushi P (of_nat (32 * k))) [0..<128] m))"
    using cache_region_run [of 0 4096 "flushi P" m]
    by (simp add: alt_icache_flush_all_def alt_icache_flush_def cache_sizes line_count_def)
  have "\<exists>l \<in> {0..<128}. l mod 128 = line_of x mod 128" for x by (intro bexI [of _ "line_of x mod 128"]) simp_all
  then show ?thesis
    using run fetch_lines [of 0 "4096 :: u32" 128 m] by (simp add: flushp line_count_def fun_eq_iff)
qed

text \<open>What has been written through the cache is read past the cache.\<close>

lemma remap_uncached:
  assumes "unat ptr + unat len \<le> 2 ^ 31 - 32" "coherent (data m)"
  shows "\<exists>m'. alt_remap_uncached P ptr len m = Some (ptr OR BYPASS_DCACHE_MASK, m') \<and>
    alt_remap_cached (ptr OR BYPASS_DCACHE_MASK) len = ptr \<and> cached (data m') = cached (data m) \<and>
    (\<forall>a. aligned a \<and> unat ptr \<le> unat a \<and> unat a + 3 < unat ptr + unat len \<longrightarrow>
      load_word P (a OR BYPASS_DCACHE_MASK) m' = (word_at (cached (data m)) a, m'))"
proof -
  obtain m' where flush: "alt_dcache_flush P ptr len m = Some m'"
    and data': "data m' = drain (region_lines (unat ptr) (unat len)) (data m)"
    using dcache_flush [OF assms(1)] by blast
  have low: "unat ptr < 2 ^ 31" using assms(1) by simp
  have "word_at (ram (data m')) a = word_at (cached (data m)) a"
    if "aligned a" "unat ptr \<le> unat a" "unat a + 3 < unat ptr + unat len" for a
  proof -
    have "ram (data m') (a + of_nat i) = cached (data m) (a + of_nat i)" if "i < 4" for i
    proof -
      have "unat (a + of_nat i) = unat a + i" by (rule aligned_offset [OF \<open>aligned a\<close> that])
      then have "line_of (a + of_nat i) \<in> region_lines (unat ptr) (unat len)"
        unfolding line_of_def using \<open>unat ptr \<le> unat a\<close> \<open>unat a + 3 < unat ptr + unat len\<close> \<open>i < 4\<close> by (intro region_covered) simp_all
      then show ?thesis using assms(2) by (simp add: data' drain_def coherent_def)
    qed
    from this [of 0] this [of 1] this [of 2] this [of 3] show ?thesis by (simp add: word_at_def)
  qed
  moreover have "cached (data m') = cached (data m)"
    using assms(2) by (auto simp: data' drain_def coherent_def fun_eq_iff)
  ultimately have "cached (data m') = cached (data m) \<and>
    (\<forall>a. aligned a \<and> unat ptr \<le> unat a \<and> unat a + 3 < unat ptr + unat len \<longrightarrow>
      load_word P (a OR BYPASS_DCACHE_MASK) m' = (word_at (cached (data m)) a, m'))"
  proof (intro conjI allI impI; (elim conjE)?)
    fix a assume words: "\<And>a. aligned a \<Longrightarrow> unat ptr \<le> unat a \<Longrightarrow> unat a + 3 < unat ptr + unat len \<Longrightarrow>
      word_at (ram (data m')) a = word_at (cached (data m)) a"
    assume a: "aligned a" "unat ptr \<le> unat a" "unat a + 3 < unat ptr + unat len"
    have small: "unat a < 2 ^ 31" using assms(1) a(3) by simp
    show "load_word P (a OR BYPASS_DCACHE_MASK) m' = (word_at (cached (data m)) a, m')"
      using load_bypass [of "a OR BYPASS_DCACHE_MASK" m'] bypass_address [OF small] words [OF a] a(1) by simp
  qed
  then show ?thesis
    using flush low bypass_address(1)
    by (auto simp: alt_remap_uncached_def alt_remap_cached_def)
qed

end

end
