(* ===== verification/Hal_Cache_Sim.thy ===== *)
theory Hal_Cache_Sim
  imports Hal_Cache
begin

text \<open>
  A processor with the caches of this system: a direct-mapped write-back data cache and a direct-mapped
  instruction cache, each of 128 lines of 32 bytes. It follows the processor handbook and interprets the
  interface of \<open>Hal_Cache\<close>.
\<close>

section \<open>The processor\<close>

definition place :: "u32 \<Rightarrow> nat" where "place a = line_of a mod 128"
definition tag :: "u32 \<Rightarrow> nat" where "tag a = line_of a div 128"

record cache_line =
  cl_tag :: nat
  cl_dirty :: bool
  cl_bytes :: "nat \<Rightarrow> u8"

record nios2 =
  n_ram :: memory
  n_dcache :: "nat \<Rightarrow> cache_line option"
  n_icache :: "nat \<Rightarrow> cache_line option"

definition nios2_reset :: "memory \<Rightarrow> nios2" where
  "nios2_reset mem = \<lparr>n_ram = mem, n_dcache = (\<lambda>_. None), n_icache = (\<lambda>_. None)\<rparr>"

text \<open>The byte at an address, in the line at its place or else in memory.\<close>

definition found :: "(nat \<Rightarrow> cache_line option) \<Rightarrow> memory \<Rightarrow> memory" where
  "found c mem x =
    (case c (place x) of
       None \<Rightarrow> mem x
     | Some d \<Rightarrow> if cl_tag d = tag x then cl_bytes d (unat x mod 32) else mem x)"

definition nios2_data :: "nios2 \<Rightarrow> caches" where
  "nios2_data m =
    \<lparr>ram = n_ram m, cached = found (n_dcache m) (n_ram m),
     dirty = (\<lambda>l. case n_dcache m (l mod 128) of None \<Rightarrow> False | Some d \<Rightarrow> cl_tag d = l div 128 \<and> cl_dirty d)\<rparr>"

definition nios2_fetched :: "nios2 \<Rightarrow> memory" where
  "nios2_fetched m = found (n_icache m) (n_ram m)"

definition hit :: "nios2 \<Rightarrow> u32 \<Rightarrow> bool" where
  "hit m a \<longleftrightarrow> (case n_dcache m (place a) of None \<Rightarrow> False | Some d \<Rightarrow> cl_tag d = tag a)"

definition drop_line :: "nat \<Rightarrow> nios2 \<Rightarrow> nios2" where
  "drop_line p m = m\<lparr>n_dcache := (n_dcache m)(p := None)\<rparr>"

definition write_back :: "nat \<Rightarrow> nios2 \<Rightarrow> nios2" where
  "write_back p m =
    (case n_dcache m p of
       None \<Rightarrow> m
     | Some d \<Rightarrow> drop_line p (m\<lparr>n_ram := (\<lambda>x. if cl_dirty d \<and> place x = p \<and> tag x = cl_tag d then cl_bytes d (unat x mod 32) else n_ram m x)\<rparr>))"

definition line_bytes :: "u32 \<Rightarrow> memory \<Rightarrow> nat \<Rightarrow> u8" where
  "line_bytes a mem i = mem (of_nat (32 * line_of a + i))"

definition put_line :: "u32 \<Rightarrow> bool \<Rightarrow> memory \<Rightarrow> nios2 \<Rightarrow> nios2" where
  "put_line a dirt mem m = m\<lparr>n_dcache := (n_dcache m)(place a := Some \<lparr>cl_tag = tag a, cl_dirty = dirt, cl_bytes = line_bytes a mem\<rparr>)\<rparr>"

text \<open>An access to a line that is not in the cache replaces the line at its place.\<close>

definition touch :: "u32 \<Rightarrow> nios2 \<Rightarrow> nios2" where
  "touch a m = (if hit m a then m else (let m = write_back (place a) m in put_line a False (n_ram m) m))"

definition nios2_load :: "u32 \<Rightarrow> nios2 \<Rightarrow> u32 \<times> nios2" where
  "nios2_load a m =
    (if 2 ^ 31 \<le> unat a then (word_at (n_ram m) (a AND NOT BYPASS_DCACHE_MASK), m)
     else let m = touch a m in (word_at (cached (nios2_data m)) a, m))"

definition nios2_store :: "u32 \<Rightarrow> u32 \<Rightarrow> nios2 \<Rightarrow> nios2" where
  "nios2_store a v m =
    (if 2 ^ 31 \<le> unat a then m\<lparr>n_ram := put_word (a AND NOT BYPASS_DCACHE_MASK) v (n_ram m)\<rparr>
     else let m = touch a m in put_line a True (put_word a v (cached (nios2_data m))) m)"

definition nios2_processor :: "nios2 processor" where
  "nios2_processor =
    \<lparr>flushda = (\<lambda>a m. if hit m a then write_back (place a) m else m),
     flushd = (\<lambda>a m. write_back (place a) m),
     initda = (\<lambda>a m. if hit m a then drop_line (place a) m else m),
     flushi = (\<lambda>a m. m\<lparr>n_icache := (n_icache m)(place a := None)\<rparr>),
     flushp = (\<lambda>m. m),
     load_word = nios2_load, store_word = nios2_store\<rparr>"

section \<open>It keeps the handbook\<close>

lemma line_place: "line_of x mod 128 = place x" "line_of x div 128 = tag x"
  by (simp_all add: place_def tag_def)

lemma line_is: "l = line_of a \<longleftrightarrow> l mod 128 = place a \<and> l div 128 = tag a"
  unfolding place_def tag_def by (metis div_mult_mod_eq)

lemma line_address: "of_nat (32 * line_of x + unat x mod 32) = (x :: u32)"
  by (simp only: line_of_def mult_div_mod_eq word_unat_eq_iff) simp

lemma caches_eq: "ram c = ram d \<Longrightarrow> cached c = cached d \<Longrightarrow> dirty c = dirty d \<Longrightarrow> c = (d :: caches)"
  by simp

lemma data_fields:
  "ram (nios2_data m) = n_ram m" "cached (nios2_data m) = found (n_dcache m) (n_ram m)"
  "dirty (nios2_data m) l \<longleftrightarrow> (\<exists>d. n_dcache m (l mod 128) = Some d \<and> cl_tag d = l div 128 \<and> cl_dirty d)"
  by (simp_all add: nios2_data_def split: option.split)

lemma dirty_line: "dirty (nios2_data m) (line_of x) \<longleftrightarrow> (\<exists>d. n_dcache m (place x) = Some d \<and> cl_tag d = tag x \<and> cl_dirty d)"
  by (simp add: data_fields line_place)

lemma drain_fields:
  "ram (drain L c) x = (if line_of x \<in> L \<and> dirty c (line_of x) then cached c x else ram c x)"
  "cached (drain L c) x = (if line_of x \<in> L \<and> \<not> dirty c (line_of x) then ram c x else cached c x)"
  "dirty (drain L c) l \<longleftrightarrow> dirty c l \<and> l \<notin> L"
  by (simp_all add: drain_def)

lemma write_back_at:
  assumes "place x = p"
  shows "n_ram (write_back p m) x = (if dirty (nios2_data m) (line_of x) then found (n_dcache m) (n_ram m) x else n_ram m x)"
    "found (n_dcache (write_back p m)) (n_ram (write_back p m)) x = n_ram (write_back p m) x"
  using assms by (cases "n_dcache m p"; simp add: write_back_def drop_line_def dirty_line found_def)+

lemma write_back_elsewhere:
  assumes "place x \<noteq> p"
  shows "n_ram (write_back p m) x = n_ram m x"
    "found (n_dcache (write_back p m)) (n_ram (write_back p m)) x = found (n_dcache m) (n_ram m) x"
  using assms by (cases "n_dcache m p"; simp add: write_back_def drop_line_def found_def)+

lemma write_back_data:
  "nios2_data (write_back p m) = drain {l. l mod 128 = p} (nios2_data m)"
proof (rule caches_eq)
  show "ram (nios2_data (write_back p m)) = ram (drain {l. l mod 128 = p} (nios2_data m))"
  proof
    fix x show "ram (nios2_data (write_back p m)) x = ram (drain {l. l mod 128 = p} (nios2_data m)) x"
      by (cases "place x = p") (simp_all add: data_fields(1,2) drain_fields line_place write_back_at write_back_elsewhere)
  qed
  show "cached (nios2_data (write_back p m)) = cached (drain {l. l mod 128 = p} (nios2_data m))"
  proof
    fix x show "cached (nios2_data (write_back p m)) x = cached (drain {l. l mod 128 = p} (nios2_data m)) x"
      by (cases "place x = p") (simp_all add: data_fields(1,2) drain_fields line_place write_back_at write_back_elsewhere)
  qed
  show "dirty (nios2_data (write_back p m)) = dirty (drain {l. l mod 128 = p} (nios2_data m))"
  proof
    fix l :: nat
    define q t where "q = l mod 128" and "t = l div 128"
    have "(\<exists>d. n_dcache (write_back p m) q = Some d \<and> cl_tag d = t \<and> cl_dirty d) \<longleftrightarrow>
        (\<exists>d. n_dcache m q = Some d \<and> cl_tag d = t \<and> cl_dirty d) \<and> q \<noteq> p"
      by (cases "q = p"; cases "n_dcache m p") (simp_all add: write_back_def drop_line_def)
    then show "dirty (nios2_data (write_back p m)) l = dirty (drain {l. l mod 128 = p} (nios2_data m)) l"
      by (simp only: drain_fields data_fields(3) q_def t_def mem_Collect_eq)
  qed
qed

text \<open>A line that is not in the cache may be drained or not. Only one line of a place can be in the cache.\<close>

definition held :: "nios2 \<Rightarrow> nat \<Rightarrow> bool" where
  "held m l \<longleftrightarrow> (\<exists>d. n_dcache m (l mod 128) = Some d \<and> cl_tag d = l div 128)"

lemma hit_held: "hit m a = held m (line_of a)"
  by (simp add: hit_def held_def line_place split: option.split)

lemma not_held:
  assumes "\<not> held m l"
  shows "\<not> dirty (nios2_data m) l" "line_of x = l \<Longrightarrow> cached (nios2_data m) x = ram (nios2_data m) x"
  using assms by (auto simp: held_def data_fields found_def line_place split: option.split)

lemma held_unique: "held m l \<Longrightarrow> held m k \<Longrightarrow> l mod 128 = k mod 128 \<Longrightarrow> l = k"
  unfolding held_def by (metis div_mult_mod_eq option.inject)

lemma drain_held:
  assumes "\<And>l. held m l \<Longrightarrow> l \<in> L \<longleftrightarrow> l \<in> K"
  shows "drain L (nios2_data m) = drain K (nios2_data m)" "discard L (nios2_data m) = discard K (nios2_data m)"
proof -
  have d: "dirty (nios2_data m) l \<and> l \<notin> L \<longleftrightarrow> dirty (nios2_data m) l \<and> l \<notin> K" for l using not_held(1) assms by blast
  have c: "\<not> (line_of x \<in> L \<longleftrightarrow> line_of x \<in> K) \<Longrightarrow> cached (nios2_data m) x = ram (nios2_data m) x" for x
    using not_held(2) assms by blast
  show "drain L (nios2_data m) = drain K (nios2_data m)"
    by (rule caches_eq; rule ext) (use c d in \<open>auto simp: drain_fields\<close>)
  show "discard L (nios2_data m) = discard K (nios2_data m)"
    by (rule caches_eq; rule ext) (use c d in \<open>auto simp: discard_def\<close>)
qed

lemma drain_hit: "hit m a \<Longrightarrow> drain {l. l mod 128 = place a} (nios2_data m) = drain {line_of a} (nios2_data m)"
  using held_unique by (intro drain_held) (auto simp: hit_held place_def)

lemma drain_miss: "\<not> hit m a \<Longrightarrow> drain {line_of a} (nios2_data m) = nios2_data m"
  using drain_held(1) [of m "{line_of a}" "{}"] by (auto simp: hit_held)

lemma discard_miss: "\<not> hit m a \<Longrightarrow> discard {line_of a} (nios2_data m) = nios2_data m"
  using drain_held(2) [of m "{line_of a}" "{}"] by (auto simp: hit_held)

text \<open>Replacing the line in a place by a line of given contents, or by none.\<close>

lemma drop_place:
  "nios2_data (drop_line p m) = discard {l. l mod 128 = p} (nios2_data m)"
proof (rule caches_eq)
  show "ram (nios2_data (drop_line p m)) = ram (discard {l. l mod 128 = p} (nios2_data m))"
    by (simp add: data_fields discard_def drop_line_def)
  show "cached (nios2_data (drop_line p m)) = cached (discard {l. l mod 128 = p} (nios2_data m))"
    by (simp add: data_fields discard_def drop_line_def found_def line_place fun_eq_iff)
  show "dirty (nios2_data (drop_line p m)) = dirty (discard {l. l mod 128 = p} (nios2_data m))"
    by (simp add: data_fields discard_def drop_line_def fun_eq_iff)
qed

lemma drop_hit: "hit m a \<Longrightarrow> nios2_data (drop_line (place a) m) = discard {line_of a} (nios2_data m)"
  unfolding drop_place using held_unique by (intro drain_held) (auto simp: hit_held place_def)

lemma line_byte: "line_of x = line_of a \<Longrightarrow> line_bytes a mem (unat x mod 32) = mem x"
  unfolding line_bytes_def by (metis line_address)

lemma put_line_data:
  assumes "\<And>l. held m l \<Longrightarrow> l mod 128 = place a \<Longrightarrow> l = line_of a"
  shows "nios2_data (put_line a dirt mem m) = (nios2_data m)
    \<lparr>cached := (\<lambda>x. if line_of x = line_of a then mem x else cached (nios2_data m) x),
     dirty := (dirty (nios2_data m))(line_of a := dirt)\<rparr>"
proof (rule caches_eq)
  have tags: "k = line_of a \<longleftrightarrow> k mod 128 = place a \<and> k div 128 = tag a" for k by (rule line_is)
  have other: "\<not> held m k" if "k mod 128 = place a" "k div 128 \<noteq> tag a" for k using assms that tags by blast
  show "ram (nios2_data (put_line a dirt mem m)) = ram ((nios2_data m)
      \<lparr>cached := (\<lambda>x. if line_of x = line_of a then mem x else cached (nios2_data m) x),
       dirty := (dirty (nios2_data m))(line_of a := dirt)\<rparr>)"
    by (simp add: data_fields put_line_def)
  show "cached (nios2_data (put_line a dirt mem m)) = cached ((nios2_data m)
      \<lparr>cached := (\<lambda>x. if line_of x = line_of a then mem x else cached (nios2_data m) x),
       dirty := (dirty (nios2_data m))(line_of a := dirt)\<rparr>)"
  proof
    fix x
    consider "line_of x = line_of a" | "place x = place a" "tag x \<noteq> tag a" | "place x \<noteq> place a"
      using tags [of "line_of x"] by (auto simp: line_place)
    then show "cached (nios2_data (put_line a dirt mem m)) x = cached ((nios2_data m)
      \<lparr>cached := (\<lambda>x. if line_of x = line_of a then mem x else cached (nios2_data m) x),
       dirty := (dirty (nios2_data m))(line_of a := dirt)\<rparr>) x"
    proof cases
      case 1
      then show ?thesis using line_byte [OF 1] tags [of "line_of x"] by (simp add: data_fields put_line_def found_def line_place)
    next
      case 2
      then have "\<not> held m (line_of x)" using other [of "line_of x"] by (simp add: line_place)
      then show ?thesis using 2 not_held(2) [of m "line_of x" x] tags [of "line_of x"]
        by (simp add: data_fields put_line_def found_def [of _ _ x] line_place)
    next
      case 3
      then show ?thesis using tags [of "line_of x"] by (simp add: data_fields put_line_def found_def line_place)
    qed
  qed
  show "dirty (nios2_data (put_line a dirt mem m)) = dirty ((nios2_data m)
      \<lparr>cached := (\<lambda>x. if line_of x = line_of a then mem x else cached (nios2_data m) x),
       dirty := (dirty (nios2_data m))(line_of a := dirt)\<rparr>)"
  proof
    fix k :: nat
    define q t where "q = k mod 128" and "t = k div 128"
    note fold = q_def [symmetric] t_def [symmetric]
    have "\<not> (\<exists>d. n_dcache m q = Some d \<and> cl_tag d = t \<and> cl_dirty d)" if "q = place a" "t \<noteq> tag a"
      using other [of k] that by (auto simp: held_def fold)
    then show "dirty (nios2_data (put_line a dirt mem m)) k = dirty ((nios2_data m)
      \<lparr>cached := (\<lambda>x. if line_of x = line_of a then mem x else cached (nios2_data m) x),
       dirty := (dirty (nios2_data m))(line_of a := dirt)\<rparr>) k"
      by (auto simp: data_fields put_line_def tags [of k] fold)
  qed
qed

text \<open>An access brings its line into the cache and changes nothing that can be read.\<close>

lemma coherent_drain:
  assumes "coherent c"
  shows "cached (drain L c) = cached c" "coherent (drain L c)"
  using assms by (auto simp: coherent_def drain_fields fun_eq_iff)

lemma write_back_empty: "n_dcache (write_back p m) p = None"
  by (cases "n_dcache m p") (simp_all add: write_back_def drop_line_def)

lemma touch_coherent:
  assumes "coherent (nios2_data m)"
  shows "hit (touch a m) a" "cached (nios2_data (touch a m)) = cached (nios2_data m)" "coherent (nios2_data (touch a m))"
proof -
  define m1 where "m1 = write_back (place a) m"
  have c1: "cached (nios2_data m1) = cached (nios2_data m)" "coherent (nios2_data m1)"
    using coherent_drain [OF assms] by (simp_all add: m1_def write_back_data)
  have empty: "\<not> held m1 k" if "k mod 128 = place a" for k using that by (simp add: held_def m1_def write_back_empty)
  then have none: "\<not> held m1 (line_of a)" by (simp add: place_def)
  have "nios2_data (put_line a False (n_ram m1) m1) = (nios2_data m1)
    \<lparr>cached := (\<lambda>x. if line_of x = line_of a then n_ram m1 x else cached (nios2_data m1) x),
     dirty := (dirty (nios2_data m1))(line_of a := False)\<rparr>"
    using empty by (intro put_line_data) blast
  also have "\<dots> = nios2_data m1"
    using not_held [OF none] by (intro caches_eq) (auto simp: fun_eq_iff data_fields(1))
  finally have put: "nios2_data (put_line a False (n_ram m1) m1) = nios2_data m1" .
  show "hit (touch a m) a" by (simp add: touch_def hit_def [of _ a] put_line_def Let_def)
  show "cached (nios2_data (touch a m)) = cached (nios2_data m)" "coherent (nios2_data (touch a m))"
    using assms c1 put by (auto simp: touch_def Let_def m1_def [symmetric])
qed

lemma same_line_word:
  assumes "aligned a" "i < 4"
  shows "line_of (a + of_nat i) = line_of a"
proof -
  obtain q where q: "unat a = 4 * q" using assms(1) by (auto simp: aligned_def)
  have "(4 * q + i) div 4 = q" using assms(2) by simp
  then have "(4 * q + i) div (4 * 8) = q div 8" by (simp only: div_mult2_eq)
  moreover have "(4 * q) div (4 * 8) = q div 8" by simp
  ultimately have "unat (a + of_nat i) div 32 = unat a div 32" using aligned_offset [OF assms] q by simp
  then show ?thesis by (simp only: line_of_def)
qed

lemma put_word_other_line:
  assumes "aligned a" "line_of x \<noteq> line_of a"
  shows "put_word a v mem x = mem x"
proof -
  have "x \<noteq> a + of_nat i" if "i < 4" for i using same_line_word [OF assms(1) that] assms(2) by auto
  from this [of 0] this [of 1] this [of 2] this [of 3] show ?thesis by (simp add: put_word_def)
qed

lemma store_coherent:
  assumes "aligned a" "unat a < 2 ^ 31" "coherent (nios2_data m)"
  shows "cached (nios2_data (nios2_store a v m)) = put_word a v (cached (nios2_data m))"
    "coherent (nios2_data (nios2_store a v m))"
proof -
  define m1 where "m1 = touch a m"
  note t = touch_coherent [OF assms(3), of a, folded m1_def]
  have "nios2_data (nios2_store a v m) = (nios2_data m1)
    \<lparr>cached := (\<lambda>x. if line_of x = line_of a then put_word a v (cached (nios2_data m1)) x else cached (nios2_data m1) x),
     dirty := (dirty (nios2_data m1))(line_of a := True)\<rparr>"
    using assms(2) t(1) held_unique
    by (simp add: nios2_store_def Let_def m1_def [symmetric]) (intro put_line_data, auto simp: hit_held place_def)
  then show "cached (nios2_data (nios2_store a v m)) = put_word a v (cached (nios2_data m))"
    "coherent (nios2_data (nios2_store a v m))"
    using t(3) put_word_other_line [OF assms(1)] by (auto simp: t(2) coherent_def intro!: ext)
qed

lemma flushi_found:
  "nios2_fetched (m\<lparr>n_icache := (n_icache m)(place a := None)\<rparr>) x =
    (if place x = place a then n_ram m x else nios2_fetched m x)"
  by (simp add: nios2_fetched_def found_def)

interpretation nios2: nios2_caches nios2_processor nios2_data nios2_fetched
proof
  fix a v :: u32 and m :: nios2 and x :: u32
  show "nios2_data (flushda nios2_processor a m) = drain {line_of a} (nios2_data m)"
    using drain_hit drain_miss by (simp add: nios2_processor_def write_back_data)
  show "nios2_data (flushd nios2_processor a m) = drain {l. l mod 128 = line_of a mod 128} (nios2_data m)"
    by (simp add: nios2_processor_def write_back_data line_place)
  show "nios2_data (initda nios2_processor a m) = discard {line_of a} (nios2_data m)"
    using drop_hit discard_miss by (simp add: nios2_processor_def)
  show "nios2_data (flushi nios2_processor a m) = nios2_data m"
    by (simp add: nios2_processor_def nios2_data_def)
  show "nios2_fetched (flushi nios2_processor a m) x =
      (if line_of x mod 128 = line_of a mod 128 then ram (nios2_data m) x else nios2_fetched m x)"
    by (simp add: nios2_processor_def flushi_found line_place data_fields(1))
  show "nios2_data (flushp nios2_processor m) = nios2_data m" "nios2_fetched (flushp nios2_processor m) = nios2_fetched m"
    by (simp_all add: nios2_processor_def)
  show "fst (load_word nios2_processor a m) = word_at (cached (nios2_data m)) a \<and>
      cached (nios2_data (snd (load_word nios2_processor a m))) = cached (nios2_data m) \<and>
      coherent (nios2_data (snd (load_word nios2_processor a m)))"
    if "unat a < 2 ^ 31" "coherent (nios2_data m)"
    using that touch_coherent [OF that(2), of a] by (simp add: nios2_processor_def nios2_load_def Let_def)
  show "cached (nios2_data (store_word nios2_processor a v m)) = put_word a v (cached (nios2_data m)) \<and>
      coherent (nios2_data (store_word nios2_processor a v m))"
    if "aligned a" "unat a < 2 ^ 31" "coherent (nios2_data m)"
    using store_coherent [OF that] by (simp add: nios2_processor_def)
  show "load_word nios2_processor a m = (word_at (ram (nios2_data m)) (a AND NOT BYPASS_DCACHE_MASK), m)"
    if "2 ^ 31 \<le> unat a"
    using that by (simp add: nios2_processor_def nios2_load_def data_fields(1))
qed

section \<open>The caches of the code\<close>

text \<open>
  C40. Flushing the data cache. For a region that ends a line before the bypass addresses, \<open>alt_dcache_flush\<close> returns and has
  written back and removed exactly the lines of \<open>region_lines\<close>, which include the whole region;
  \<open>alt_dcache_flush_no_writeback\<close> has removed the same lines and lost what was new in them; \<open>alt_dcache_flush_all\<close> has
  written back everything.
\<close>
theorem dcache_flushes:
  assumes "nios2_caches P data fetched" and "unat start + unat len \<le> 2 ^ 31 - 32"
  defines "L \<equiv> region_lines (unat start) (unat len)"
  shows "(\<exists>m'. alt_dcache_flush P start len m = Some m' \<and> data m' = drain L (data m)) \<and>
    (\<exists>m'. alt_dcache_flush_no_writeback P start len m = Some m' \<and> data m' = discard L (data m)) \<and>
    (\<exists>m'. alt_dcache_flush_all P m = Some m' \<and> data m' = drain UNIV (data m)) \<and>
    (\<forall>x. unat start \<le> unat x \<and> unat x < unat start + unat len \<longrightarrow> line_of x \<in> L)"
proof (intro conjI)
  show "\<exists>m'. alt_dcache_flush P start len m = Some m' \<and> data m' = drain L (data m)"
    unfolding L_def by (rule nios2_caches.dcache_flush [OF assms(1,2)])
  show "\<exists>m'. alt_dcache_flush_no_writeback P start len m = Some m' \<and> data m' = discard L (data m)"
    unfolding L_def by (rule nios2_caches.dcache_discard [OF assms(1,2)])
  show "\<exists>m'. alt_dcache_flush_all P m = Some m' \<and> data m' = drain UNIV (data m)"
    by (rule nios2_caches.dcache_flush_all [OF assms(1)])
  show "\<forall>x. unat start \<le> unat x \<and> unat x < unat start + unat len \<longrightarrow> line_of x \<in> L"
    unfolding L_def line_of_def by (blast intro: region_covered)
qed

definition example_store :: nios2 where
  "example_store = nios2_store 32 7 (nios2_reset (\<lambda>_. 0))"

lemma reset_coherent: "coherent (nios2_data (nios2_reset mem))"
  by (simp add: nios2_reset_def coherent_def data_fields found_def)

lemma example_data:
  "cached (nios2_data example_store) 32 = 7" "coherent (nios2_data example_store)" "ram (nios2_data example_store) 32 = 0"
  using store_coherent [where a = 32 and v = 7, OF _ _ reset_coherent, of "\<lambda>_. 0"]
  by (simp_all add: example_store_def aligned_def put_word_def)
    (simp add: nios2_store_def touch_def hit_def nios2_reset_def write_back_def put_line_def data_fields Let_def)

theorem dcache_flushes_witness:
  "\<exists>m'. alt_dcache_flush nios2_processor 33 4 example_store = Some m' \<and> ram (nios2_data m') 32 = 7"
proof -
  obtain m' where "alt_dcache_flush nios2_processor 33 4 example_store = Some m'"
    "nios2_data m' = drain (region_lines 33 4) (nios2_data example_store)"
    using dcache_flushes [OF nios2.nios2_caches_axioms, of 33 "4 :: u32" example_store] by auto
  moreover have "line_of 32 \<in> region_lines 33 4" by (simp add: line_of_def region_lines_def line_count_def)
  ultimately show ?thesis
    using example_data by (intro exI [of _ m']) (auto simp: drain_fields coherent_def)
qed

text \<open>
  The extra line of an unaligned region may lie behind it. There, \<open>alt_dcache_flush_no_writeback\<close> loses what
  the program has written: the region is the bytes 1 to 4, the lost store went to byte 32.
\<close>

theorem discard_behind_region:
  "cached (nios2_data example_store) 32 = 7 \<and>
   (\<exists>m'. alt_dcache_flush_no_writeback nios2_processor 1 4 example_store = Some m' \<and> cached (nios2_data m') 32 = 0)"
proof -
  have "line_of 32 \<in> region_lines 1 4" by (simp add: line_of_def region_lines_def line_count_def)
  then show ?thesis
    using example_data nios2.dcache_discard [of 1 "4 :: u32" example_store] by (auto simp: discard_def)
qed

text \<open>
  Memory past the cache. \<open>alt_remap_uncached\<close> gives an address from which \<open>alt_remap_cached\<close> gets the pointer back, it
  changes nothing the program can read, and every word of the block reads past the cache as it was written through it, if
  nothing else has written to memory.
\<close>
theorem uncached_remap:
  assumes "nios2_caches P data fetched" and "unat ptr + unat len \<le> 2 ^ 31 - 32" and "coherent (data m)"
  shows "\<exists>u m'. alt_remap_uncached P ptr len m = Some (u, m') \<and> alt_remap_cached u len = ptr \<and>
    cached (data m') = cached (data m) \<and>
    (\<forall>a. aligned a \<and> unat ptr \<le> unat a \<and> unat a + 3 < unat ptr + unat len \<longrightarrow>
      fst (load_word P (a OR BYPASS_DCACHE_MASK) m') = word_at (cached (data m)) a)"
  using nios2_caches.remap_uncached [OF assms] by auto

theorem uncached_remap_witness:
  "\<exists>u m'. alt_remap_uncached nios2_processor 32 4 example_store = Some (u, m') \<and> alt_remap_cached u 4 = 32 \<and>
    fst (nios2_load (32 OR BYPASS_DCACHE_MASK) m') = word_at (cached (nios2_data example_store)) 32"
  using uncached_remap [OF nios2.nios2_caches_axioms _ example_data(2), of 32 4]
  by (fastforce simp: aligned_def nios2_processor_def)

end
