(* ===== verification/Hal_Load.thy ===== *)
theory Hal_Load
  imports Hal_Cache_Sim
begin

text \<open>
  What runs before \<open>main\<close> (\<open>HAL/src/alt_load.c\<close>, \<open>HAL/inc/sys/alt_load.h\<close>, \<open>alt_do_ctors.c\<close>, \<open>alt_do_dtors.c\<close>): the
  copies of the sections from flash to RAM, with the caches put in order after them, and the tables of constructors and
  destructors. The symbols of the linker are parameters.
\<close>

section \<open>The code\<close>

record load_symbols =
  flash_rwdata_start :: u32
  ram_rwdata_start :: u32
  ram_rwdata_end :: u32
  flash_exceptions_start :: u32
  ram_exceptions_start :: u32
  ram_exceptions_end :: u32
  flash_rodata_start :: u32
  ram_rodata_start :: u32
  ram_rodata_end :: u32

partial_function (option) load_loop :: "'m processor \<Rightarrow> u32 \<Rightarrow> u32 \<Rightarrow> u32 \<Rightarrow> 'm \<Rightarrow> 'm option" where
  "load_loop P from to end m =
    (if to \<noteq> end
     then (let (v, m) = load_word P from m in load_loop P (from + 4) (to + 4) end (store_word P to v m))
     else Some m)"

declare load_loop.simps [code]

definition alt_load_section :: "'m processor \<Rightarrow> u32 \<Rightarrow> u32 \<Rightarrow> u32 \<Rightarrow> 'm \<Rightarrow> 'm option" where
  "alt_load_section P from to end m = (if to \<noteq> from then load_loop P from to end m else Some m)"

definition alt_load :: "'m processor \<Rightarrow> load_symbols \<Rightarrow> 'm \<Rightarrow> 'm option" where
  "alt_load P L m =
    do {
      m \<leftarrow> alt_load_section P (flash_rwdata_start L) (ram_rwdata_start L) (ram_rwdata_end L) m;
      m \<leftarrow> alt_load_section P (flash_exceptions_start L) (ram_exceptions_start L) (ram_exceptions_end L) m;
      m \<leftarrow> alt_load_section P (flash_rodata_start L) (ram_rodata_start L) (ram_rodata_end L) m;
      m \<leftarrow> alt_dcache_flush_all P m;
      alt_icache_flush_all P m
    }"

text \<open>The tables are walked from their ends. A constructor that does not return is \<open>None\<close>.\<close>

primrec table_loop :: "('s \<Rightarrow> 's option) list \<Rightarrow> nat \<Rightarrow> 's \<Rightarrow> 's option" where
  "table_loop T 0 s = Some s"
| "table_loop T (Suc i) s = do { s \<leftarrow> (T ! i) s; table_loop T i s }"

definition do_ctors :: "('s \<Rightarrow> 's option) list \<Rightarrow> 's \<Rightarrow> 's option" where
  "do_ctors CTOR_LIST s = table_loop CTOR_LIST (length CTOR_LIST) s"

definition do_dtors :: "('s \<Rightarrow> 's option) list \<Rightarrow> 's \<Rightarrow> 's option" where
  "do_dtors DTOR_LIST s = table_loop DTOR_LIST (length DTOR_LIST) s"

section \<open>Copies\<close>

lemma bytes_of_loaded:
  "ucast (word_at m b) = m b" "ucast (drop_bit 8 (word_at m b)) = m (b + 1)"
  "ucast (drop_bit 16 (word_at m b)) = m (b + 2)" "ucast (drop_bit 24 (word_at m b)) = m (b + 3)"
proof -
  have high: "8 \<le> k \<Longrightarrow> \<not> bit v k" for v :: u8 and k using bit_imp_le_length [of v k] by auto
  show "ucast (word_at m b) = m b" "ucast (drop_bit 8 (word_at m b)) = m (b + 1)"
    "ucast (drop_bit 16 (word_at m b)) = m (b + 2)" "ucast (drop_bit 24 (word_at m b)) = m (b + 3)"
    by (auto simp: word_at_def bit_simps high intro!: bit_word_eqI)
qed

lemma put_word_copy:
  assumes "aligned a"
  shows "put_word a (word_at m b) m x = (if unat a \<le> unat x \<and> unat x < unat a + 4 then m (b + (x - a)) else m x)"
proof (cases "unat a \<le> unat x \<and> unat x < unat a + 4")
  case True
  define i where "i = unat x - unat a"
  have i: "i < 4" "unat x = unat a + i" using True by (auto simp: i_def)
  then have x: "x = a + of_nat i" using aligned_offset [OF assms i(1)] by (simp add: word_unat_eq_iff)
  consider "i = 0" | "i = 1" | "i = 2" | "i = 3" using i(1) by linarith
  then show ?thesis using True by cases (simp_all add: x put_word_def bytes_of_loaded)
next
  case False
  have "x \<noteq> a + of_nat i" if "i < 4" for i using False aligned_offset [OF assms that] that by auto
  from this [of 0] this [of 1] this [of 2] this [of 3] have "put_word a (word_at m b) m x = m x"
    by (simp add: put_word_def)
  then show ?thesis by (simp only: if_not_P [OF False])
qed

text \<open>\<open>copied s mem\<close> is the memory with the section \<open>s = (from, to, end)\<close> copied.\<close>

type_synonym load_section = "u32 \<times> u32 \<times> u32"

definition in_ram :: "load_section \<Rightarrow> u32 \<Rightarrow> bool" where
  "in_ram s x = (case s of (from, to, end) \<Rightarrow> unat to \<le> unat x \<and> unat x < unat end)"

definition in_flash :: "load_section \<Rightarrow> u32 \<Rightarrow> bool" where
  "in_flash s x = (case s of (from, to, end) \<Rightarrow> unat from \<le> unat x \<and> unat x < unat from + (unat end - unat to))"

definition copied :: "load_section \<Rightarrow> memory \<Rightarrow> memory" where
  "copied s mem x = (case s of (from, to, end) \<Rightarrow> if in_ram s x then mem (from + (x - to)) else mem x)"

definition section_ok :: "load_section \<Rightarrow> bool" where
  "section_ok s = (case s of (from, to, end) \<Rightarrow>
     aligned from \<and> aligned to \<and> aligned end \<and> unat to \<le> unat end \<and> unat end < 2 ^ 31 \<and>
     unat from + (unat end - unat to) < 2 ^ 31)"

lemma copied_in_place: "copied (a, a, end) mem = mem"
  by (simp add: copied_def fun_eq_iff)

lemma copied_other: "\<not> in_ram s x \<Longrightarrow> copied s mem x = mem x"
  by (cases s) (simp add: copied_def)

lemma source_address:
  assumes "section_ok (from, to, end)" "in_ram (from, to, end) x"
  shows "unat (from + (x - to)) = unat from + (unat x - unat to)" "in_flash (from, to, end) (from + (x - to))"
proof -
  have "to \<le> x" using assms(2) by (simp add: in_ram_def word_le_nat_alt)
  then have d: "unat (x - to) = unat x - unat to" by (rule unat_sub)
  then show "unat (from + (x - to)) = unat from + (unat x - unat to)"
  proof -
    have a: "unat to \<le> unat x" "unat x < unat end" "unat from + (unat end - unat to) < 2 ^ 31"
      using assms by (simp_all only: section_ok_def in_ram_def prod.case)
    have room: "j < k \<Longrightarrow> f + k < 2 ^ 31 \<Longrightarrow> f + j < (2 ^ 32 :: nat)" for f j k by simp
    have "unat from + unat (x - to) < 2 ^ 32" unfolding d by (rule room [OF diff_less_mono [OF a(2,1)] a(3)])
    then have "unat (from + of_nat (unat (x - to))) = unat from + unat (x - to)" by (rule unat_add_small)
    moreover have "of_nat (unat (x - to)) = x - to" by simp
    ultimately show ?thesis by (metis d)
  qed
  then show "in_flash (from, to, end) (from + (x - to))"
    using assms by (auto simp: in_flash_def in_ram_def)
qed

text \<open>One word more of a section.\<close>

lemma aligned_next:
  assumes "aligned a" "unat a + 4 < 2 ^ 32"
  shows "aligned (a + 4)" "unat (a + 4) = unat a + 4"
proof -
  show "unat (a + 4) = unat a + 4" using unat_add_small [of a 4] assms(2) by simp
  then show "aligned (a + 4)" using assms(1) by (simp add: aligned_def)
qed

lemma section_step:
  assumes "section_ok (from, to, end)" "to \<noteq> end"
  shows "section_ok (from + 4, to + 4, end)" "unat (from + 4) = unat from + 4" "unat (to + 4) = unat to + 4"
    "unat to + 4 \<le> unat end"
proof -
  have "unat to \<noteq> unat end" using assms(2) by (simp add: word_unat_eq_iff)
  moreover have "4 dvd unat to" "4 dvd unat end" "unat to \<le> unat end" using assms(1) by (simp_all add: section_ok_def aligned_def)
  ultimately show le: "unat to + 4 \<le> unat end" by presburger
  have f: "aligned (from + 4)" "unat (from + 4) = unat from + 4" and t: "aligned (to + 4)" "unat (to + 4) = unat to + 4"
    using assms(1) le by (auto simp: section_ok_def intro!: aligned_next)
  then show "section_ok (from + 4, to + 4, end)" "unat (from + 4) = unat from + 4" "unat (to + 4) = unat to + 4"
    using assms(1) le by (auto simp: section_ok_def)
qed

lemma copied_step:
  assumes "section_ok (from, to, end)" "to \<noteq> end" "\<And>x. \<not> (in_flash (from, to, end) x \<and> in_ram (from, to, end) x)"
  shows "copied (from + 4, to + 4, end) (put_word to (word_at mem from) mem) = copied (from, to, end) mem"
proof
  fix x
  note st = section_step [OF assms(1,2)]
  have al: "aligned to" using assms(1) by (simp add: section_ok_def)
  let ?mem = "put_word to (word_at mem from) mem"
  show "copied (from + 4, to + 4, end) ?mem x = copied (from, to, end) mem x"
  proof (cases "in_ram (from + 4, to + 4, end) x")
    case True
    then have in_ram: "in_ram (from, to, end) x" using st by (auto simp: in_ram_def)
    note src = source_address [OF assms(1) in_ram]
    have "\<not> in_ram (from, to, end) (from + (x - to))" using assms(3) src(2) by blast
    then have "\<not> (unat to \<le> unat (from + (x - to)) \<and> unat (from + (x - to)) < unat to + 4)"
      using st(4) by (auto simp: in_ram_def)
    then have "?mem (from + (x - to)) = mem (from + (x - to))" by (simp only: put_word_copy [OF al] if_False)
    moreover have "from + 4 + (x - (to + 4)) = from + (x - to)" by simp
    ultimately show ?thesis using True in_ram by (simp add: copied_def)
  next
    case False
    then have "copied (from + 4, to + 4, end) ?mem x = ?mem x" by (rule copied_other)
    moreover have "in_ram (from, to, end) x \<longleftrightarrow> unat to \<le> unat x \<and> unat x < unat to + 4"
      using False st(3,4) by (auto simp: in_ram_def)
    ultimately show ?thesis by (simp add: put_word_copy [OF al] copied_def)
  qed
qed

definition own_source :: "load_section \<Rightarrow> bool" where
  "own_source s \<longleftrightarrow> fst s = fst (snd s) \<or> (\<forall>x. \<not> (in_flash s x \<and> in_ram s x))"

context nios2_caches
begin

lemma load_loop_copies:
  assumes "section_ok (from, to, end)" "\<And>x. \<not> (in_flash (from, to, end) x \<and> in_ram (from, to, end) x)"
    and "coherent (data m)"
  shows "\<exists>m'. load_loop P from to end m = Some m' \<and> coherent (data m') \<and> cached (data m') = copied (from, to, end) (cached (data m))"
  using assms
proof (induction "unat end - unat to" arbitrary: "from" to m rule: less_induct)
  case less
  show ?case
  proof (cases "to = end")
    case True
    then show ?thesis
      using less.prems(3) by (subst load_loop.simps) (auto simp: copied_def in_ram_def intro!: ext)
  next
    case False
    note st = section_step [OF less.prems(1) False]
    have addr: "aligned from" "aligned to" "unat from < 2 ^ 31" "unat to < 2 ^ 31"
      using less.prems(1) by (auto simp: section_ok_def)
    obtain v m1 where v: "load_word P from m = (v, m1)" by fastforce
    have m1: "v = word_at (cached (data m)) from" "cached (data m1) = cached (data m)" "coherent (data m1)"
      using load_cached [OF addr(1,3) less.prems(3)] v by simp_all
    define m2 where "m2 = store_word P to v m1"
    have m2: "cached (data m2) = put_word to v (cached (data m))" "coherent (data m2)"
      using store_cached [OF addr(2,4) m1(3), of v] m1(2) by (simp_all add: m2_def)
    have "\<not> (in_flash (from + 4, to + 4, end) x \<and> in_ram (from + 4, to + 4, end) x)" for x
      using less.prems(2) [of x] st by (auto simp: in_flash_def in_ram_def)
    moreover have smaller: "unat end - unat (to + 4) < unat end - unat to" using st(3,4) by linarith
    ultimately obtain m' where m': "load_loop P (from + 4) (to + 4) end m2 = Some m'" "coherent (data m')"
      "cached (data m') = copied (from + 4, to + 4, end) (cached (data m2))"
      using less.hyps [of "to + 4" "from + 4" m2] smaller st(1) m2(2) by blast
    then have "cached (data m') = copied (from, to, end) (cached (data m))"
      using m2(1) m1(1) copied_step [OF less.prems(1) False less.prems(2)] by simp
    then show ?thesis using False v m' by (subst load_loop.simps) (simp add: m2_def)
  qed
qed

lemma load_section_copies:
  assumes "section_ok (from, to, end)" "own_source (from, to, end)" "coherent (data m)"
  shows "\<exists>m'. alt_load_section P from to end m = Some m' \<and> coherent (data m') \<and>
    cached (data m') = copied (from, to, end) (cached (data m))"
  using assms load_loop_copies [OF assms(1) _ assms(3)]
  by (cases "from = to") (auto simp: alt_load_section_def own_source_def copied_in_place)

end

section \<open>Starting from flash\<close>

definition sections :: "load_symbols \<Rightarrow> load_section list" where
  "sections L =
    [(flash_rwdata_start L, ram_rwdata_start L, ram_rwdata_end L),
     (flash_exceptions_start L, ram_exceptions_start L, ram_exceptions_end L),
     (flash_rodata_start L, ram_rodata_start L, ram_rodata_end L)]"

text \<open>
  What the linker script promises: words, in the addresses that are cached; a section that is copied over
  nothing else that matters.
\<close>

definition layout_ok :: "load_symbols \<Rightarrow> bool" where
  "layout_ok L \<longleftrightarrow> (\<forall>s \<in> set (sections L). section_ok s \<and> own_source s) \<and>
    (\<forall>i < 3. \<forall>j < 3. i \<noteq> j \<longrightarrow>
      (\<forall>x. \<not> (in_ram (sections L ! j) x \<and> (in_flash (sections L ! i) x \<or> in_ram (sections L ! i) x))))"

definition load_image :: "load_symbols \<Rightarrow> memory \<Rightarrow> memory" where
  "load_image L mem = fold copied (sections L) mem"

lemma load_image_at:
  assumes "layout_ok L"
  shows "(from, to, end) \<in> set (sections L) \<Longrightarrow> in_ram (from, to, end) x \<Longrightarrow> load_image L mem x = mem (from + (x - to))"
    and "(\<And>s. s \<in> set (sections L) \<Longrightarrow> \<not> in_ram s x) \<Longrightarrow> load_image L mem x = mem x"
proof -
  define s0 s1 s2 where "s0 = sections L ! 0" "s1 = sections L ! 1" "s2 = sections L ! 2"
  have list: "sections L = [s0, s1, s2]" by (simp add: s0_s1_s2_def sections_def)
  then have ok: "section_ok s" "own_source s" if "s \<in> {s0, s1, s2}" for s
    using assms that unfolding layout_ok_def by auto
  have dis: "\<not> in_ram (sections L ! j) x" if "in_flash (sections L ! i) x \<or> in_ram (sections L ! i) x" "i < 3" "j < 3" "i \<noteq> j" for i j x
    using assms that unfolding layout_ok_def by blast
  note d = dis [of 0 _ 1] dis [of 0 _ 2] dis [of 1 _ 0] dis [of 1 _ 2] dis [of 2 _ 0] dis [of 2 _ 1]
  have d: "in_flash s0 x \<or> in_ram s0 x \<Longrightarrow> \<not> in_ram s1 x \<and> \<not> in_ram s2 x"
    "in_flash s1 x \<or> in_ram s1 x \<Longrightarrow> \<not> in_ram s0 x \<and> \<not> in_ram s2 x"
    "in_flash s2 x \<or> in_ram s2 x \<Longrightarrow> \<not> in_ram s0 x \<and> \<not> in_ram s1 x" for x
    using d [of x] by (simp_all add: s0_s1_s2_def)
  have image: "load_image L mem = copied s2 (copied s1 (copied s0 mem))" by (simp add: load_image_def list)
  show "load_image L mem x = mem x" if "\<And>s. s \<in> set (sections L) \<Longrightarrow> \<not> in_ram s x"
    using that by (simp add: image list copied_other)
  show "load_image L mem x = mem (from + (x - to))" if s: "(from, to, end) \<in> set (sections L)" "in_ram (from, to, end) x"
  proof -
    have ok': "section_ok (from, to, end)" using s(1) ok(1) list by simp
    have src: "in_flash (from, to, end) (from + (x - to))" using source_address(2) [OF ok' s(2)] .
    have cp: "copied (from, to, end) mem' x = mem' (from + (x - to))" for mem' using s(2) by (simp add: copied_def)
    consider "(from, to, end) = s0" | "(from, to, end) = s1" | "(from, to, end) = s2" using s(1) list by auto
    then show ?thesis
    proof cases
      case 1
      then have "\<not> in_ram s1 x" "\<not> in_ram s2 x" using d(1) s(2) by metis+
      then show ?thesis using cp [unfolded 1] by (simp add: image copied_other)
    next
      case 2
      then have "\<not> in_ram s2 x" "\<not> in_ram s0 (from + (x - to))" using d(2) s(2) src by metis+
      then show ?thesis using cp [unfolded 2] by (simp add: image copied_other)
    next
      case 3
      then have "\<not> in_ram s0 (from + (x - to))" "\<not> in_ram s1 (from + (x - to))" using d(3) src by metis+
      then show ?thesis using cp [unfolded 3] by (simp add: image copied_other)
    qed
  qed
qed

context nios2_caches
begin

lemma load_returns:
  assumes "layout_ok L" "coherent (data m)"
  shows "\<exists>m'. alt_load P L m = Some m' \<and> ram (data m') = load_image L (cached (data m)) \<and>
    cached (data m') = ram (data m') \<and> fetched m' = ram (data m')"
proof -
  have ok: "section_ok s \<and> own_source s" if "s \<in> set (sections L)" for s using assms(1) that by (simp add: layout_ok_def)
  define s0 s1 s2 where "s0 = (flash_rwdata_start L, ram_rwdata_start L, ram_rwdata_end L)"
    "s1 = (flash_exceptions_start L, ram_exceptions_start L, ram_exceptions_end L)"
    "s2 = (flash_rodata_start L, ram_rodata_start L, ram_rodata_end L)"
  note s = s0_s1_s2_def
  have list: "sections L = [s0, s1, s2]" by (simp add: sections_def s)
  have ok: "section_ok s0" "own_source s0" "section_ok s1" "own_source s1" "section_ok s2" "own_source s2"
    using ok by (simp_all add: list)
  obtain m1 where m1: "alt_load_section P (flash_rwdata_start L) (ram_rwdata_start L) (ram_rwdata_end L) m = Some m1"
    "coherent (data m1)" "cached (data m1) = copied s0 (cached (data m))"
    using load_section_copies [OF ok(1,2) [unfolded s] assms(2)] unfolding s by blast
  obtain m2 where m2: "alt_load_section P (flash_exceptions_start L) (ram_exceptions_start L) (ram_exceptions_end L) m1 = Some m2"
    "coherent (data m2)" "cached (data m2) = copied s1 (cached (data m1))"
    using load_section_copies [OF ok(3,4) [unfolded s] m1(2)] unfolding s by blast
  obtain m3 where m3: "alt_load_section P (flash_rodata_start L) (ram_rodata_start L) (ram_rodata_end L) m2 = Some m3"
    "coherent (data m3)" "cached (data m3) = copied s2 (cached (data m2))"
    using load_section_copies [OF ok(5,6) [unfolded s] m2(2)] unfolding s by blast
  obtain m4 where m4: "alt_dcache_flush_all P m3 = Some m4" "data m4 = drain UNIV (data m3)"
    using dcache_flush_all by blast
  obtain m5 where m5: "alt_icache_flush_all P m4 = Some m5" "data m5 = data m4" "fetched m5 = ram (data m4)"
    using icache_flush_all by blast
  have "cached (data m3) = load_image L (cached (data m))"
    using m1(3) m2(3) m3(3) by (simp add: load_image_def list)
  then show ?thesis
    using m1(1) m2(1) m3(1) m4 m5 drain_all [of UNIV, OF _ m3(2)] by (simp add: alt_load_def)
qed

end

text \<open>
  C39. Starting from flash. With a layout as the linker makes it and caches that agree with memory, \<open>alt_load\<close> returns; every
  byte of the three sections is in RAM what it was in flash, for loads, for devices that read memory, and for the instruction
  fetch; all other bytes are unchanged.
\<close>
theorem load_runs:
  assumes "nios2_caches P data fetched" and "layout_ok L" and "coherent (data m)"
  shows "\<exists>m'. alt_load P L m = Some m' \<and> cached (data m') = ram (data m') \<and> fetched m' = ram (data m') \<and>
    (\<forall>(from, to, end) \<in> set (sections L). \<forall>x. unat to \<le> unat x \<and> unat x < unat end \<longrightarrow>
      ram (data m') x = cached (data m) (from + (x - to))) \<and>
    (\<forall>x. (\<forall>(from, to, end) \<in> set (sections L). \<not> (unat to \<le> unat x \<and> unat x < unat end)) \<longrightarrow>
      ram (data m') x = cached (data m) x)"
proof -
  obtain m' where m': "alt_load P L m = Some m'" "ram (data m') = load_image L (cached (data m))"
    "cached (data m') = ram (data m')" "fetched m' = ram (data m')"
    using nios2_caches.load_returns [OF assms] by blast
  note image = load_image_at [OF assms(2)]
  show ?thesis
  proof (intro exI [of _ m'] conjI ballI allI impI m'(1,3,4))
    fix s assume "s \<in> set (sections L)"
    then show "case s of (from, to, end) \<Rightarrow> \<forall>x. unat to \<le> unat x \<and> unat x < unat end \<longrightarrow>
        ram (data m') x = cached (data m) (from + (x - to))"
      by (clarsimp simp: m'(2)) (rule image(1); simp add: in_ram_def)
  next
    fix x :: u32 assume "\<forall>(from, to, end) \<in> set (sections L). \<not> (unat to \<le> unat x \<and> unat x < unat end)"
    then have "\<not> in_ram s x" if "s \<in> set (sections L)" for s using that by (fastforce simp: in_ram_def)
    then show "ram (data m') x = cached (data m) x" using image(2) by (simp add: m'(2))
  qed
qed

definition example_symbols :: load_symbols where
  "example_symbols =
    \<lparr>flash_rwdata_start = 0x1000, ram_rwdata_start = 0x8000, ram_rwdata_end = 0x8100,
     flash_exceptions_start = 0x1100, ram_exceptions_start = 0x20, ram_exceptions_end = 0x40,
     flash_rodata_start = 0x9000, ram_rodata_start = 0x9000, ram_rodata_end = 0x9800\<rparr>"

lemma example_layout: "layout_ok example_symbols"
proof -
  have three: "i = 0 \<or> i = 1 \<or> i = 2" if "i < 3" for i :: nat using that by linarith
  show ?thesis
    unfolding layout_ok_def
    by (intro conjI allI impI; (drule three)?; (drule three)?)
      (auto simp: example_symbols_def sections_def section_ok_def own_source_def aligned_def in_flash_def in_ram_def)
qed

theorem load_runs_witness:
  "\<exists>m'. alt_load nios2_processor example_symbols (nios2_reset (\<lambda>a. ucast (a div 4))) = Some m' \<and>
    nios2_fetched m' 0x24 = 65"
proof -
  let ?m = "nios2_reset (\<lambda>a. ucast (a div 4))"
  obtain m' where m': "alt_load nios2_processor example_symbols ?m = Some m'" "nios2_fetched m' = ram (nios2_data m')"
    "\<forall>(from, to, end) \<in> set (sections example_symbols). \<forall>x. unat to \<le> unat x \<and> unat x < unat end \<longrightarrow>
      ram (nios2_data m') x = cached (nios2_data ?m) (from + (x - to))"
    using load_runs [OF nios2.nios2_caches_axioms example_layout reset_coherent, of "\<lambda>a. ucast (a div 4)"] by blast
  have "(0x1100, 0x20, 0x40) \<in> set (sections example_symbols)" by (simp add: sections_def example_symbols_def)
  then have "ram (nios2_data m') 0x24 = cached (nios2_data ?m) (0x1100 + (0x24 - 0x20))"
    using m'(3) by fastforce
  then show ?thesis using m' by (simp add: nios2_reset_def data_fields found_def)
qed

section \<open>Constructors\<close>

text \<open>The constructors run from the last to the first, and so do the destructors.\<close>

lemma table_loop_append: "i \<le> length T \<Longrightarrow> table_loop (T @ U) i s = table_loop T i s"
  by (induction i arbitrary: s) (simp_all add: nth_append)

lemma tables_backwards:
  "do_ctors [] s = Some s" "do_ctors (T @ [f]) s = do { s \<leftarrow> f s; do_ctors T s }"
  "do_dtors [] s = Some s" "do_dtors (T @ [f]) s = do { s \<leftarrow> f s; do_dtors T s }"
  by (auto simp: do_ctors_def do_dtors_def table_loop_append)

end
