(* ===== verification/Flash_Wire.thy ===== *)
theory Flash_Wire
  imports Flash_Chip Spi_Core
begin

text \<open>
  The configuration flash behind the SPI core: the chip of \<open>Flash_Chip\<close> answers byte by byte and
  acts when it is deselected, so that the flash driver, \<open>alt_avalon_spi_command\<close>, the core and the
  chip run together. Every transaction of the driver refines the command of \<open>flash_cmd\<close>; the
  interface \<open>epcs_chip\<close> holds over the wire, and with it what writing and reading promise.
\<close>

unbundle bit_operations_syntax

section \<open>The chip as a slave\<close>

text \<open>How many bytes a command takes before the chip answers; 0 when it never does.\<close>

definition flash_header :: "flash_chip \<Rightarrow> u8 \<Rightarrow> nat" where
  "flash_header c code =
    (if code = epcs_rdsr \<or> code = epcs_rdid then 1
     else if code = epcs_res then 4
     else if code = epcs_read then (if ffour c then 5 else 4)
     else 0)"

text \<open>The byte shifted out after the bytes \<open>sent\<close> since the chip was selected.\<close>

definition flash_answer :: "nat \<Rightarrow> nat \<Rightarrow> u8 \<Rightarrow> u8 list \<Rightarrow> flash_chip \<Rightarrow> u8 list \<Rightarrow> u8" where
  "flash_answer blk delay sig ident c sent =
    (case sent of
       [] \<Rightarrow> 0
     | code # _ \<Rightarrow>
         let k = flash_header c code
         in if k = 0 \<or> length sent < k then 0
            else fst (flash_exec blk delay sig ident (take k sent) (Suc (length sent - k)) c) ! (length sent - k))"

definition flash_slave :: "nat \<Rightarrow> nat \<Rightarrow> u8 \<Rightarrow> u8 list \<Rightarrow> flash_chip spi_slave" where
  "flash_slave blk delay sig ident =
    \<lparr>exchange = (\<lambda>b c. (flash_answer blk delay sig ident c (fopen c), c\<lparr>fopen := fopen c @ [b]\<rparr>)),
     deselect = (\<lambda>c. snd (flash_exec blk delay sig ident (fopen c) 0 (c\<lparr>fopen := []\<rparr>)))\<rparr>"

lemma flash_slave_simps [simp]:
  "exchange (flash_slave blk delay sig ident) b c =
    (flash_answer blk delay sig ident c (fopen c), c\<lparr>fopen := fopen c @ [b]\<rparr>)"
  "deselect (flash_slave blk delay sig ident) c = snd (flash_exec blk delay sig ident (fopen c) 0 (c\<lparr>fopen := []\<rparr>))"
  by (simp_all add: flash_slave_def)

lemma fopen_irrelevant [simp]:
  "fst (flash_exec blk delay sig ident tx n (c\<lparr>fopen := bs\<rparr>)) = fst (flash_exec blk delay sig ident tx n c)"
  "flash_header (c\<lparr>fopen := bs\<rparr>) code = flash_header c code"
  by (cases tx; simp add: flash_exec_def Let_def flash_header_def)+

lemma flash_answer_fopen [simp]:
  "flash_answer blk delay sig ident (c\<lparr>fopen := bs\<rparr>) sent = flash_answer blk delay sig ident c sent"
  by (cases sent) (simp_all add: flash_answer_def Let_def)

text \<open>While it is selected the chip collects the bytes and answers each.\<close>

lemma sends_flash:
  "sends (flash_slave blk delay sig ident) True bs c =
    (map (\<lambda>i. flash_answer blk delay sig ident c (fopen c @ take i bs)) [0..<length bs], c\<lparr>fopen := fopen c @ bs\<rparr>)"
proof (induction bs arbitrary: c)
  case (Cons b bs)
  then show ?case
    using Cons.IH [of "c\<lparr>fopen := fopen c @ [b]\<rparr>"] by (simp add: after_def Let_def map_upt_Suc del: upt_Suc)
qed simp

section \<open>Every transaction is a command of the chip\<close>

text \<open>The answers to the zeros are the bytes the command reads, and the zeros change nothing.\<close>

lemma exec_nth:
  "i < n \<Longrightarrow> fst (flash_exec blk delay sig ident tx (Suc i) c) ! i = fst (flash_exec blk delay sig ident tx n c) ! i"
  by (cases tx) (simp_all add: flash_exec_def Let_def nth_append del: upt_Suc replicate_Suc)

lemma length_exec: "length (fst (flash_exec blk delay sig ident tx n c)) = n"
  by (cases tx) (auto simp: flash_exec_def Let_def min_def)

lemma answer_read:
  assumes "tx \<noteq> []" "length tx = flash_header c (hd tx)"
  shows "map (\<lambda>i. flash_answer blk delay sig ident c (tx @ replicate i 0)) [0..<n] =
    fst (flash_exec blk delay sig ident tx n c)"
proof (rule nth_equalityI)
  obtain code args where tx: "tx = code # args" using assms(1) by (cases tx) auto
  then have "flash_header c code = Suc (length args)" using assms(2) by simp
  then have one: "flash_answer blk delay sig ident c (tx @ replicate i 0) =
      fst (flash_exec blk delay sig ident tx (Suc i) c) ! i" for i
    by (simp add: flash_answer_def tx)
  fix i assume "i < length (map (\<lambda>i. flash_answer blk delay sig ident c (tx @ replicate i 0)) [0..<n])"
  then have "i < n" by simp
  then show "map (\<lambda>i. flash_answer blk delay sig ident c (tx @ replicate i 0)) [0..<n] ! i =
      fst (flash_exec blk delay sig ident tx n c) ! i" using exec_nth one by simp
qed (simp add: length_exec)

lemma effect_read:
  assumes "tx \<noteq> []" "n = 0 \<or> length tx = flash_header c (hd tx)"
  shows "snd (flash_exec blk delay sig ident (tx @ replicate n 0) 0 c) = snd (flash_exec blk delay sig ident tx n c)"
proof (cases tx)
  case (Cons code args)
  then have "n = 0 \<or> code = epcs_rdsr \<or> code = epcs_rdid \<or> code = epcs_res \<or> code = epcs_read"
    using assms by (auto simp: flash_header_def split: if_splits)
  then show ?thesis by (auto simp: Cons flash_exec_def Let_def epcs_codes_distinct [symmetric])
qed (use assms in simp)

text \<open>The refinement, for the transactions the driver makes.\<close>

definition flash_transaction :: "u8 list \<Rightarrow> nat \<Rightarrow> u32 \<Rightarrow> flash_chip \<Rightarrow> bool" where
  "flash_transaction tx n flags c \<longleftrightarrow> tx \<noteq> [] \<and>
     (n = 0 \<and> (flags = 0 \<or> flags = COMMAND_MERGE) \<or>
      flags = 0 \<and> fquiet c \<and> length tx = flash_header c (hd tx))"

lemma flash_transaction_refines:
  assumes "flash_transaction tx n flags c"
  shows "\<exists>r c' rx' s'. flash_cmd blk delay sig ident tx n flags c = Some (r, c') \<and>
    spi_command (core_hw (flash_slave blk delay sig ident)) tx n flags (idle c s L rx rr v) =
      Some (r, idle c' s' L rx' False 0)"
proof -
  have ne: "tx @ replicate n 0 \<noteq> []" and flags: "flags = 0 \<or> flags = COMMAND_MERGE"
    using assms by (auto simp: flash_transaction_def)
  then have sel: "s \<or> flags AND COMMAND_TOGGLE_SS_N = 0"
    by (auto simp: COMMAND_TOGGLE_SS_N_def COMMAND_MERGE_def)
  let ?A = "flash_answer blk delay sig ident c"
  have drop: "drop (length tx) (map (\<lambda>i. ?A (fopen c @ take i (tx @ replicate n 0))) [0..<length tx + n]) =
      map (\<lambda>i. ?A (fopen c @ tx @ replicate i 0)) [0..<n]"
    by (intro nth_equalityI) (auto simp: min_def)
  have run: "spi_command (core_hw (flash_slave blk delay sig ident)) tx n flags (idle c s L rx rr v) =
      Some (map (\<lambda>i. ?A (fopen c @ tx @ replicate i 0)) [0..<n],
        command_end (flash_slave blk delay sig ident) flags True L
          (last (map (\<lambda>i. ?A (fopen c @ take i (tx @ replicate n 0))) [0..<length tx + n]))
          (c\<lparr>fopen := fopen c @ tx @ replicate n 0\<rparr>))"
    unfolding spi_command_def command_total [OF ne] using sel drop by (simp add: sends_flash Let_def)
  consider (merge) "flags = COMMAND_MERGE" "n = 0" | (short) "flags = 0" "n = 0"
    | (read) "flags = 0" "fopen c = []" "length tx = flash_header c (hd tx)"
    using assms by (auto simp: flash_transaction_def fquiet_def)
  then show ?thesis
  proof cases
    case merge
    then show ?thesis using run by (auto simp: flash_cmd_def command_end_def)
  next
    case short
    have "fst (flash_exec blk delay sig ident (fopen c @ tx) 0 (c\<lparr>fopen := []\<rparr>)) = []"
      using length_exec [of blk delay sig ident "fopen c @ tx" 0] by simp
    then show ?thesis using run short by (auto simp: flash_cmd_def command_end_def prod_eq_iff)
  next
    case read
    have tx: "tx \<noteq> []" using assms by (simp add: flash_transaction_def)
    show ?thesis
      using run read answer_read [OF tx read(3)] effect_read [OF tx, of n "c\<lparr>fopen := []\<rparr>" blk delay sig ident]
      by (auto simp: flash_cmd_def command_end_def prod_eq_iff)
  qed
qed

section \<open>The interface over the wire\<close>

definition resting :: "'c spi_core \<Rightarrow> bool" where
  "resting h \<longleftrightarrow> (\<exists>c s L rx rr v. h = idle c s L rx rr v)"

lemma resting_idle [simp]: "resting (idle c s L rx rr v)"
  unfolding resting_def by blast

definition wire_quiet :: "flash_chip spi_core \<Rightarrow> bool" where
  "wire_quiet h \<longleftrightarrow> resting h \<and> fquiet (chip h)"

abbreviation wire :: "nat \<Rightarrow> nat \<Rightarrow> u8 \<Rightarrow> u8 list \<Rightarrow> flash_chip spi_core command" where
  "wire blk delay sig ident \<equiv> spi_command (core_hw (flash_slave blk delay sig ident))"

lemma wire_step:
  assumes "flash_cmd blk delay sig ident tx n flags (chip h) = Some (r, c')" and "resting h"
    and "flash_transaction tx n flags (chip h)"
  shows "\<exists>h'. wire blk delay sig ident tx n flags h = Some (r, h') \<and> chip h' = c' \<and> resting h'"
proof -
  obtain c s L rx rr v where h: "h = idle c s L rx rr v" using assms(2) by (auto simp: resting_def)
  show ?thesis
    using flash_transaction_refines [of tx n flags c blk delay sig ident s L rx rr v] assms(1,3)
    by (auto simp: h)
qed

text \<open>The commands of the driver are transactions the chip understands.\<close>

lemma transactions:
  "tx \<noteq> [] \<Longrightarrow> flash_transaction tx 0 0 c" "tx \<noteq> [] \<Longrightarrow> flash_transaction tx 0 COMMAND_MERGE c"
  "fquiet c \<Longrightarrow> flash_transaction [epcs_rdsr] 1 0 c"
  "fquiet c \<Longrightarrow> flash_transaction [epcs_rdid] n 0 c" "fquiet c \<Longrightarrow> flash_transaction [epcs_res, 0, 0, 0] n 0 c"
  "fquiet c \<Longrightarrow> length adr = (if ffour c then 4 else 3) \<Longrightarrow> flash_transaction (epcs_read # adr) n 0 c"
  by (auto simp: flash_transaction_def flash_header_def epcs_codes_distinct [symmetric])

interpretation wire: epcs_chip "wire blk delay sig ident" cap blk "fmem \<circ> chip" wire_quiet "fbusy \<circ> chip" "fwel \<circ> chip"
    "ffour \<circ> chip" for blk delay sig ident cap
proof unfold_locales
  fix h :: "flash_chip spi_core" assume "wire_quiet h"
  then have h: "resting h" "fquiet (chip h)" by (simp_all add: wire_quiet_def)
  note step = wire_step [OF _ h(1) transactions(3) [OF h(2)]]
  show "\<exists>r h'. wire blk delay sig ident [epcs_rdsr] 1 0 h = Some ([r], h') \<and> wire_quiet h' \<and> (fmem \<circ> chip) h' = (fmem \<circ> chip) h \<and>
      (ffour \<circ> chip) h' = (ffour \<circ> chip) h \<and> (r AND 1 = 0 \<longleftrightarrow> (fbusy \<circ> chip) h = 0) \<and>
      ((fbusy \<circ> chip) h' < (fbusy \<circ> chip) h \<or> (fbusy \<circ> chip) h = 0 \<and> (fbusy \<circ> chip) h' = 0)"
    using chip.rdsr_law [OF h(2), of blk delay sig ident] step by (fastforce simp: wire_quiet_def)
next
  fix h :: "flash_chip spi_core" assume "wire_quiet h" and h0: "(fbusy \<circ> chip) h = 0"
  then have h: "resting h" "fquiet (chip h)" "fbusy (chip h) = 0" by (simp_all add: wire_quiet_def)
  note step = wire_step [OF _ h(1) transactions(1)]
  show "\<exists>h'. wire blk delay sig ident [epcs_wren] 0 0 h = Some ([], h') \<and> wire_quiet h' \<and> (fbusy \<circ> chip) h' = 0 \<and>
      (fwel \<circ> chip) h' \<and> (fmem \<circ> chip) h' = (fmem \<circ> chip) h \<and> (ffour \<circ> chip) h' = (ffour \<circ> chip) h"
    using chip.wren_law [OF h(2,3), of blk delay sig ident] step by (fastforce simp: wire_quiet_def)
  {
    fix adr :: "u8 list" and n :: nat
    assume adr: "length adr = (if (ffour \<circ> chip) h then 4 else 3)" "address_of adr + n \<le> cap"
    then show "\<exists>h'. wire blk delay sig ident (epcs_read # adr) n 0 h =
          Some (map (\<lambda>i. (fmem \<circ> chip) h (address_of adr + i)) [0..<n], h') \<and>
        wire_quiet h' \<and> (fbusy \<circ> chip) h' = 0 \<and> (fmem \<circ> chip) h' = (fmem \<circ> chip) h \<and> (ffour \<circ> chip) h' = (ffour \<circ> chip) h"
      using chip.read_data_law [OF h(2,3), of adr n cap blk delay sig ident]
        wire_step [OF _ h(1) transactions(6) [OF h(2), of adr n]] by (fastforce simp: wire_quiet_def)
  }
  assume wel: "(fwel \<circ> chip) h"
  then have w: "fwel (chip h)" by simp
  show "\<exists>h'. wire blk delay sig ident [epcs_en4b] 0 0 h = Some ([], h') \<and> wire_quiet h' \<and> (fbusy \<circ> chip) h' = 0 \<and>
      (fmem \<circ> chip) h' = (fmem \<circ> chip) h \<and> (ffour \<circ> chip) h'"
    using chip.en4b_law [OF h(2,3) w, of blk delay sig ident] step by (fastforce simp: wire_quiet_def)
  show "\<exists>h'. wire blk delay sig ident [epcs_dis4b] 0 0 h = Some ([], h') \<and> wire_quiet h' \<and> (fbusy \<circ> chip) h' = 0 \<and>
      (fmem \<circ> chip) h' = (fmem \<circ> chip) h \<and> \<not> (ffour \<circ> chip) h'"
    using chip.dis4b_law [OF h(2,3) w, of blk delay sig ident] step by (fastforce simp: wire_quiet_def)
  fix adr bs :: "u8 list"
  assume adr: "length adr = (if (ffour \<circ> chip) h then 4 else 3)" "address_of adr < cap"
  then have a: "length adr = (if ffour (chip h) then 4 else 3)" by simp
  show "\<exists>h'. wire blk delay sig ident (epcs_se # adr) 0 0 h = Some ([], h') \<and> wire_quiet h' \<and>
      (ffour \<circ> chip) h' = (ffour \<circ> chip) h \<and> (fmem \<circ> chip) h' = erased blk (address_of adr) ((fmem \<circ> chip) h)"
    using chip.se_law [OF h(2,3) w a adr(2), of blk delay sig ident] step by (fastforce simp: wire_quiet_def)
  assume bs: "bs \<noteq> []" "address_of adr mod 256 + length bs \<le> 256"
  obtain c1 c2 where c1: "flash_cmd blk delay sig ident (epcs_pp # adr) 0 COMMAND_MERGE (chip h) = Some ([], c1)"
    and c2: "flash_cmd blk delay sig ident bs 0 0 c1 = Some ([], c2)" "fquiet c2" "ffour c2 = ffour (chip h)"
      "fmem c2 = programmed (address_of adr) bs (fmem (chip h))"
    using chip.pp_law [OF h(2,3) w a adr(2) bs, of blk delay sig ident] by blast
  obtain h1 where h1: "wire blk delay sig ident (epcs_pp # adr) 0 COMMAND_MERGE h = Some ([], h1)" "chip h1 = c1" "resting h1"
    using wire_step [OF c1 h(1) transactions(2)] by blast
  show "\<exists>h1 h2. wire blk delay sig ident (epcs_pp # adr) 0 COMMAND_MERGE h = Some ([], h1) \<and>
      wire blk delay sig ident bs 0 0 h1 = Some ([], h2) \<and> wire_quiet h2 \<and> (ffour \<circ> chip) h2 = (ffour \<circ> chip) h \<and>
      (fmem \<circ> chip) h2 = programmed (address_of adr) bs ((fmem \<circ> chip) h)"
    using wire_step [of blk delay sig ident bs 0 0 h1 "[]" c2] h1 c2 transactions(1) [OF bs(1)]
    by (auto simp: wire_quiet_def)
qed

section \<open>The driver over the wire\<close>

context epcs_device begin

lemma device_write_read:
  assumes "quiet s" "busy s = 0" "\<not> four s" "off < cap"
  shows "\<exists>s' s''. alt_epcs_flash_write cmd f (int off) src s = Some (0, s') \<and>
    mem s' = written blk off (take (cap - off) src) (mem s) \<and>
    alt_epcs_flash_read cmd f (int off) (length (take (cap - off) src)) s' = Some (0, take (cap - off) src, s'') \<and>
    mem s'' = mem s'"
proof -
  obtain s' where w: "alt_epcs_flash_write cmd f (int off) src s = Some (0, s')"
    "mem s' = written blk off (take (cap - off) src) (mem s)" and rest: "at_rest s'"
    using device_write [OF assms] by (auto simp: at_rest_def)
  moreover have "map (\<lambda>i. mem s' (off + i)) [0..<length (take (cap - off) src)] = take (cap - off) src"
    by (intro nth_equalityI) (auto simp: w(2) written_def)
  moreover have "off + length (take (cap - off) src) \<le> cap" using assms(4) by auto
  ultimately show ?thesis using read_total [OF rest _ assms(4)] by metis
qed

end

text \<open>
  C25. The flash driver down to the bytes on the wire: \<open>alt_epcs_flash_write\<close> over the commands of
  \<open>epcs_commands.c\<close>, over \<open>alt_avalon_spi_command\<close>, over a core of any latency, with a chip that sees
  single bytes, answers single bytes and acts when it is deselected. For a device that describes
  its chip, at rest, a write from any offset inside it, of any length and alignment, returns 0:
  every byte that fits is in the memory, every block of which some byte differed has been erased
  (what the data does not cover there reads 0xFF), every other byte is unchanged; and reading the
  same bytes back returns 0 with the data.
\<close>
theorem flash_over_spi:
  assumes "geometry f cap blk" and "0 < cap" and "cap \<le> 2 ^ 30" and "0 < blk" and "blk dvd cap"
    and "four_bytes_mode f \<noteq> 0 \<or> cap \<le> 2 ^ 24"
    and "fopen c = []" and "fbusy c = 0" and "\<not> ffour c" and "off < cap"
  shows "\<exists>h' h''. alt_epcs_flash_write (spi_command (core_hw (flash_slave blk delay sig ident))) f (int off) src
        (idle c s L rx rr v) = Some (0, h') \<and>
    fmem (chip h') = written blk off (take (cap - off) src) (fmem c) \<and>
    alt_epcs_flash_read (spi_command (core_hw (flash_slave blk delay sig ident))) f (int off)
        (length (take (cap - off) src)) h' = Some (0, take (cap - off) src, h'') \<and>
    fmem (chip h'') = fmem (chip h')"
proof -
  have dev: "epcs_device (wire blk delay sig ident) cap blk (fmem \<circ> chip) wire_quiet (fbusy \<circ> chip) (fwel \<circ> chip)
      (ffour \<circ> chip) f"
    using assms by (intro epcs_device.intro wire.epcs_chip_axioms epcs_device_axioms.intro) auto
  have "wire_quiet (idle c s L rx rr v)" using assms by (simp add: wire_quiet_def fquiet_def)
  then show ?thesis using epcs_device.device_write_read [OF dev, of "idle c s L rx rr v" off src] assms by simp
qed

theorem flash_over_spi_witness:
  "\<exists>h' h''. alt_epcs_flash_write (spi_command (core_hw (flash_slave 65536 3 0 [0x20, 0xBA, 0x19]))) epcq256_device
        (int 0x10000FF) [1, 2] (idle zeroed_chip False 4 0 False 0) = Some (0, h') \<and>
    fmem (chip h') 0x10000FF = 1 \<and> fmem (chip h') 0x1000100 = 2 \<and>
    alt_epcs_flash_read (spi_command (core_hw (flash_slave 65536 3 0 [0x20, 0xBA, 0x19]))) epcq256_device
        (int 0x10000FF) 2 h' = Some (0, [1, 2], h'')"
proof -
  have "geometry epcq256_device 33554432 65536" by (simp add: geometry_def epcq256_device_def)
  moreover have "four_bytes_mode epcq256_device \<noteq> 0" by (simp add: epcq256_device_def)
  moreover have "fopen zeroed_chip = []" "fbusy zeroed_chip = 0" "\<not> ffour zeroed_chip" by (simp_all add: zeroed_chip_def)
  moreover have "written 65536 0x10000FF [1, 2] m 0x10000FF = 1" "written 65536 0x10000FF [1, 2] m 0x1000100 = 2" for m
    by (simp_all add: written_def)
  moreover have "take (33554432 - 0x10000FF) [1, 2] = [1, 2 :: u8]" "length [1, 2 :: u8] = 2" by simp_all
  ultimately show ?thesis
    using flash_over_spi [of epcq256_device 33554432 65536 zeroed_chip "0x10000FF" 3 0 "[0x20, 0xBA, 0x19]" "[1, 2]" False 4 0 False 0]
    by (auto simp del: of_nat_numeral list.size)
qed

end
