(* ===== verification/Hal_Flash_Api.thy ===== *)
theory Hal_Flash_Api
  imports Flash_Epcs Hal_Cache_Sim
begin

text \<open>
  The flash interface of the HAL (\<open>HAL/inc/sys/alt_flash.h\<close>, \<open>alt_flash_dev.h\<close>): calls through the function
  pointers of a device, and the data cache kept in order behind an erase and a block write. The state is that of
  the flash, \<open>'s\<close>, and that of the processor, \<open>'m\<close>. The list of flash devices with their names, \<open>open\<close> and
  \<open>close\<close> are in \<open>Flash_Epcs\<close>, as are the regions.
\<close>

record 's alt_flash_dev =
  flash_write :: "int \<Rightarrow> u8 list \<Rightarrow> 's \<Rightarrow> (int \<times> 's) option"
  flash_read :: "int \<Rightarrow> nat \<Rightarrow> 's \<Rightarrow> (int \<times> u8 list \<times> 's) option"
  flash_get_info :: "int \<times> flash_region list option \<times> int"
  flash_erase_block :: "int \<Rightarrow> 's \<Rightarrow> (int \<times> 's) option"
  flash_write_block :: "int \<Rightarrow> int \<Rightarrow> u8 list \<Rightarrow> int \<Rightarrow> 's \<Rightarrow> (int \<times> 's) option"
  base_addr :: u32

text \<open>The device of the configuration flash: \<open>ALTERA_AVALON_EPCS_FLASH_CONTROLLER_INSTANCE\<close>.\<close>

definition epcs_flash_instance :: "'s command \<Rightarrow> flash_dev \<Rightarrow> u32 \<Rightarrow> 's alt_flash_dev" where
  "epcs_flash_instance cmd f base =
    \<lparr>flash_write = alt_epcs_flash_write cmd f, flash_read = alt_epcs_flash_read cmd f,
     flash_get_info = alt_epcs_flash_get_info f, flash_erase_block = alt_epcs_flash_erase_block cmd f,
     flash_write_block = alt_epcs_flash_write_block cmd f, base_addr = base\<rparr>"

definition alt_write_flash :: "'s alt_flash_dev \<Rightarrow> int \<Rightarrow> u8 list \<Rightarrow> 's \<Rightarrow> (int \<times> 's) option" where
  "alt_write_flash fd offset src s = flash_write fd offset src s"

definition alt_read_flash :: "'s alt_flash_dev \<Rightarrow> int \<Rightarrow> nat \<Rightarrow> 's \<Rightarrow> (int \<times> u8 list \<times> 's) option" where
  "alt_read_flash fd offset len s = flash_read fd offset len s"

definition alt_get_flash_info :: "'s alt_flash_dev \<Rightarrow> int \<times> flash_region list option \<times> int" where
  "alt_get_flash_info fd = flash_get_info fd"

definition alt_erase_flash_block ::
  "'m processor \<Rightarrow> 's alt_flash_dev \<Rightarrow> int \<Rightarrow> int \<Rightarrow> 's \<times> 'm \<Rightarrow> (int \<times> 's \<times> 'm) option" where
  "alt_erase_flash_block P fd offset len sm =
    (case sm of (s, m) \<Rightarrow> do {
       (ret_code, s) \<leftarrow> flash_erase_block fd offset s;
       m \<leftarrow> (if ret_code = 0 then alt_dcache_flush P (base_addr fd + of_int offset) (of_int len) m else Some m);
       Some (ret_code, s, m)
     })"

definition alt_write_flash_block ::
  "'m processor \<Rightarrow> 's alt_flash_dev \<Rightarrow> int \<Rightarrow> int \<Rightarrow> u8 list \<Rightarrow> int \<Rightarrow> 's \<times> 'm \<Rightarrow> (int \<times> 's \<times> 'm) option" where
  "alt_write_flash_block P fd block_offset data_offset src len sm =
    (case sm of (s, m) \<Rightarrow> do {
       (ret_code, s) \<leftarrow> flash_write_block fd block_offset data_offset src len s;
       m \<leftarrow> (if ret_code = 0 then alt_dcache_flush P (base_addr fd + of_int data_offset) (of_int len) m else Some m);
       Some (ret_code, s, m)
     })"

text \<open>
  A block write or an erase that succeeds leaves no line of its range in the data cache, so that the processor reads the flash
  again, as far as it has not written there itself; a failing one leaves the caches alone.
\<close>

lemma drained_reads: "line_of x \<in> L \<Longrightarrow> \<not> dirty c (line_of x) \<Longrightarrow> cached (drain L c) x = ram c x \<and> ram (drain L c) x = ram c x"
  by (simp add: drain_fields)

context nios2_caches
begin

lemma flash_block_flushed:
  assumes "flash_write_block fd block_offset off src len s = Some (ret_code, s')"
    and "a = base_addr fd + of_int off" and "n = (of_int len :: u32)" and "unat a + unat n \<le> 2 ^ 31 - 32"
  shows "\<exists>m'. alt_write_flash_block P fd block_offset off src len (s, m) = Some (ret_code, s', m') \<and>
    data m' = (if ret_code = 0 then drain (region_lines (unat a) (unat n)) (data m) else data m)"
  using assms dcache_flush [OF assms(4), of m] by (auto simp: alt_write_flash_block_def)

lemma flash_erase_flushed:
  assumes "flash_erase_block fd off s = Some (ret_code, s')"
    and "a = base_addr fd + of_int off" and "n = (of_int len :: u32)" and "unat a + unat n \<le> 2 ^ 31 - 32"
  shows "\<exists>m'. alt_erase_flash_block P fd off len (s, m) = Some (ret_code, s', m') \<and>
    data m' = (if ret_code = 0 then drain (region_lines (unat a) (unat n)) (data m) else data m)"
  using assms dcache_flush [OF assms(4), of m] by (auto simp: alt_erase_flash_block_def)

end

end
