(* ===== verification/Hal_Exception.thy ===== *)
theory Hal_Exception
  imports Cnc_Prelude
begin

text \<open>
  Exceptions of instructions (\<open>HAL/inc/sys/alt_exceptions.h\<close>, \<open>alt_instruction_exception_entry.c\<close>,
  \<open>alt_instruction_exception_register.c\<close>, \<open>alt_ecc_fatal_exception.c\<close>), for this processor: without the registers
  that tell the cause, and with a debugger. This BSP does not enable the registration of handlers, but the file that has it
  is part of the HAL.
\<close>

datatype alt_exception_cause =
    NIOS2_EXCEPTION_CAUSE_NOT_PRESENT
  | NIOS2_EXCEPTION_RESET
  | NIOS2_EXCEPTION_CPU_ONLY_RESET_REQUEST
  | NIOS2_EXCEPTION_INTERRUPT
  | NIOS2_EXCEPTION_TRAP_INST
  | NIOS2_EXCEPTION_UNIMPLEMENTED_INST
  | NIOS2_EXCEPTION_ILLEGAL_INST
  | NIOS2_EXCEPTION_MISALIGNED_DATA_ADDR
  | NIOS2_EXCEPTION_MISALIGNED_TARGET_PC
  | NIOS2_EXCEPTION_DIVISION_ERROR
  | NIOS2_EXCEPTION_SUPERVISOR_ONLY_INST_ADDR
  | NIOS2_EXCEPTION_SUPERVISOR_ONLY_INST
  | NIOS2_EXCEPTION_SUPERVISOR_ONLY_DATA_ADDR
  | NIOS2_EXCEPTION_TLB_MISS
  | NIOS2_EXCEPTION_TLB_EXECUTE_PERM_VIOLATION
  | NIOS2_EXCEPTION_TLB_READ_PERM_VIOLATION
  | NIOS2_EXCEPTION_TLB_WRITE_PERM_VIOLATION
  | NIOS2_EXCEPTION_MPU_INST_REGION_VIOLATION
  | NIOS2_EXCEPTION_MPU_DATA_REGION_VIOLATION
  | NIOS2_EXCEPTION_ECC_TLB_ERR
  | NIOS2_EXCEPTION_ECC_FETCH_ERR
  | NIOS2_EXCEPTION_ECC_REGISTER_FILE_ERR
  | NIOS2_EXCEPTION_ECC_DATA_ERR
  | NIOS2_EXCEPTION_ECC_DATA_CACHE_WRITEBACK_ERR

datatype alt_exception_result = NIOS2_EXCEPTION_RETURN_REISSUE_INST | NIOS2_EXCEPTION_RETURN_SKIP_INST

type_synonym 's exception_handler = "alt_exception_cause \<Rightarrow> u32 \<Rightarrow> u32 \<Rightarrow> 's \<Rightarrow> alt_exception_result \<times> 's"

record 's exceptions =
  alt_instruction_exception_handler :: "'s exception_handler option"
  alt_exception_ecc_fatal_handler :: u32
  machine :: 's

text \<open>The initial values of the two variables.\<close>

definition exceptions_init :: "'s \<Rightarrow> 's exceptions" where
  "exceptions_init s = \<lparr>alt_instruction_exception_handler = None, alt_exception_ecc_fatal_handler = 0, machine = s\<rparr>"

definition alt_instruction_exception_register :: "'s exception_handler option \<Rightarrow> 's exceptions \<Rightarrow> 's exceptions" where
  "alt_instruction_exception_register exception_handler e = e\<lparr>alt_instruction_exception_handler := exception_handler\<rparr>"

definition alt_ecc_fatal_exception_register :: "u32 \<Rightarrow> 's exceptions \<Rightarrow> 's exceptions" where
  "alt_ecc_fatal_exception_register handler e = e\<lparr>alt_exception_ecc_fatal_handler := handler\<rparr>"

text \<open>\<open>nios2_break\<close> is the break instruction, which comes back when the debugger goes on.\<close>

definition alt_instruction_exception_entry :: "('s \<Rightarrow> 's) \<Rightarrow> u32 \<Rightarrow> 's exceptions \<Rightarrow> alt_exception_result \<times> 's exceptions" where
  "alt_instruction_exception_entry nios2_break exception_pc e =
    (let cause = NIOS2_EXCEPTION_CAUSE_NOT_PRESENT; badaddr = 0
     in case alt_instruction_exception_handler e of
          Some handler \<Rightarrow> (case handler cause exception_pc badaddr (machine e) of (r, s) \<Rightarrow> (r, e\<lparr>machine := s\<rparr>))
        | None \<Rightarrow> (NIOS2_EXCEPTION_RETURN_REISSUE_INST, e\<lparr>machine := nios2_break (machine e)\<rparr>))"

definition alt_exception_cause_generated_bad_addr :: "alt_exception_cause \<Rightarrow> int" where
  "alt_exception_cause_generated_bad_addr cause =
    (case cause of
       NIOS2_EXCEPTION_SUPERVISOR_ONLY_DATA_ADDR \<Rightarrow> 1
     | NIOS2_EXCEPTION_MISALIGNED_DATA_ADDR \<Rightarrow> 1
     | NIOS2_EXCEPTION_MISALIGNED_TARGET_PC \<Rightarrow> 1
     | NIOS2_EXCEPTION_TLB_READ_PERM_VIOLATION \<Rightarrow> 1
     | NIOS2_EXCEPTION_TLB_WRITE_PERM_VIOLATION \<Rightarrow> 1
     | NIOS2_EXCEPTION_MPU_DATA_REGION_VIOLATION \<Rightarrow> 1
     | NIOS2_EXCEPTION_ECC_DATA_ERR \<Rightarrow> 1
     | NIOS2_EXCEPTION_TLB_MISS \<Rightarrow> 0
     | NIOS2_EXCEPTION_ECC_TLB_ERR \<Rightarrow> 0
     | _ \<Rightarrow> 0)"

text \<open>
  A handler runs on the machine it interrupts, and is told an address that it must not use, as the routine for
  this question says. Without a handler the faulting instruction is issued again.
\<close>

lemma exception_entry:
  "alt_instruction_exception_entry brk pc (alt_instruction_exception_register (Some f) e) =
    (case f NIOS2_EXCEPTION_CAUSE_NOT_PRESENT pc 0 (machine e) of
       (r, s) \<Rightarrow> (r, (alt_instruction_exception_register (Some f) e)\<lparr>machine := s\<rparr>))"
  "alt_exception_cause_generated_bad_addr NIOS2_EXCEPTION_CAUSE_NOT_PRESENT = 0"
  "fst (alt_instruction_exception_entry brk pc (alt_instruction_exception_register None e)) = NIOS2_EXCEPTION_RETURN_REISSUE_INST"
  by (simp_all add: alt_instruction_exception_entry_def alt_instruction_exception_register_def
      alt_exception_cause_generated_bad_addr_def)

end
