(* ===== verification/Drv_File.thy ===== *)
theory Drv_File
  imports Drv_Dev
begin

text \<open>
  The file operations of the driver that keep no state of the card: \<open>cnc_open\<close> and \<open>cnc_release\<close> of
  \<open>drv/src/cnc_card.c\<close>, and the table of the devices it drives. \<open>cnc_open\<close> finds the device from
  the \<open>struct cdev\<close> inside it. Neither touches the buffer: what one process has left in it goes to the card in
  front of the data of the next.
\<close>

definition PCI_VENDOR_ID_CNC :: u32 where "PCI_VENDOR_ID_CNC = 0x1172"
definition PCI_DEVICE_ID_CNC :: u32 where "PCI_DEVICE_ID_CNC = 0x4258"

definition cnc_pci_tbl :: "(u32 \<times> u32) list" where
  "cnc_pci_tbl = [(PCI_VENDOR_ID_CNC, PCI_DEVICE_ID_CNC)]"

record filp =
  private_data :: u64

text \<open>\<open>container_of\<close>, with the offset of \<open>cdev\<close> in \<open>struct cnc_dev_t\<close>.\<close>

definition container_of :: "u64 \<Rightarrow> u64 \<Rightarrow> u64" where
  "container_of offset ptr = ptr - offset"

definition cnc_open :: "u64 \<Rightarrow> u64 \<Rightarrow> filp \<Rightarrow> int \<times> filp" where
  "cnc_open cdev_offset i_cdev f = (let dev = container_of cdev_offset i_cdev in (0, f\<lparr>private_data := dev\<rparr>))"

definition cnc_release :: "filp \<Rightarrow> int \<times> filp" where
  "cnc_release f = (0, f)"

lemma open_gets_device: "cnc_open offset (dev + offset) f = (0, f\<lparr>private_data := dev\<rparr>)"
  by (simp add: cnc_open_def container_of_def)

end
