(* ===== verification/Spec2Isabelle.thy ===== *)
theory Spec2Isabelle
  imports Drv_Regs Drv_Race Drv_Probe Esc_Layout Ecat_Link Hal_Fd_Proofs Flash_Chip Jtag_Console Hal_Irq_Proofs Hal_Printf_Proofs Hal_Profile Hal_Dma Hal_Sleep
    Hal_Load Flash_Wire Hal_Flash_Api Hal_Exception Drv_File
begin

text \<open>
  A verification development for a CNC motion card. The card is a PCIe board with an FPGA that
  interpolates the axes and talks to remote inputs and outputs over EtherCAT. Three parts of its
  software are modelled:

  \<^item> the Linux driver (\<open>drv/src/cnc_card.c\<close>, \<open>drv/inc/cncdrive_cmd.h\<close>): it takes interpolation data from
    the user in blocks, hands a block to the card on every interrupt, returns the positions of
    the axes, and turns ioctl commands into register writes;
  \<^item> the firmware of the Nios II processor of the EtherCAT slave (\<open>qsys/software/ssc-io/main.c\<close>,
    \<open>ec_def.h\<close>): it drives the slave controller chip over SPI, answers the state requests of the
    EtherCAT master, and copies process data;
  \<^item> the board support package of that processor (\<open>qsys/software/ssc-io_bsp\<close>): the hardware
    abstraction layer (HAL) with its file descriptors, devices, alarms and interrupts, and the
    drivers of the SPI core, the configuration flash and the JTAG UART.

  They meet at the hardware: the driver and the FPGA at the PCIe registers, the firmware and the
  slave controller at the SPI link, the HAL and its drivers at the device structures.

  \<^bold>\<open>Theories.\<close> \<open>Cnc_Prelude\<close> holds the integer types, \<open>memcpy\<close> and shared lemmas.

  \<^item> Driver. \<open>Drv_Bus\<close>: the register accesses as a log. \<open>Drv_Dev\<close>: \<open>struct cnc_dev\<close>, the mutex and
    the wait queue. \<open>Drv_Ioctl\<close>: \<open>cnc_ioctl\<close>, every command. \<open>Drv_Stream\<close>: \<open>cnc_read\<close>, \<open>cnc_write\<close>,
    \<open>data_send\<close>, \<open>cnc_interrupt\<close>, and the system of any sequence of them, with the stream invariant.
    \<open>Drv_Race\<close>: one \<open>cnc_write\<close> statement by statement against the interrupt. \<open>Drv_Probe\<close>:
    \<open>cnc_probe\<close> and \<open>cnc_remove\<close>. \<open>Drv_File\<close>: \<open>cnc_open\<close> and \<open>cnc_release\<close>. \<open>Drv_Regs\<close>: the offsets against the decoder of \<open>rtl/txproc.v\<close>.
  \<^item> Firmware. \<open>Spi_Link\<close>: \<open>alt_avalon_spi_command\<close>, \<open>spi_tx_rx_8\<close> and the register accessors.
    \<open>Spi_Core\<close>: a simulated core with any slave behind it, and what a transaction does on it. \<open>Spi_Chip\<close>:
    the slave controller on that core. \<open>Esc_Layout\<close>: \<open>TESC_REG\<close> laid out by the rules of C.
    \<open>Ecat_Slave\<close>: all of \<open>main.c\<close> above the accessors. \<open>Ecat_Proofs\<close>: the AL state machine against
    the four-state specification and its invariant. \<open>Ecat_Link\<close>: the calls on a working link.
  \<^item> HAL. \<open>Hal_Llist\<close>: the doubly linked rings. \<open>Hal_Fd\<close>, \<open>Hal_Fd_Proofs\<close>: descriptors, devices,
    file systems. \<open>Hal_Time\<close>, \<open>Hal_Time_Proofs\<close>: ticks, alarms, time of day. \<open>Hal_Irq\<close>,
    \<open>Hal_Irq_Proofs\<close>: registration, masks, nesting and dispatch of interrupts. \<open>Hal_Printf\<close>, \<open>Hal_Log\<close>:
    \<open>alt_printf\<close> and the logging functions. \<open>Hal_Format\<close>, \<open>Hal_Printf_Proofs\<close>: what a format means, that
    both functions print it, and what the host sees of the log. \<open>Hal_Heap\<close>: memory and \<open>alt_sbrk\<close>. \<open>Hal_Gmon\<close>,
    \<open>Hal_Gmon_Proofs\<close>, \<open>Hal_Profile\<close>: the profiler, its lists in memory, and that it counts calls and samples.
    \<open>Hal_Process\<close>: \<open>stat\<close>, \<open>kill\<close> and the other calls on processes and names, which mostly fail. \<open>Hal_Sleep\<close>:
    the calibrated delay and its length. \<open>Hal_Dma\<close>: the calls on DMA channels. \<open>Hal_Cache\<close>, \<open>Hal_Cache_Sim\<close>: the functions
    for the caches and uncached memory, what they leave in the caches and in memory, and a processor with
    such caches. \<open>Hal_Load\<close>: loading of the sections from flash through the caches, constructors and destructors.
    \<open>Hal_Exception\<close>: handlers of instruction exceptions.
  \<^item> Drivers of the BSP. \<open>Flash_Epcs\<close>: \<open>epcs_commands.c\<close> and the flash device. \<open>Hal_Flash_Api\<close>: \<open>alt_flash.h\<close>, the
    calls of a flash device with the flushes of the data cache. \<open>Flash_Port\<close>,
    \<open>Flash_Proofs\<close>, \<open>Flash_Chip\<close>: its interfaces, proofs and a simulated chip. \<open>Flash_Wire\<close>: that chip as a slave
    on the simulated core, and the driver down to the bytes on the wire. \<open>Jtag_Uart\<close>: both
    variants of the UART driver. \<open>Ring_Queue\<close>: circular buffers as lists. \<open>Jtag_Proofs\<close>,
    \<open>Jtag_Console\<close>: the buffers as queues, and the UART as the console of the HAL.

  \<^bold>\<open>State.\<close> The static variables of a C file are a record, passed through every function and
  returned updated. Errors of the driver are \<open>Inl\<close> of an error number, those of the HAL negative
  integers or an \<open>errno\<close> field, as in the code. Registers and counters are words of their width.
  A function whose loop need not end is a \<open>partial_function\<close> of the option monad: \<open>None\<close> is a call
  that never returns, leaves an array, follows a null pointer, or accesses an unaligned word. There is no fuel; that a call
  returns is always proved as \<open>\<exists>x. f a = Some x\<close>.

  \<^bold>\<open>Interfaces.\<close> Code and hardware that are not part of the repository are parameters, and what is
  relied on of them are the laws of a locale: \<open>ioctl_numbers\<close> (the kernel's command numbers),
  \<open>esc_port\<close> (the register accessors), \<open>ring_store\<close> (the rings), \<open>serial_flash\<close> (a flash behind
  the commands of the driver), \<open>epcs_chip\<close> and \<open>epcs_device\<close> (the documented commands of the chip),
  \<open>jtag_port\<close> and \<open>jtag_live\<close> (the UART core, and a core with a host that keeps reading and
  sending), \<open>irq_sources\<close> (handlers that do some of finitely much work), \<open>nios2_caches\<close> (the cache instructions, loads and
  stores of the processor handbook). Each is interpreted:
  \<open>ring_store\<close> on the code of the HAL, \<open>esc_port\<close> on the accessors of \<open>main.c\<close> over a simulated SPI
  core and controller, \<open>serial_flash\<close> on the code of \<open>epcs_commands.c\<close> (by the \<open>sublocale\<close> of
  \<open>epcs_device\<close>), \<open>epcs_chip\<close> on \<open>alt_avalon_spi_command\<close> over the simulated core and a chip
  behind it, \<open>irq_sources\<close> on the interrupt of the clock, and the hardware interfaces on simulated
  chips that follow the data sheets.

  \<^bold>\<open>Granularity.\<close> In \<open>Drv_Stream\<close> a system call runs to its next sleep in one step, which is what the
  mutex gives for calls against each other; the interrupt is not excluded by the mutex, and
  \<open>Drv_Race\<close> therefore interleaves it between the statements of one writer. In \<open>Jtag_Uart\<close>
  interrupts arrive at any point between two accesses to shared variables. The HAL disables
  interrupts around every update of its lists, so those calls are one step.

  \<^bold>\<open>Configuration.\<close> The BSP is modelled as \<open>system.h\<close> and \<open>public.mk\<close> configure it: device
  structures and no direct drivers, the small JTAG UART driver, no operating system, no system
  clock timer, the internal interrupt controller with the enhanced interrupt interface. The fast
  UART driver, the alarms, the log and the profiler are modelled as well, although this BSP does not
  select them.

  \<^bold>\<open>Not modelled.\<close> What the kernel functions do inside; PCI addresses and messages in \<open>cnc_probe\<close>. The
  FPGA logic in Verilog except the address decoder. The start-up and the exception entry in assembly
  (\<open>crt0.S\<close>, \<open>alt_exception_entry.S\<close>), and \<open>alt_main\<close> as a whole: its steps are modelled one by one. The wrappers that only call the C library, \<open>sysid\<close> (not compiled: \<open>SYSID_BASE\<close> is not defined).
  \<open>qsys/software/main.c\<close> and \<open>ec_def.h\<close> are copies of the files in \<open>ssc-io\<close>.
\<close>

end
